(* ===== verification/Transport_Prelude.thy ===== *)
theory Transport_Prelude
  imports Main "HOL-Library.Word" "HOL-Library.Monad_Syntax"
begin

text \<open>
  Shared vocabulary of the development: the machine integer types of the C++ code, the
  \<open>CHECK\<close> macro, raw memory copies, the parameters that stand for the libraries the
  repository calls (\<open>roo_io\<close>, \<open>roo_time\<close>) with the laws the code relies on,
  and the word and list lemmas the component theories share.
\<close>

unbundle bit_operations_syntax

section \<open>Types\<close>

type_synonym u8 = "8 word"
type_synonym u16 = "16 word"
type_synonym u32 = "32 word"
type_synonym u64 = "64 word"

text \<open>\<open>roo::byte\<close> is an octet.\<close>

type_synonym byte = u8

text \<open>Points in time (\<open>roo_time::Uptime\<close>) are counted in microseconds.\<close>

type_synonym uptime = int

section \<open>Collections of rewrite rules\<close>

named_theorems rb_simps \<open>evaluation rules of the ring buffer and its sequence numbers\<close>
named_theorems buf_simps \<open>field-wise effect of the packet buffer operations\<close>

section \<open>Aborts\<close>

text \<open>
  A failed \<open>CHECK\<close> terminates the process. Operations that contain a \<open>CHECK\<close>
  return an \<open>option\<close>; \<open>None\<close> is the abort. \<open>DCHECK\<close> is compiled out of
  release builds and has no counterpart in the model.
\<close>

definition CHECK :: "bool \<Rightarrow> unit option" where
  "CHECK c = (if c then Some () else None)"

lemma CHECK_True [simp]: "CHECK True = Some ()"
  by (simp add: CHECK_def)

lemma CHECK_False [simp]: "CHECK False = None"
  by (simp add: CHECK_def)

lemma CHECK_eq_Some [simp]: "CHECK c = Some u \<longleftrightarrow> c"
  by (simp add: CHECK_def)

lemma CHECK_bind: "Option.bind (CHECK c) f = (if c then f () else None)"
  by (simp add: CHECK_def)

section \<open>Raw memory\<close>

text \<open>\<open>memcpy(dst + off, src, n)\<close> on a byte array, \<open>n\<close> being the length of \<open>src\<close>.\<close>

definition memcpy_at :: "byte list \<Rightarrow> nat \<Rightarrow> byte list \<Rightarrow> byte list" where
  "memcpy_at dst off src = take off dst @ src @ drop (off + length src) dst"

lemma length_memcpy_at [simp]:
  "off + length src \<le> length dst \<Longrightarrow> length (memcpy_at dst off src) = length dst"
  by (simp add: memcpy_at_def)

lemma take_memcpy_at [simp]:
  "off \<le> length dst \<Longrightarrow> take (off + length src) (memcpy_at dst off src) = take off dst @ src"
  by (simp add: memcpy_at_def)

lemma take_memcpy_at_0 [simp]: "take (length src) (memcpy_at dst 0 src) = src"
  by (simp add: memcpy_at_def)

lemma drop_take_memcpy_at:
  assumes "h \<le> off" "off \<le> length dst"
  shows "drop h (take (off + length src) (memcpy_at dst off src)) = drop h (take off dst) @ src"
  using assms by simp

lemma take_memcpy_at_le:
  assumes "n \<le> off" "off \<le> length dst"
  shows "take n (memcpy_at dst off src) = take n dst"
  using assms by (simp add: memcpy_at_def min_def)

section \<open>Libraries the code calls\<close>

text \<open>
  \<open>roo_io\<close> (byte order helpers) and \<open>roo_time\<close> (clock constants) are separate
  packages. They are a parameter of the model; the functions are named after the library
  calls. A \<open>Store\<close> function gives the bytes it writes. The record also carries two
  constants of the platform: the largest \<open>long\<close> and the largest value of the random
  number generator (\<open>RANDOM_INTEGER_MAX\<close>).
\<close>

record lib =
  StoreBeU16 :: "u16 \<Rightarrow> byte list"
  LoadBeU16 :: "byte list \<Rightarrow> u16"
  StoreBeU32 :: "u32 \<Rightarrow> byte list"
  LoadBeU32 :: "byte list \<Rightarrow> u32"
  StoreBeU64 :: "u64 \<Rightarrow> byte list"
  Uptime_Start :: uptime
  Uptime_Max :: uptime
  LONG_MAX :: int
  RANDOM_INTEGER_MAX :: u32

text \<open>
  The documented behaviour that the code relies on: fixed widths, \<open>Load\<close> inverts
  \<open>Store\<close> and reads only the leading bytes, a 64-bit store is big endian, and the
  clock starts at its least value.
\<close>

definition be_bytes :: "nat \<Rightarrow> 'a::len word \<Rightarrow> byte list" where
  "be_bytes n w = map (\<lambda>i. ucast (drop_bit (8 * (n - 1 - i)) w)) [0..<n]"

lemma length_be_bytes [simp]: "length (be_bytes n w) = n"
  by (simp add: be_bytes_def)

locale roo_lib =
  fixes L :: lib
  assumes length_StoreBeU16: "length (StoreBeU16 L x) = 2"
    and load_store_16: "LoadBeU16 L (StoreBeU16 L x @ rest) = x"
    and length_StoreBeU32: "length (StoreBeU32 L y) = 4"
    and load_store_32: "LoadBeU32 L (StoreBeU32 L y @ rest) = y"
    and StoreBeU64_be: "StoreBeU64 L z = be_bytes 8 z"
    and start_le_max: "Uptime_Start L \<le> Uptime_Max L"
begin

lemma length_StoreBeU64: "length (StoreBeU64 L z) = 8"
  by (simp add: StoreBeU64_be)

lemma load_store_16_nil: "LoadBeU16 L (StoreBeU16 L x) = x"
  using load_store_16 [of x "[]"] by simp

lemma StoreBeU16_inject: "StoreBeU16 L x = StoreBeU16 L x' \<longleftrightarrow> x = x'"
  by (metis load_store_16_nil)

end

section \<open>Words\<close>

declare of_nat_unat [simp del]

lemma of_nat_unat_word [simp]: "of_nat (unat (x :: 'a::len word)) = x"
  by (simp add: of_nat_unat)

lemma unat_u16_less: "unat (x :: u16) < 65536"
  using unsigned_less [of x] by simp

lemma unat_u8_less: "unat (x :: u8) < 256"
  using unsigned_less [of x] by simp

lemma unat_of_nat_u16 [simp]: "n < 65536 \<Longrightarrow> unat (of_nat n :: u16) = n"
  by (simp add: unat_of_nat)

lemma unat_of_nat_u8 [simp]: "n < 256 \<Longrightarrow> unat (of_nat n :: u8) = n"
  by (simp add: unat_of_nat)

lemma mod_add_left_cancel: "(b + i) mod m = (b + j) mod m \<longleftrightarrow> i mod m = j mod (m :: nat)"
proof -
  have "int ((b + i) mod m) = int ((b + j) mod m) \<longleftrightarrow> int (i mod m) = int (j mod m)"
    by (simp add: of_nat_mod mod_eq_dvd_iff)
  then show ?thesis
    by (simp only: of_nat_eq_iff)
qed

end
