(* ===== verification/Seq_Num.thy ===== *)
theory Seq_Num
  imports Transport_Prelude
begin

text \<open>
  \<open>SeqNum\<close> (\<^verbatim>\<open>link/internal/seq_num.h\<close>): a 16-bit sequence number that wraps around.
  The comparisons cast the 16-bit difference to \<open>int16_t\<close>. The lemmas relate them to the
  order of unbounded stream positions, and give the distance calculus (\<open>unat (b - a)\<close>)
  that the ring buffer proofs use.
\<close>

section \<open>The class\<close>

type_synonym SeqNum = u16

text \<open>\<open>(int16_t)(seq_ - other.seq_)\<close>: the signed reading of the wrapped difference.\<close>

definition SeqNum_diff :: "SeqNum \<Rightarrow> SeqNum \<Rightarrow> int" where
  "SeqNum_diff a b = sint (a - b)"

definition SeqNum_lt :: "SeqNum \<Rightarrow> SeqNum \<Rightarrow> bool" where
  "SeqNum_lt a b \<longleftrightarrow> sint (a - b) < 0"

definition SeqNum_le :: "SeqNum \<Rightarrow> SeqNum \<Rightarrow> bool" where
  "SeqNum_le a b \<longleftrightarrow> sint (a - b) \<le> 0"

definition SeqNum_gt :: "SeqNum \<Rightarrow> SeqNum \<Rightarrow> bool" where
  "SeqNum_gt a b \<longleftrightarrow> sint (a - b) > 0"

definition SeqNum_ge :: "SeqNum \<Rightarrow> SeqNum \<Rightarrow> bool" where
  "SeqNum_ge a b \<longleftrightarrow> sint (a - b) \<ge> 0"

definition SeqNum_inc :: "SeqNum \<Rightarrow> SeqNum" where
  "SeqNum_inc a = a + 1"

definition SeqNum_plus :: "SeqNum \<Rightarrow> int \<Rightarrow> SeqNum" where
  "SeqNum_plus a n = a + of_int n"

definition SeqNum_minus :: "SeqNum \<Rightarrow> int \<Rightarrow> SeqNum" where
  "SeqNum_minus a n = a - of_int n"

lemmas SeqNum_cmp_defs = SeqNum_lt_def SeqNum_le_def SeqNum_gt_def SeqNum_ge_def SeqNum_diff_def

section \<open>Distances\<close>

lemma sint_u16: "sint (x :: u16) = (if unat x < 32768 then int (unat x) else int (unat x) - 65536)"
proof -
  have x: "sint x = signed_take_bit 15 (uint x)" "uint x = int (unat x)" "0 \<le> uint x" "uint x < 65536"
    using uint_bounded [of x] by (simp_all add: sint_uint of_nat_unat)
  show ?thesis
  proof (cases "unat x < 32768")
    case True
    then have "signed_take_bit 15 (uint x) = uint x"
      using x by (intro signed_take_bit_int_eq_self) simp_all
    with True show ?thesis
      by (simp add: x(1,2))
  next
    case False
    have "signed_take_bit 15 (uint x) = signed_take_bit 15 (uint x - 65536)"
      by (simp add: signed_take_bit_eq_iff_take_bit_eq take_bit_eq_mod)
    also have "\<dots> = uint x - 65536"
      using x False by (intro signed_take_bit_int_eq_self) simp_all
    finally show ?thesis
      using False by (simp add: x(1,2))
  qed
qed

lemma unat_diff_u16: "unat (a - b :: u16) =
    (if unat b \<le> unat a then unat a - unat b else unat a + 65536 - unat b)"
  using unat_sub_if_size [of a b] by (simp add: word_size)

lemma unat_minus_u16: "unat (- d :: u16) = (if d = 0 then 0 else 65536 - unat d)"
  using unat_diff_u16 [of 0 d] by (auto simp: unat_eq_zero)

text \<open>Positions in a window are reached from its start by a distance below \<open>2 ^ 16\<close>.\<close>

lemma sint_diff_dist: "sint (a - b :: u16) = (if unat (b - a) \<le> 32768 then - int (unat (b - a)) else 65536 - int (unat (b - a)))"
proof -
  have "sint (a - b) = sint (- (b - a))"
    by simp
  also have "\<dots> = (if unat (b - a) \<le> 32768 then - int (unat (b - a)) else 65536 - int (unat (b - a)))"
    unfolding sint_u16 unat_minus_u16 using unat_u16_less [of "b - a"] by (auto simp: of_nat_diff)
  finally show ?thesis .
qed

lemma SeqNum_lt_iff_dist: "SeqNum_lt a b \<longleftrightarrow> 0 < unat (b - a) \<and> unat (b - a) \<le> 32768"
  using unat_u16_less [of "b - a"] unfolding SeqNum_lt_def sint_diff_dist by auto

lemma SeqNum_le_iff_dist: "SeqNum_le a b \<longleftrightarrow> unat (b - a) \<le> 32768"
  using unat_u16_less [of "b - a"] unfolding SeqNum_le_def sint_diff_dist by auto

lemma SeqNum_gt_iff_dist: "SeqNum_gt a b \<longleftrightarrow> 0 < unat (a - b) \<and> unat (a - b) < 32768"
  using unat_u16_less [of "a - b"] by (auto simp: SeqNum_gt_def sint_u16)

lemma SeqNum_ge_iff_dist: "SeqNum_ge a b \<longleftrightarrow> unat (a - b) < 32768"
  using unat_u16_less [of "a - b"] by (auto simp: SeqNum_ge_def sint_u16)

lemma SeqNum_diff_dist:
  "unat (a - b) < 32768 \<Longrightarrow> SeqNum_diff a b = int (unat (a - b))"
  by (simp add: SeqNum_diff_def sint_u16)

lemma dist_add: "unat (b - a) + n < 65536 \<Longrightarrow> unat (b + of_nat n - a :: u16) = unat (b - a) + n"
proof -
  assume n: "unat (b - a) + n < 65536"
  have "b + of_nat n - a = of_nat (unat (b - a) + n)"
    by (simp add: algebra_simps)
  with n show ?thesis
    by (metis unat_of_nat_u16)
qed

lemma dist_split: "unat (b - a) \<le> unat (c - a) \<Longrightarrow> unat (c - b :: u16) = unat (c - a) - unat (b - a)"
proof -
  assume le: "unat (b - a) \<le> unat (c - a)"
  have "c - b = (c - a) - (b - a)"
    by simp
  also have "unat \<dots> = unat (c - a) - unat (b - a)"
    using le unat_diff_u16 [of "c - a" "b - a"] by simp
  finally show ?thesis .
qed

lemma dist_trans: "unat (b - a) + unat (c - b) < 65536 \<Longrightarrow> unat (c - a :: u16) = unat (b - a) + unat (c - b)"
  using dist_add [of b a "unat (c - b)"] by simp

text \<open>Stepping towards a later position, or towards any other position, terminates.\<close>

lemma SeqNum_lt_inc: "SeqNum_lt u e \<Longrightarrow> unat (e - (u + 1)) < unat (e - u)"
  using dist_split [of "u + 1" u e] by (simp add: SeqNum_lt_iff_dist)

lemma dist_inc: "u \<noteq> e \<Longrightarrow> unat (e - (u + 1)) < unat (e - u :: u16)"
  using dist_split [of "u + 1" u e] unat_eq_zero [of "e - u"] by fastforce

lemma add_dist [simp]: "a + of_nat (unat (b - a)) = (b :: u16)"
  by simp

lemma dist_of_nat [simp]: "n < 65536 \<Longrightarrow> unat (a + of_nat n - a :: u16) = n"
  by simp

lemma add_of_nat_inject:
  "m < 65536 \<Longrightarrow> n < 65536 \<Longrightarrow> a + of_nat m = (a + of_nat n :: u16) \<longleftrightarrow> m = n"
  by (metis add_left_cancel unat_of_nat_u16)

section \<open>Agreement with unbounded positions\<close>

lemma unat_of_int_diff:
  assumes "0 \<le> q - p" "q - p < 65536"
  shows "unat (of_int q - of_int p :: u16) = nat (q - p)"
proof -
  have "(of_int q - of_int p :: u16) = of_nat (nat (q - p))"
    using assms by (simp flip: of_int_diff)
  moreover have "nat (q - p) < 65536"
    using assms by simp
  ultimately show ?thesis
    by (metis unat_of_nat_u16)
qed

lemma sint_of_int_diff:
  assumes "- 32768 \<le> p - q" "p - q < 32768"
  shows "sint (of_int p - of_int q :: u16) = p - q"
proof (cases "0 \<le> p - q")
  case True
  then show ?thesis
    using assms unat_of_int_diff [of p q] by (simp add: sint_u16 nat_less_iff)
next
  case False
  have "(of_int p - of_int q :: u16) = of_nat (nat (p - q + 65536))"
    using assms by (simp flip: of_int_diff)
  moreover have "nat (p - q + 65536) < 65536"
    using False by simp
  ultimately have "unat (of_int p - of_int q :: u16) = nat (p - q + 65536)"
    by (metis unat_of_nat_u16)
  then show ?thesis
    using False assms by (simp add: sint_u16 nat_less_iff)
qed

end
