(* ===== verification/Protocol.thy ===== *)
theory Protocol
  imports Seq_Num
begin

text \<open>
  The 16-bit packet header of the link protocol (\<^verbatim>\<open>link/internal/protocol.h\<close>):
  control bit, packet type, 12-bit sequence number. The lemmas are the round trip between
  formatting and the accessors.
\<close>

section \<open>Header layout\<close>

text \<open>
  \<open>GetPacketType\<close> casts the three type bits to the enumeration, so a header can carry a
  value that has no enumerator; \<open>kUnknownPacket\<close> stands for those.
\<close>

datatype PacketType =
    kDataPacket
  | kFinPacket
  | kDataAckPacket
  | kHandshakePacket
  | kFlowControlPacket
  | kUnknownPacket u16

fun PacketType_value :: "PacketType \<Rightarrow> u16" where
  "PacketType_value kDataPacket = 0"
| "PacketType_value kFinPacket = 1"
| "PacketType_value kDataAckPacket = 2"
| "PacketType_value kHandshakePacket = 3"
| "PacketType_value kFlowControlPacket = 4"
| "PacketType_value (kUnknownPacket n) = n"

definition PacketType_of :: "u16 \<Rightarrow> PacketType" where
  "PacketType_of n =
     (if n = 0 then kDataPacket else if n = 1 then kFinPacket else if n = 2 then kDataAckPacket
      else if n = 3 then kHandshakePacket else if n = 4 then kFlowControlPacket
      else kUnknownPacket n)"

definition GetPacketControlBit :: "u16 \<Rightarrow> bool" where
  "GetPacketControlBit header \<longleftrightarrow> header AND 0x8000 \<noteq> 0"

definition GetPacketType :: "u16 \<Rightarrow> PacketType" where
  "GetPacketType header = PacketType_of (drop_bit 12 (header AND 0x7FFF))"

definition FormatPacketHeader :: "SeqNum \<Rightarrow> PacketType \<Rightarrow> bool \<Rightarrow> u16" where
  "FormatPacketHeader seq type control_bit =
     (seq AND 0x0FFF) OR push_bit 12 (PacketType_value type) OR (if control_bit then 0x8000 else 0)"

definition SetPacketHeaderTypeFin :: "u16 \<Rightarrow> u16" where
  "SetPacketHeaderTypeFin header = header OR 0x1000"

text \<open>The packet types the code sends.\<close>

definition wire_type :: "PacketType \<Rightarrow> bool" where
  "wire_type t \<longleftrightarrow> (\<forall>n. t \<noteq> kUnknownPacket n)"

section \<open>Round trip\<close>

lemma u16_bit_cases:
  fixes n :: nat
  assumes "n < 16"
  obtains "n = 0" | "n = 1" | "n = 2" | "n = 3" | "n = 4" | "n = 5" | "n = 6" | "n = 7"
    | "n = 8" | "n = 9" | "n = 10" | "n = 11" | "n = 12" | "n = 13" | "n = 14" | "n = 15"
  using assms by (auto simp: numeral_eq_Suc less_Suc_eq)

lemma header_control_bit:
  "wire_type t \<Longrightarrow> GetPacketControlBit (FormatPacketHeader s t c) = c"
proof -
  assume "wire_type t"
  have low: "(s AND 0x0FFF) AND 0x8000 = (0 :: u16)"
    by (simp add: and.assoc)
  have "push_bit 12 (PacketType_value t) AND 0x8000 = (0 :: u16)"
    using \<open>wire_type t\<close> by (cases t) (simp_all add: wire_type_def)
  with low show ?thesis
    by (simp add: GetPacketControlBit_def FormatPacketHeader_def bit.conj_disj_distrib2)
qed

lemma header_type:
  "wire_type t \<Longrightarrow> GetPacketType (FormatPacketHeader s t c) = t"
proof -
  assume t: "wire_type t"
  have "drop_bit 12 ((s AND 0x0FFF) AND 0x7FFF) = (0 :: u16)"
    by (rule bit_word_eqI) (auto simp: bit_simps elim: u16_bit_cases)
  moreover have "drop_bit 12 (push_bit 12 (PacketType_value t) AND 0x7FFF) = PacketType_value t"
    using t by (cases t) (simp_all add: wire_type_def)
  moreover have "(if c then 0x8000 else 0) AND 0x7FFF = (0 :: u16)"
    by simp
  ultimately have "drop_bit 12 (FormatPacketHeader s t c AND 0x7FFF) = PacketType_value t"
    by (simp add: FormatPacketHeader_def bit.conj_disj_distrib2 drop_bit_or)
  then show ?thesis
    using t by (cases t) (simp_all add: GetPacketType_def PacketType_of_def wire_type_def)
qed

lemma header_seq:
  "wire_type t \<Longrightarrow> FormatPacketHeader s t c AND 0x0FFF = s AND 0x0FFF"
proof -
  assume "wire_type t"
  then have "push_bit 12 (PacketType_value t) AND 0x0FFF = (0 :: u16)"
    by (cases t) (simp_all add: wire_type_def)
  then show ?thesis
    by (simp add: FormatPacketHeader_def bit.conj_disj_distrib2 and.assoc)
qed

lemma SetPacketHeaderTypeFin_format:
  "SetPacketHeaderTypeFin (FormatPacketHeader s kDataPacket c) = FormatPacketHeader s kFinPacket c"
  by (simp add: SetPacketHeaderTypeFin_def FormatPacketHeader_def or.assoc or.commute or.left_commute)

lemma wire_type_simps [simp]:
  "wire_type kDataPacket" "wire_type kFinPacket" "wire_type kDataAckPacket"
  "wire_type kHandshakePacket" "wire_type kFlowControlPacket"
  by (simp_all add: wire_type_def)

end
