(* ===== verification/Retry_Backoff.thy ===== *)
theory Retry_Backoff
  imports Transport_Prelude
begin

text \<open>
  \<open>RetryBackoffMicros\<close> (\<^verbatim>\<open>link/internal/retry_backoff.h\<close>): the randomised exponential
  backoff of data retransmissions and handshakes, in 32-bit arithmetic. It is compared with a
  specification over the natural numbers, which shows that nothing overflows, how the base
  delay grows and saturates, and the range of the jitter.
\<close>

section \<open>The function\<close>

text \<open>The loop body: growth by 1.33, rounded, capped.\<close>

definition backoff_step :: "u32 \<Rightarrow> u32 \<Rightarrow> u32" where
  "backoff_step max_delay_us delay =
     (let delay = (delay * 133 + 50) div 100
      in if delay > max_delay_us then max_delay_us else delay)"

text \<open>The loop, run for the remaining number of retries.\<close>

fun backoff_loop :: "u32 \<Rightarrow> nat \<Rightarrow> u32 \<Rightarrow> u32" where
  "backoff_loop max_delay_us 0 delay = delay"
| "backoff_loop max_delay_us (Suc n) delay =
     (if delay < max_delay_us then backoff_loop max_delay_us n (backoff_step max_delay_us delay)
      else delay)"

definition RetryBackoffMicros :: "u32 \<Rightarrow> u32 \<Rightarrow> u32 \<Rightarrow> u32 \<Rightarrow> u32 \<Rightarrow> u32" where
  "RetryBackoffMicros kRandomMax initial_delay_us max_delay_us retry_count random_draw =
     (let delay = backoff_loop max_delay_us (unat retry_count) initial_delay_us;
          bin = ucast ((ucast random_draw * 8192 :: u64) div (ucast kRandomMax + 1)) :: u32;
          radius = delay div 5
      in delay - radius + drop_bit 13 (bin * (2 * radius)))"

section \<open>Specification over the natural numbers\<close>

definition grow :: "nat \<Rightarrow> nat" where
  "grow d = (d * 133 + 50) div 100"

text \<open>The base delay after \<open>n\<close> retries.\<close>

definition base_delay :: "nat \<Rightarrow> nat \<Rightarrow> nat \<Rightarrow> nat" where
  "base_delay m n d = min m ((grow ^^ n) d)"

definition backoff_spec :: "nat \<Rightarrow> nat \<Rightarrow> nat \<Rightarrow> nat \<Rightarrow> nat \<Rightarrow> nat" where
  "backoff_spec rmax d m n draw =
     (let b = base_delay m n d; radius = b div 5; bin = draw * 8192 div (rmax + 1)
      in b - radius + bin * (2 * radius) div 8192)"

lemma grow_ge: "2 \<le> d \<Longrightarrow> d \<le> grow d"
  by (simp add: grow_def)

lemma grow_mono: "a \<le> b \<Longrightarrow> grow a \<le> grow b"
  by (simp add: grow_def div_le_mono)

lemma grow_pow_mono: "a \<le> b \<Longrightarrow> (grow ^^ n) a \<le> (grow ^^ n) b"
  by (induction n) (auto simp: grow_mono)

lemma grow_pow_ge: "2 \<le> d \<Longrightarrow> d \<le> (grow ^^ n) d"
proof (induction n)
  case (Suc n)
  then show ?case
    using grow_ge [of "(grow ^^ n) d"] by simp
qed simp

lemma grow_pow_le: "2 \<le> d \<Longrightarrow> n \<le> k \<Longrightarrow> (grow ^^ n) d \<le> (grow ^^ k) d"
proof (induction k)
  case (Suc k)
  then show ?case
    using grow_ge [of "(grow ^^ k) d"] grow_pow_ge [of d k] by (cases "n = Suc k") auto
qed simp

lemma base_delay_bounds: "2 \<le> d \<Longrightarrow> d \<le> m \<Longrightarrow> d \<le> base_delay m n d \<and> base_delay m n d \<le> m"
  by (simp add: base_delay_def grow_pow_ge)

lemma base_delay_step:
  assumes "2 \<le> d" "d < m"
  shows "base_delay m (Suc n) d = base_delay m n (min m (grow d))"
proof (cases "grow d \<le> m")
  case True
  then show ?thesis
    by (simp add: base_delay_def funpow_swap1)
next
  case False
  then have "m \<le> (grow ^^ n) (grow d)"
    using grow_pow_ge [of "grow d" n] assms by linarith
  moreover have "m \<le> (grow ^^ n) m"
    using grow_pow_ge [of m n] assms by linarith
  ultimately show ?thesis
    using False by (simp add: base_delay_def funpow_swap1)
qed

text \<open>From 1000 us, 25 growth steps pass 1000000 us.\<close>

lemma funpow_25: "(f ^^ 25) x = (f (f (f (f (f (f (f (f (f (f (f (f (f (f (f (f (f (f (f (f
    (f (f (f (f (f x)))))))))))))))))))))))))"
  by (simp add: numeral_eq_Suc)

lemma grow_25: "1000000 \<le> (grow ^^ 25) 1000"
  by (simp add: funpow_25 grow_def)

lemma base_delay_saturated:
  assumes "1000 \<le> d" "d \<le> m" "m \<le> 1000000" "25 \<le> n"
  shows "base_delay m n d = m"
proof -
  have "(grow ^^ 25) 1000 \<le> (grow ^^ 25) d"
    using assms by (simp add: grow_pow_mono)
  also have "\<dots> \<le> (grow ^^ n) d"
    using assms by (simp add: grow_pow_le)
  finally show ?thesis
    using assms grow_25 by (simp add: base_delay_def)
qed

section \<open>Refinement\<close>

lemma unat_backoff_step:
  assumes "unat d \<le> 1000000"
  shows "unat (backoff_step m d) = min (unat m) (grow (unat d))"
proof -
  have "unat (d * 133) = unat d * 133"
    using assms by (simp add: unat_word_ariths)
  then have "unat (d * 133 + 50) = unat d * 133 + 50"
    using assms by (simp add: unat_word_ariths(1) [of "d * 133"])
  then have "unat ((d * 133 + 50) div 100) = grow (unat d)"
    by (simp add: unat_div grow_def)
  then show ?thesis
    by (simp add: backoff_step_def Let_def word_less_nat_alt min_def)
qed

lemma unat_backoff_loop:
  assumes "2 \<le> unat d" "unat d \<le> unat m" "unat m \<le> 1000000"
  shows "unat (backoff_loop m n d) = base_delay (unat m) n (unat d)"
  using assms
proof (induction n arbitrary: d)
  case 0
  then show ?case
    by (simp add: base_delay_def)
next
  case (Suc n)
  show ?case
  proof (cases "unat d < unat m")
    case True
    let ?d = "backoff_step m d"
    have d: "unat ?d = min (unat m) (grow (unat d))"
      using Suc.prems by (intro unat_backoff_step) simp
    have "unat d \<le> grow (unat d)"
      using Suc.prems by (intro grow_ge) simp
    with d True Suc.prems have "2 \<le> unat ?d" "unat ?d \<le> unat m"
      by auto
    then show ?thesis
      using True Suc d by (simp add: word_less_nat_alt base_delay_step)
  next
    case False
    then have "unat d = unat m"
      using Suc.prems by simp
    then show ?thesis
      using False grow_pow_ge [of "unat d" "Suc n"] Suc.prems
      by (simp add: word_less_nat_alt base_delay_def min_def)
  qed
qed

lemma unat_ucast_u64: "unat (ucast (x :: u32) :: u64) = unat x"
proof -
  have "unat x < 2 ^ LENGTH(32)"
    by (rule unsigned_less)
  then show ?thesis
    by (simp add: unsigned_ucast_eq take_bit_nat_eq_self)
qed

lemma bin_less: "draw \<le> rmax \<Longrightarrow> draw * 8192 div (rmax + 1) < (8192 :: nat)"
  by (simp add: div_less_iff_less_mult)

lemma unat_bin:
  fixes draw rmax :: u32
  assumes "draw \<le> rmax"
  shows "unat (ucast ((ucast draw * 8192 :: u64) div (ucast rmax + 1)) :: u32) =
      unat draw * 8192 div (unat rmax + 1)"
    and "unat draw * 8192 div (unat rmax + 1) < 8192"
proof -
  have r: "unat draw \<le> unat rmax" "unat rmax < 4294967296"
    using assms unsigned_less [of rmax] by (simp_all add: word_le_nat_alt)
  then show lt: "unat draw * 8192 div (unat rmax + 1) < 8192"
    by (intro bin_less)
  have "unat (ucast draw * 8192 :: u64) = unat draw * 8192"
    using r by (simp add: unat_word_ariths unat_ucast_u64)
  moreover have "unat (ucast rmax + 1 :: u64) = unat rmax + 1"
    using r by (simp add: unat_word_ariths unat_ucast_u64)
  ultimately have "unat ((ucast draw * 8192 :: u64) div (ucast rmax + 1)) = unat draw * 8192 div (unat rmax + 1)"
    by (simp add: unat_div)
  then show "unat (ucast ((ucast draw * 8192 :: u64) div (ucast rmax + 1)) :: u32) =
      unat draw * 8192 div (unat rmax + 1)"
    using lt by (simp add: unsigned_ucast_eq take_bit_nat_eq_self)
qed

lemma RetryBackoffMicros_spec:
  assumes "2 \<le> unat d" "unat d \<le> unat m" "unat m \<le> 1000000" "draw \<le> rmax"
  shows "unat (RetryBackoffMicros rmax d m n draw) =
    backoff_spec (unat rmax) (unat d) (unat m) (unat n) (unat draw)"
proof -
  define b where "b = backoff_loop m (unat n) d"
  define bin where "bin = (ucast ((ucast draw * 8192 :: u64) div (ucast rmax + 1)) :: u32)"
  have b: "unat b = base_delay (unat m) (unat n) (unat d)"
    unfolding b_def using assms by (intro unat_backoff_loop)
  then have le: "unat b \<le> 1000000"
    using base_delay_bounds [of "unat d" "unat m" "unat n"] assms by simp
  have bin: "unat bin = unat draw * 8192 div (unat rmax + 1)" "unat bin < 8192"
    unfolding bin_def using unat_bin [OF assms(4)] by simp_all
  have radius: "unat (b div 5) = unat b div 5"
    by (simp add: unat_div)
  then have two: "unat (2 * (b div 5)) = 2 * (unat b div 5)"
    using le by (simp add: unat_word_ariths)
  have bound: "unat bin * (2 * (unat b div 5)) \<le> 8192 * (2 * (1000000 div 5))"
    using bin(2) le by (intro mult_le_mono) (auto simp: div_le_mono)
  then have prod: "unat (bin * (2 * (b div 5))) = unat bin * (2 * (unat b div 5))"
    by (simp add: unat_word_ariths(2) [of bin] two)
  have jitter: "unat (drop_bit 13 (bin * (2 * (b div 5)))) = unat bin * (2 * (unat b div 5)) div 8192"
    by (simp add: drop_bit_eq_div unat_div prod)
  have base: "unat (b - b div 5) = unat b - unat b div 5"
    using radius by (simp add: unat_sub word_le_nat_alt)
  have "unat bin * (2 * (unat b div 5)) div 8192 \<le> 2 * (1000000 div 5)"
    using div_le_mono [OF bound, of 8192] by simp
  then have "unat (b - b div 5 + drop_bit 13 (bin * (2 * (b div 5)))) =
      unat b - unat b div 5 + unat bin * (2 * (unat b div 5)) div 8192"
    using le by (simp add: unat_word_ariths(1) base jitter)
  then show ?thesis
    by (simp add: RetryBackoffMicros_def backoff_spec_def Let_def b b_def [symmetric] bin_def [symmetric] bin(1))
qed

lemma backoff_spec_range:
  fixes d m n rmax draw :: nat
  assumes "2 \<le> d" "d \<le> m" "draw \<le> rmax" "5 \<le> d"
  defines "b \<equiv> base_delay m n d"
  shows "b - b div 5 \<le> backoff_spec rmax d m n draw" "backoff_spec rmax d m n draw < b + b div 5"
proof -
  let ?bin = "draw * 8192 div (rmax + 1)"
  have bin: "?bin < 8192"
    using assms(3) by (rule bin_less)
  have pos: "0 < b div 5"
    using base_delay_bounds [of d m n] assms by (simp add: div_greater_zero_iff)
  then have "?bin * (2 * (b div 5)) < 8192 * (2 * (b div 5))"
    using bin by simp
  then have "?bin * (2 * (b div 5)) div 8192 < 2 * (b div 5)"
    by (simp add: div_less_iff_less_mult mult.commute)
  then show "b - b div 5 \<le> backoff_spec rmax d m n draw" "backoff_spec rmax d m n draw < b + b div 5"
    by (auto simp: backoff_spec_def Let_def b_def [symmetric])
qed

end
