(* ===== verification/Packet_Buffers.thy ===== *)
theory Packet_Buffers
  imports Protocol Retry_Backoff
begin

text \<open>
  The two kinds of packet buffers: \<open>InBuffer\<close> (\<^verbatim>\<open>link/internal/in_buffer.h\<close>) holds a
  received fragment, \<open>OutBuffer\<close> (\<^verbatim>\<open>link/internal/out_buffer.h\<close>,
  \<^verbatim>\<open>link/internal/out_buffer.cpp\<close>) a fragment that waits for transmission or
  acknowledgement, with its packet header in the two leading bytes. The byte arrays are lists
  of their full length; the arrays are not initialised by the code and start as zeros here.
\<close>

section \<open>Receive buffers\<close>

datatype InBuffer_Type = kUnset | kData | kFin

record InBuffer =
  ib_type :: InBuffer_Type
  ib_size :: u8
  ib_payload :: "byte list"

definition InBuffer_new :: InBuffer where
  "InBuffer_new = \<lparr>ib_type = kUnset, ib_size = 0, ib_payload = replicate 248 0\<rparr>"

definition InBuffer_clear :: "InBuffer \<Rightarrow> InBuffer" where
  "InBuffer_clear b = b\<lparr>ib_type := kUnset, ib_size := 0\<rparr>"

definition InBuffer_set :: "InBuffer \<Rightarrow> InBuffer_Type \<Rightarrow> byte list \<Rightarrow> u8 \<Rightarrow> InBuffer option" where
  "InBuffer_set b ty payload sz = do {
     CHECK (sz \<le> 248);
     Some (b\<lparr>ib_payload := memcpy_at (ib_payload b) 0 (take (unat sz) payload),
             ib_type := ty, ib_size := sz\<rparr>)
   }"

text \<open>The stored bytes, and what every buffer satisfies.\<close>

definition ib_bytes :: "InBuffer \<Rightarrow> byte list" where
  "ib_bytes b = take (unat (ib_size b)) (ib_payload b)"

definition ib_ok :: "InBuffer \<Rightarrow> bool" where
  "ib_ok b \<longleftrightarrow> length (ib_payload b) = 248 \<and> unat (ib_size b) \<le> 248
     \<and> (ib_type b = kUnset \<longrightarrow> ib_size b = 0)"

lemma InBuffer_new_ok [simp]: "ib_ok InBuffer_new" "ib_type InBuffer_new = kUnset"
  by (simp_all add: InBuffer_new_def ib_ok_def)

lemma InBuffer_clear_simps [buf_simps]:
  "ib_type (InBuffer_clear b) = kUnset" "ib_bytes (InBuffer_clear b) = []"
  by (simp_all add: InBuffer_clear_def ib_bytes_def)

lemma InBuffer_clear_ok: "ib_ok b \<Longrightarrow> ib_ok (InBuffer_clear b)"
  by (simp add: InBuffer_clear_def ib_ok_def)

lemma length_ib_bytes: "ib_ok b \<Longrightarrow> length (ib_bytes b) = unat (ib_size b)"
  by (simp add: ib_bytes_def ib_ok_def)

lemma InBuffer_set_spec:
  assumes "ib_ok b" "length payload \<le> 248" "type \<noteq> kUnset"
  obtains b' where "InBuffer_set b type payload (of_nat (length payload)) = Some b'"
    "ib_ok b'" "ib_type b' = type" "ib_bytes b' = payload"
proof -
  have n: "unat (of_nat (length payload) :: u8) = length payload"
    using assms by simp
  let ?b = "b\<lparr>ib_payload := memcpy_at (ib_payload b) 0 payload, ib_type := type,
    ib_size := of_nat (length payload)\<rparr>"
  have "InBuffer_set b type payload (of_nat (length payload)) = Some ?b"
    using assms n by (simp add: InBuffer_set_def CHECK_bind word_le_nat_alt)
  moreover have "ib_ok ?b"
    using assms n by (auto simp: ib_ok_def)
  moreover have "ib_bytes ?b = payload"
    using n by (simp add: ib_bytes_def)
  ultimately show ?thesis
    using that by simp
qed

section \<open>Transmit buffers\<close>

record OutBuffer =
  ob_size :: u8
  ob_acked :: bool
  ob_flushed :: bool
  ob_finished :: bool
  ob_final :: bool
  ob_payload :: "byte list"
  ob_expiration :: uptime
  ob_send_counter :: u8

definition OutBuffer_new :: "lib \<Rightarrow> OutBuffer" where
  "OutBuffer_new L = \<lparr>ob_size = 0, ob_acked = False, ob_flushed = False, ob_finished = False,
     ob_final = False, ob_payload = replicate 250 0, ob_expiration = Uptime_Start L,
     ob_send_counter = 0\<rparr>"

definition OutBuffer_init :: "lib \<Rightarrow> OutBuffer \<Rightarrow> SeqNum \<Rightarrow> bool \<Rightarrow> OutBuffer" where
  "OutBuffer_init L b seq_id control_bit =
     (let header = FormatPacketHeader seq_id kDataPacket control_bit
      in b\<lparr>ob_payload := memcpy_at (ob_payload b) 0 (StoreBeU16 L header),
           ob_size := 0, ob_acked := False, ob_flushed := False, ob_finished := False,
           ob_expiration := Uptime_Start L, ob_send_counter := 0\<rparr>)"

text \<open>Appends up to the whole of \<open>buf\<close>; returns the number of bytes taken.\<close>

definition OutBuffer_write :: "lib \<Rightarrow> OutBuffer \<Rightarrow> byte list \<Rightarrow> (OutBuffer \<times> nat) option" where
  "OutBuffer_write L b buf =
     (if ob_finished b then Some (b, 0)
      else let capacity = 248 - unat (ob_size b) in do {
        CHECK (capacity > 0);
        let full = length buf \<ge> capacity;
            count = (if full then capacity else length buf);
            b = (if full then b\<lparr>ob_flushed := True, ob_finished := True,
                                ob_expiration := Uptime_Start L\<rparr> else b);
            b = b\<lparr>ob_payload := memcpy_at (ob_payload b) (unat (ob_size b) + 2) (take count buf)\<rparr>;
            b = b\<lparr>ob_size := ob_size b + of_nat count\<rparr>
        in Some (b, count)
      })"

definition OutBuffer_flush :: "OutBuffer \<Rightarrow> OutBuffer" where
  "OutBuffer_flush b = b\<lparr>ob_flushed := True\<rparr>"

definition OutBuffer_finish :: "lib \<Rightarrow> OutBuffer \<Rightarrow> OutBuffer" where
  "OutBuffer_finish L b =
     b\<lparr>ob_flushed := True, ob_finished := True, ob_expiration := Uptime_Start L\<rparr>"

definition OutBuffer_ack :: "OutBuffer \<Rightarrow> OutBuffer" where
  "OutBuffer_ack b = b\<lparr>ob_acked := True\<rparr>"

definition OutBuffer_size :: "OutBuffer \<Rightarrow> u8" where
  "OutBuffer_size b = ob_size b + 2"

text \<open>\<open>Backoff\<close> of \<^verbatim>\<open>out_buffer.cpp\<close>; the random draw is an argument.\<close>

definition OutBuffer_Backoff :: "lib \<Rightarrow> u32 \<Rightarrow> u8 \<Rightarrow> int" where
  "OutBuffer_Backoff L draw retry_count =
     uint (RetryBackoffMicros (RANDOM_INTEGER_MAX L) 5000 200000 (ucast retry_count) draw)"

definition OutBuffer_markSent :: "lib \<Rightarrow> OutBuffer \<Rightarrow> uptime \<Rightarrow> u32 \<Rightarrow> OutBuffer" where
  "OutBuffer_markSent L b now draw =
     (let counter = (if ob_send_counter b < 255 then ob_send_counter b + 1 else ob_send_counter b)
      in b\<lparr>ob_send_counter := counter, ob_expiration := now + OutBuffer_Backoff L draw counter\<rparr>)"

definition OutBuffer_markFinal :: "lib \<Rightarrow> OutBuffer \<Rightarrow> OutBuffer" where
  "OutBuffer_markFinal L b =
     (let raw = LoadBeU16 L (ob_payload b)
      in b\<lparr>ob_payload := memcpy_at (ob_payload b) 0 (StoreBeU16 L (SetPacketHeaderTypeFin raw))\<rparr>)"

definition OutBuffer_rush :: "lib \<Rightarrow> OutBuffer \<Rightarrow> OutBuffer option" where
  "OutBuffer_rush L b = do {
     CHECK (ob_send_counter b > 0);
     Some (b\<lparr>ob_expiration := Uptime_Start L\<rparr>)
   }"

text \<open>The packet as sent (\<open>data()\<close> up to \<open>size()\<close>), and its payload.\<close>

definition ob_packet :: "OutBuffer \<Rightarrow> byte list" where
  "ob_packet b = take (unat (OutBuffer_size b)) (ob_payload b)"

definition ob_bytes :: "OutBuffer \<Rightarrow> byte list" where
  "ob_bytes b = drop 2 (ob_packet b)"

definition ob_header :: "OutBuffer \<Rightarrow> byte list" where
  "ob_header b = take 2 (ob_payload b)"

definition ob_ok :: "OutBuffer \<Rightarrow> bool" where
  "ob_ok b \<longleftrightarrow> length (ob_payload b) = 250 \<and> unat (ob_size b) \<le> 248
     \<and> (ob_finished b \<longrightarrow> ob_flushed b) \<and> (\<not> ob_finished b \<longrightarrow> unat (ob_size b) < 248)"

lemma unat_OutBuffer_size: "ob_ok b \<Longrightarrow> unat (OutBuffer_size b) = unat (ob_size b) + 2"
  by (simp add: ob_ok_def OutBuffer_size_def unat_word_ariths)

lemma ob_packet_split: "ob_ok b \<Longrightarrow> ob_packet b = ob_header b @ ob_bytes b"
  using append_take_drop_id [of 2 "ob_packet b"]
  by (simp add: ob_packet_def ob_header_def ob_bytes_def unat_OutBuffer_size min_def)

lemma length_ob_bytes: "ob_ok b \<Longrightarrow> length (ob_bytes b) = unat (ob_size b)"
  by (auto simp: ob_bytes_def ob_packet_def unat_OutBuffer_size ob_ok_def)

lemma OutBuffer_new_simps [buf_simps]: "length (ob_payload (OutBuffer_new L)) = 250"
  by (simp add: OutBuffer_new_def)

text \<open>Operations that touch neither size nor payload.\<close>

lemma OutBuffer_frame [buf_simps]:
  "ob_size (OutBuffer_flush b) = ob_size b" "ob_payload (OutBuffer_flush b) = ob_payload b"
  "ob_size (OutBuffer_finish L b) = ob_size b" "ob_payload (OutBuffer_finish L b) = ob_payload b"
  "ob_size (OutBuffer_ack b) = ob_size b" "ob_payload (OutBuffer_ack b) = ob_payload b"
  "ob_size (OutBuffer_markSent L b now d) = ob_size b"
  "ob_payload (OutBuffer_markSent L b now d) = ob_payload b"
  by (simp_all add: OutBuffer_flush_def OutBuffer_finish_def OutBuffer_ack_def OutBuffer_markSent_def Let_def)

lemma OutBuffer_flags [buf_simps]:
  "ob_flushed (OutBuffer_flush b)" "ob_finished (OutBuffer_flush b) = ob_finished b"
  "ob_acked (OutBuffer_flush b) = ob_acked b" "ob_send_counter (OutBuffer_flush b) = ob_send_counter b"
  "ob_flushed (OutBuffer_finish L b)" "ob_finished (OutBuffer_finish L b)"
  "ob_acked (OutBuffer_finish L b) = ob_acked b"
  "ob_send_counter (OutBuffer_finish L b) = ob_send_counter b"
  "ob_expiration (OutBuffer_finish L b) = Uptime_Start L"
  "ob_flushed (OutBuffer_ack b) = ob_flushed b" "ob_finished (OutBuffer_ack b) = ob_finished b"
  "ob_acked (OutBuffer_ack b)" "ob_send_counter (OutBuffer_ack b) = ob_send_counter b"
  "ob_flushed (OutBuffer_markSent L b now d) = ob_flushed b"
  "ob_finished (OutBuffer_markSent L b now d) = ob_finished b"
  "ob_acked (OutBuffer_markSent L b now d) = ob_acked b"
  by (simp_all add: OutBuffer_flush_def OutBuffer_finish_def OutBuffer_ack_def OutBuffer_markSent_def Let_def)

lemma ob_packet_frame [buf_simps]:
  "ob_packet (OutBuffer_flush b) = ob_packet b" "ob_packet (OutBuffer_finish L b) = ob_packet b"
  "ob_packet (OutBuffer_ack b) = ob_packet b" "ob_packet (OutBuffer_markSent L b now d) = ob_packet b"
  by (simp_all add: ob_packet_def OutBuffer_size_def buf_simps)

lemma ob_bytes_frame [buf_simps]:
  "ob_bytes (OutBuffer_flush b) = ob_bytes b" "ob_bytes (OutBuffer_finish L b) = ob_bytes b"
  "ob_bytes (OutBuffer_ack b) = ob_bytes b" "ob_bytes (OutBuffer_markSent L b now d) = ob_bytes b"
  by (simp_all add: ob_bytes_def buf_simps)

lemma ob_ok_frame [buf_simps]:
  "ob_ok b \<Longrightarrow> ob_ok (OutBuffer_flush b)" "ob_ok b \<Longrightarrow> ob_ok (OutBuffer_finish L b)"
  "ob_ok b \<Longrightarrow> ob_ok (OutBuffer_ack b)" "ob_ok b \<Longrightarrow> ob_ok (OutBuffer_markSent L b now d)"
  by (simp_all add: ob_ok_def buf_simps)

lemma send_counter_markSent: "0 < unat (ob_send_counter (OutBuffer_markSent L b now d))"
proof (cases "ob_send_counter b < 255")
  case True
  then have "unat (ob_send_counter b + 1) = unat (ob_send_counter b) + 1"
    by (simp add: word_less_nat_alt unat_word_ariths)
  with True show ?thesis
    by (simp add: OutBuffer_markSent_def Let_def)
next
  case False
  then show ?thesis
    by (simp add: OutBuffer_markSent_def Let_def word_less_nat_alt)
qed

lemma OutBuffer_write_finished [simp]: "ob_finished b \<Longrightarrow> OutBuffer_write L b buf = Some (b, 0)"
  by (simp add: OutBuffer_write_def)

lemma OutBuffer_write_spec:
  assumes "ob_ok b" "\<not> ob_finished b"
  obtains b' where "OutBuffer_write L b buf = Some (b', min (length buf) (248 - unat (ob_size b)))"
    "ob_ok b'" "ob_bytes b' = ob_bytes b @ take (min (length buf) (248 - unat (ob_size b))) buf"
    "ob_header b' = ob_header b" "ob_finished b' \<longleftrightarrow> 248 - unat (ob_size b) \<le> length buf"
    "ob_flushed b' \<longleftrightarrow> ob_flushed b \<or> 248 - unat (ob_size b) \<le> length buf"
    "ob_acked b' = ob_acked b" "ob_send_counter b' = ob_send_counter b"
proof -
  define n where "n = min (length buf) (248 - unat (ob_size b))"
  define b1 where "b1 = (if length buf \<ge> 248 - unat (ob_size b)
    then b\<lparr>ob_flushed := True, ob_finished := True, ob_expiration := Uptime_Start L\<rparr> else b)"
  define b' where "b' = b1\<lparr>ob_payload := memcpy_at (ob_payload b) (unat (ob_size b) + 2) (take n buf),
    ob_size := ob_size b + of_nat n\<rparr>"
  have size: "unat (ob_size b) < 248" "length (ob_payload b) = 250"
    using assms by (auto simp: ob_ok_def)
  have n: "n = (if length buf \<ge> 248 - unat (ob_size b) then 248 - unat (ob_size b) else length buf)"
    "length (take n buf) = n" "unat (ob_size b) + n \<le> 248"
    using size by (auto simp: n_def)
  have w: "OutBuffer_write L b buf = Some (b', n)"
    using assms size n(1) by (auto simp: OutBuffer_write_def CHECK_bind Let_def b'_def b1_def)
  have s: "unat (ob_size b') = unat (ob_size b) + n"
  proof -
    have "unat (ob_size b + of_nat n) = (unat (ob_size b) + n) mod 256"
      using n(3) by (simp add: unat_word_ariths)
    then show ?thesis
      using n(3) by (simp add: b'_def)
  qed
  have ok: "ob_ok b'"
    using assms size n s by (auto simp: ob_ok_def b'_def b1_def)
  have "ob_bytes b' = drop 2 (take (unat (ob_size b) + 2 + length (take n buf)) (ob_payload b'))"
    using ok s n(2) by (simp add: ob_bytes_def ob_packet_def unat_OutBuffer_size add.commute add.left_commute)
  also have "\<dots> = drop 2 (take (unat (ob_size b) + 2) (ob_payload b)) @ take n buf"
    using drop_take_memcpy_at [of 2 "unat (ob_size b) + 2" "ob_payload b" "take n buf"] size
    by (simp add: b'_def del: take_memcpy_at length_take)
  finally have bytes: "ob_bytes b' = ob_bytes b @ take n buf"
    using assms by (simp add: ob_bytes_def ob_packet_def unat_OutBuffer_size)
  have head: "ob_header b' = ob_header b"
    using size by (simp add: ob_header_def b'_def take_memcpy_at_le)
  have flags: "ob_finished b' \<longleftrightarrow> 248 - unat (ob_size b) \<le> length buf"
    "ob_flushed b' \<longleftrightarrow> ob_flushed b \<or> 248 - unat (ob_size b) \<le> length buf"
    "ob_acked b' = ob_acked b" "ob_send_counter b' = ob_send_counter b"
    using assms(2) by (auto simp: b'_def b1_def)
  show ?thesis
    using that w ok bytes head flags unfolding n_def .
qed

section \<open>Headers of transmit buffers\<close>

context roo_lib
begin

lemma OutBuffer_init_ok: "length (ob_payload b) = 250 \<Longrightarrow> ob_ok (OutBuffer_init L b s c)"
  by (simp add: OutBuffer_init_def ob_ok_def Let_def length_StoreBeU16)

lemma OutBuffer_init_header:
  "ob_header (OutBuffer_init L b s c) = StoreBeU16 L (FormatPacketHeader s kDataPacket c)"
  using take_memcpy_at_0 [of "StoreBeU16 L (FormatPacketHeader s kDataPacket c)" "ob_payload b"]
  by (simp add: OutBuffer_init_def ob_header_def Let_def length_StoreBeU16)

lemma OutBuffer_init_bytes: "ob_bytes (OutBuffer_init L b s c) = []"
  by (simp add: ob_bytes_def ob_packet_def OutBuffer_size_def OutBuffer_init_def Let_def)

lemma OutBuffer_markFinal_ok: "ob_ok b \<Longrightarrow> ob_ok (OutBuffer_markFinal L b)"
  by (simp add: OutBuffer_markFinal_def ob_ok_def Let_def length_StoreBeU16)

lemma OutBuffer_markFinal_header:
  assumes "ob_header b = StoreBeU16 L (FormatPacketHeader s kDataPacket c)"
  shows "ob_header (OutBuffer_markFinal L b) = StoreBeU16 L (FormatPacketHeader s kFinPacket c)"
proof -
  have "ob_payload b = StoreBeU16 L (FormatPacketHeader s kDataPacket c) @ drop 2 (ob_payload b)"
    using assms append_take_drop_id [of 2 "ob_payload b"] by (simp add: ob_header_def)
  then have "LoadBeU16 L (ob_payload b) = FormatPacketHeader s kDataPacket c"
    by (metis load_store_16)
  then show ?thesis
    using take_memcpy_at_0 [of "StoreBeU16 L (FormatPacketHeader s kFinPacket c)" "ob_payload b"]
    by (simp add: OutBuffer_markFinal_def ob_header_def Let_def SetPacketHeaderTypeFin_format length_StoreBeU16)
qed

lemma OutBuffer_markFinal_bytes:
  assumes "ob_ok b"
  shows "ob_bytes (OutBuffer_markFinal L b) = ob_bytes b"
proof -
  have "unat (ob_size b + 2) = unat (ob_size b) + 2"
    using unat_OutBuffer_size [OF assms] by (simp add: OutBuffer_size_def)
  then show ?thesis
    by (simp add: ob_bytes_def ob_packet_def OutBuffer_size_def OutBuffer_markFinal_def Let_def
        memcpy_at_def length_StoreBeU16 drop_take numeral_2_eq_2)
qed

end

end
