(* ===== verification/Ring_Buffer.thy ===== *)
theory Ring_Buffer
  imports Seq_Num
begin

text \<open>
  \<open>RingBuffer\<close> (\<^verbatim>\<open>link/internal/ring_buffer.h\<close>): the window of sequence numbers that
  both directions of a link keep. The window \<open>begin_..end_\<close> is related to the list of the
  sequence numbers it holds (\<open>win\<close>), the operations are shown to be queue operations on
  that list (locale \<open>seq_window\<close>), and the storage offsets of a window are shown distinct.
\<close>

section \<open>The class\<close>

definition kMaxLinkBufferSizeLog2 :: nat where
  "kMaxLinkBufferSizeLog2 = 10"

record RingBuffer =
  rb_capacity_log2 :: nat
  rb_begin :: SeqNum
  rb_end :: SeqNum

text \<open>The constructor; a negative argument fails the first \<open>CHECK\<close>.\<close>

definition RingBuffer_new :: "int \<Rightarrow> u16 \<Rightarrow> RingBuffer option" where
  "RingBuffer_new capacity_log2 initial_seq = do {
     CHECK (capacity_log2 \<ge> 0);
     CHECK (nat capacity_log2 \<le> kMaxLinkBufferSizeLog2);
     Some \<lparr>rb_capacity_log2 = nat capacity_log2, rb_begin = initial_seq, rb_end = initial_seq\<rparr>
   }"

definition RingBuffer_capacity :: "RingBuffer \<Rightarrow> u16" where
  "RingBuffer_capacity r = push_bit (rb_capacity_log2 r) 1"

definition RingBuffer_slotsUsed :: "RingBuffer \<Rightarrow> u16" where
  "RingBuffer_slotsUsed r = rb_end r - rb_begin r"

definition RingBuffer_slotsFree :: "RingBuffer \<Rightarrow> u16" where
  "RingBuffer_slotsFree r = RingBuffer_capacity r - RingBuffer_slotsUsed r"

definition RingBuffer_push :: "RingBuffer \<Rightarrow> (RingBuffer \<times> SeqNum) option" where
  "RingBuffer_push r = do {
     CHECK (RingBuffer_slotsFree r > 0);
     Some (r\<lparr>rb_end := SeqNum_inc (rb_end r)\<rparr>, rb_end r)
   }"

definition RingBuffer_pop :: "RingBuffer \<Rightarrow> (RingBuffer \<times> SeqNum) option" where
  "RingBuffer_pop r = do {
     CHECK (RingBuffer_slotsUsed r > 0);
     Some (r\<lparr>rb_begin := SeqNum_inc (rb_begin r)\<rparr>, rb_begin r)
   }"

definition RingBuffer_empty :: "RingBuffer \<Rightarrow> bool" where
  "RingBuffer_empty r \<longleftrightarrow> RingBuffer_slotsUsed r = 0"

definition RingBuffer_reset :: "RingBuffer \<Rightarrow> SeqNum \<Rightarrow> RingBuffer option" where
  "RingBuffer_reset r s = do {
     CHECK (rb_begin r = rb_end r);
     Some (r\<lparr>rb_begin := s, rb_end := s\<rparr>)
   }"

definition RingBuffer_contains :: "RingBuffer \<Rightarrow> SeqNum \<Rightarrow> bool" where
  "RingBuffer_contains r s \<longleftrightarrow> SeqNum_le (rb_begin r) s \<and> SeqNum_lt s (rb_end r)"

definition RingBuffer_offset_for :: "RingBuffer \<Rightarrow> SeqNum \<Rightarrow> u16" where
  "RingBuffer_offset_for r s = s AND (RingBuffer_capacity r - 1)"

text \<open>
  \<open>left\<close> is reduced to 16 bits when it is stored; the sum is computed in \<open>int\<close> and
  reduced to 16 bits by the \<open>SeqNum\<close> constructor.
\<close>

definition RingBuffer_restorePosHighBits :: "RingBuffer \<Rightarrow> u16 \<Rightarrow> nat \<Rightarrow> SeqNum" where
  "RingBuffer_restorePosHighBits r truncated_pos pos_bits =
     (let left = rb_begin r - push_bit (pos_bits - 1) 1 :: u16
      in left + of_nat (unat (truncated_pos - left) mod 2 ^ pos_bits))"

section \<open>The window as a list\<close>

text \<open>
  A ring is well formed when its size is a supported one and the window is no longer than
  the storage.
\<close>

definition ring_ok :: "RingBuffer \<Rightarrow> bool" where
  "ring_ok r \<longleftrightarrow> rb_capacity_log2 r \<le> kMaxLinkBufferSizeLog2
     \<and> unat (rb_end r - rb_begin r) \<le> 2 ^ rb_capacity_log2 r"

definition used :: "RingBuffer \<Rightarrow> nat" where
  "used r = unat (rb_end r - rb_begin r)"

definition cap :: "RingBuffer \<Rightarrow> nat" where
  "cap r = 2 ^ rb_capacity_log2 r"

definition win :: "RingBuffer \<Rightarrow> SeqNum list" where
  "win r = map (\<lambda>i. rb_begin r + of_nat i) [0..<used r]"

lemma length_win [simp]: "length (win r) = used r"
  by (simp add: win_def)

lemma nth_win: "i < used r \<Longrightarrow> win r ! i = rb_begin r + of_nat i"
  by (simp add: win_def)

lemma cap_pos [simp]: "0 < cap r"
  by (simp add: cap_def)

lemma cap_le: "ring_ok r \<Longrightarrow> cap r \<le> 1024"
  using power_increasing [of "rb_capacity_log2 r" 10 "2::nat"]
  by (simp add: ring_ok_def kMaxLinkBufferSizeLog2_def cap_def)

lemma used_le_cap: "ring_ok r \<Longrightarrow> used r \<le> cap r"
  by (simp add: ring_ok_def used_def cap_def)

lemma used_le: "ring_ok r \<Longrightarrow> used r \<le> 1024"
  using cap_le used_le_cap le_trans by blast

lemma unat_capacity: "ring_ok r \<Longrightarrow> unat (RingBuffer_capacity r) = cap r"
proof -
  assume ok: "ring_ok r"
  then have "(2::nat) ^ rb_capacity_log2 r < 65536"
    using cap_le [OF ok] by (simp add: cap_def)
  moreover have "RingBuffer_capacity r = of_nat (2 ^ rb_capacity_log2 r)"
    by (simp add: RingBuffer_capacity_def push_bit_eq_mult)
  ultimately show ?thesis
    by (simp only: unat_of_nat_u16 cap_def)
qed

lemma unat_slotsUsed [rb_simps]: "unat (RingBuffer_slotsUsed r) = used r"
  by (simp add: RingBuffer_slotsUsed_def used_def)

lemma unat_slotsFree [rb_simps]: "ring_ok r \<Longrightarrow> unat (RingBuffer_slotsFree r) = cap r - used r"
  using used_le_cap [of r] unat_diff_u16 [of "RingBuffer_capacity r" "RingBuffer_slotsUsed r"]
  by (simp add: RingBuffer_slotsFree_def unat_capacity unat_slotsUsed)

lemma empty_iff_used [rb_simps]: "RingBuffer_empty r \<longleftrightarrow> used r = 0"
  by (simp add: RingBuffer_empty_def used_def RingBuffer_slotsUsed_def unat_eq_zero)

lemma slotsUsed_eq_1 [rb_simps]: "RingBuffer_slotsUsed r = 1 \<longleftrightarrow> used r = 1"
  by (metis One_nat_def unat_1 unat_slotsUsed word_unat_eq_iff)

lemma slotsFree_eq_0 [rb_simps]: "ring_ok r \<Longrightarrow> RingBuffer_slotsFree r = 0 \<longleftrightarrow> used r = cap r"
  using unat_slotsFree [of r] used_le_cap [of r]
  by (metis diff_is_0_eq le_antisym unat_0 unat_eq_zero le_refl)

lemma used_zero_iff: "used r = 0 \<longleftrightarrow> rb_begin r = rb_end r"
  by (auto simp: used_def unat_eq_zero)

lemma end_eq: "rb_end r = rb_begin r + of_nat (used r)"
  by (simp add: used_def)

section \<open>Operations on the window\<close>

lemma new_ok:
  "RingBuffer_new k s = Some r \<Longrightarrow> ring_ok r \<and> used r = 0 \<and> rb_begin r = s \<and> cap r = 2 ^ nat k"
  by (auto simp: RingBuffer_new_def CHECK_bind ring_ok_def used_def cap_def split: if_splits)

lemma push_eq:
  assumes "ring_ok r"
  shows "RingBuffer_push r =
    (if used r < cap r then Some (r\<lparr>rb_end := rb_end r + 1\<rparr>, rb_end r) else None)"
proof -
  have "RingBuffer_slotsFree r > 0 \<longleftrightarrow> used r < cap r"
    using unat_slotsFree [OF assms] by (simp add: word_less_nat_alt)
  then show ?thesis
    by (simp add: RingBuffer_push_def CHECK_bind SeqNum_inc_def)
qed

lemma pop_eq:
  "RingBuffer_pop r =
    (if 0 < used r then Some (r\<lparr>rb_begin := rb_begin r + 1\<rparr>, rb_begin r) else None)"
  by (simp add: RingBuffer_pop_def CHECK_bind SeqNum_inc_def word_less_nat_alt unat_slotsUsed)

lemma used_push:
  assumes "ring_ok r" "used r < cap r"
  shows "used (r\<lparr>rb_end := rb_end r + 1\<rparr>) = Suc (used r)"
  using dist_add [of "rb_end r" "rb_begin r" 1] used_le [OF assms(1)]
  by (simp add: used_def)

lemma used_pop:
  assumes "0 < used r"
  shows "used (r\<lparr>rb_begin := rb_begin r + 1\<rparr>) = used r - 1"
proof -
  have "unat (rb_begin r + 1 - rb_begin r) = 1"
    by simp
  then show ?thesis
    using assms dist_split [of "rb_begin r + 1" "rb_begin r" "rb_end r"] by (simp add: used_def)
qed

lemma cap_update [simp]:
  "cap (r\<lparr>rb_end := e\<rparr>) = cap r" "cap (r\<lparr>rb_begin := b\<rparr>) = cap r"
  by (simp_all add: cap_def)

lemma ring_ok_push: "ring_ok r \<Longrightarrow> used r < cap r \<Longrightarrow> ring_ok (r\<lparr>rb_end := rb_end r + 1\<rparr>)"
  using used_push [of r] by (simp add: ring_ok_def used_def cap_def)

lemma ring_ok_pop: "ring_ok r \<Longrightarrow> 0 < used r \<Longrightarrow> ring_ok (r\<lparr>rb_begin := rb_begin r + 1\<rparr>)"
  using used_pop [of r] by (auto simp: ring_ok_def used_def)

lemma win_push:
  "ring_ok r \<Longrightarrow> used r < cap r \<Longrightarrow> win (r\<lparr>rb_end := rb_end r + 1\<rparr>) = win r @ [rb_end r]"
  by (simp add: win_def used_push end_eq [symmetric])

lemma win_pop:
  assumes "0 < used r"
  shows "win r = rb_begin r # win (r\<lparr>rb_begin := rb_begin r + 1\<rparr>)"
proof -
  have "[0..<used r] = 0 # map Suc [0..<used r - 1]"
    using assms by (metis Suc_diff_1 map_Suc_upt upt_conv_Cons)
  then show ?thesis
    by (simp add: win_def used_pop [OF assms] add.assoc)
qed

lemma reset_eq: "RingBuffer_reset r s =
    (if used r = 0 then Some (r\<lparr>rb_begin := s, rb_end := s\<rparr>) else None)"
  by (simp add: RingBuffer_reset_def CHECK_bind used_zero_iff)

lemma ring_ok_reset: "ring_ok r \<Longrightarrow> ring_ok (r\<lparr>rb_begin := s, rb_end := s\<rparr>)"
  by (simp add: ring_ok_def)

section \<open>Membership\<close>

lemma contains_iff:
  assumes "ring_ok r"
  shows "RingBuffer_contains r s \<longleftrightarrow>
    unat (s - rb_begin r) < used r \<or> used r = 0 \<and> s = rb_begin r + 32768"
proof (cases "unat (s - rb_begin r) \<le> used r")
  case True
  then have "unat (rb_end r - s) = used r - unat (s - rb_begin r)"
    using dist_split [of s "rb_begin r" "rb_end r"] by (simp add: used_def)
  then show ?thesis
    using True used_le [OF assms]
    by (auto simp: RingBuffer_contains_def SeqNum_le_iff_dist SeqNum_lt_iff_dist)
next
  case False
  then have d: "unat (s - rb_end r) = unat (s - rb_begin r) - used r"
    using dist_split [of "rb_end r" "rb_begin r" s] by (simp add: used_def)
  then have e: "unat (rb_end r - s) = 65536 - (unat (s - rb_begin r) - used r)"
    using False unat_minus_u16 [of "s - rb_end r"] by (auto simp: unat_eq_zero)
  show ?thesis
  proof (cases "unat (s - rb_begin r) = 32768")
    case True
    then have "s = rb_begin r + 32768"
      using add_dist [of "rb_begin r" s] by simp
    then show ?thesis
      using True e used_le [OF assms]
      by (auto simp: RingBuffer_contains_def SeqNum_le_iff_dist SeqNum_lt_iff_dist)
  next
    case ne: False
    then have "s \<noteq> rb_begin r + 32768"
      by auto
    then show ?thesis
      using False ne e used_le [OF assms] unat_u16_less [of "s - rb_begin r"]
      by (auto simp: RingBuffer_contains_def SeqNum_le_iff_dist SeqNum_lt_iff_dist)
  qed
qed

text \<open>Close to the window, which is where the protocol uses it, the test is exact.\<close>

lemma contains_near:
  assumes "ring_ok r" "s \<noteq> rb_begin r + 32768"
  shows "RingBuffer_contains r s \<longleftrightarrow> unat (s - rb_begin r) < used r"
  using assms by (simp add: contains_iff)

lemma contains_nth: "ring_ok r \<Longrightarrow> i < used r \<Longrightarrow> RingBuffer_contains r (rb_begin r + of_nat i)"
  using used_le [of r] by (simp add: contains_iff)

lemma contains_pos:
  assumes "ring_ok r" "m < 32768"
  shows "RingBuffer_contains r (rb_begin r + of_nat m) \<longleftrightarrow> m < used r"
proof -
  have "(of_nat m :: u16) \<noteq> 32768"
  proof
    assume "(of_nat m :: u16) = 32768"
    then have "unat (of_nat m :: u16) = 32768"
      by simp
    then show False
      using assms by simp
  qed
  then show ?thesis
    using contains_near [of r "rb_begin r + of_nat m"] assms by simp
qed

lemma in_win_iff: "ring_ok r \<Longrightarrow> s \<in> set (win r) \<longleftrightarrow> unat (s - rb_begin r) < used r"
proof
  assume "ring_ok r" "s \<in> set (win r)"
  then show "unat (s - rb_begin r) < used r"
    using used_le [of r] by (auto simp: win_def)
next
  assume "unat (s - rb_begin r) < used r"
  then show "s \<in> set (win r)"
    by (auto simp: win_def intro!: image_eqI [of _ _ "unat (s - rb_begin r)"])
qed

section \<open>Storage offsets\<close>

lemma unat_offset_for:
  assumes "ring_ok r"
  shows "unat (RingBuffer_offset_for r s) = unat s mod cap r"
proof -
  have "RingBuffer_capacity r - 1 = mask (rb_capacity_log2 r)"
    by (simp add: RingBuffer_capacity_def mask_eq_exp_minus_1 push_bit_eq_mult)
  then have "RingBuffer_offset_for r s = take_bit (rb_capacity_log2 r) s"
    by (simp add: RingBuffer_offset_for_def take_bit_eq_mask)
  then have "unat (RingBuffer_offset_for r s) = take_bit (rb_capacity_log2 r) (unat s)"
    by (simp only: unsigned_take_bit_eq)
  then show ?thesis
    by (simp add: take_bit_eq_mod cap_def)
qed

lemma offset_for_less: "ring_ok r \<Longrightarrow> unat (RingBuffer_offset_for r s) < cap r"
  by (simp add: unat_offset_for)

lemma offset_for_update [simp]:
  "RingBuffer_offset_for (r\<lparr>rb_end := e\<rparr>) s = RingBuffer_offset_for r s"
  "RingBuffer_offset_for (r\<lparr>rb_begin := b\<rparr>) s = RingBuffer_offset_for r s"
  by (simp_all add: RingBuffer_offset_for_def RingBuffer_capacity_def)

text \<open>Two numbers less than one capacity apart from a common start share no slot.\<close>

lemma offset_for_inject:
  assumes "ring_ok r" "unat (s - b) < cap r" "unat (t - b) < cap r"
  shows "RingBuffer_offset_for r s = RingBuffer_offset_for r t \<longleftrightarrow> s = t"
proof
  assume "RingBuffer_offset_for r s = RingBuffer_offset_for r t"
  then have "unat s mod cap r = unat t mod cap r"
    by (metis unat_offset_for [OF assms(1)])
  moreover have "cap r dvd 65536"
  proof -
    have "(2::nat) ^ rb_capacity_log2 r dvd 2 ^ 16"
      using assms(1) by (intro le_imp_power_dvd) (simp add: ring_ok_def kMaxLinkBufferSizeLog2_def)
    then show ?thesis
      by (simp add: cap_def)
  qed
  moreover have "unat x mod cap r = (unat b + unat (x - b)) mod cap r" for x
  proof -
    have "unat (b + (x - b)) = (unat b + unat (x - b)) mod 65536"
      by (simp only: unat_word_ariths) simp
    then have "unat x = (unat b + unat (x - b)) mod 65536"
      by simp
    then show ?thesis
      using \<open>cap r dvd 65536\<close> by (simp add: mod_mod_cancel)
  qed
  ultimately have "unat (s - b) mod cap r = unat (t - b) mod cap r"
    by (metis mod_add_left_cancel)
  then have "s - b = t - b"
    using assms(2,3) by (simp add: word_unat_eq_iff)
  then show "s = t"
    by simp
qed simp

section \<open>Expanding 12-bit wire positions\<close>

lemma restorePosHighBits_12:
  assumes "unat (s - (rb_begin r - 2048)) < 4096"
  shows "RingBuffer_restorePosHighBits r (s AND 0x0FFF) 12 = s"
proof -
  let ?left = "rb_begin r - 2048 :: u16"
  have eq: "s AND 0x0FFF = take_bit 12 s"
    by (simp add: take_bit_eq_mask mask_eq_exp_minus_1)
  have diff: "unat (x - ?left) mod 4096 = (unat x + (65536 - unat ?left)) mod 4096" for x
  proof (cases "unat ?left \<le> unat x")
    case True
    then have "unat x + (65536 - unat ?left) = (unat x - unat ?left) + 16 * 4096"
      using unat_u16_less [of ?left] by simp
    then have "(unat x + (65536 - unat ?left)) mod 4096 = (unat x - unat ?left) mod 4096"
      by (simp only: mod_mult_self1)
    with True show ?thesis
      by (simp add: unat_diff_u16 [of x])
  next
    case False
    then show ?thesis
      using unat_u16_less [of ?left] by (simp add: unat_diff_u16 [of x])
  qed
  have "unat (take_bit 12 s) = unat s mod 4096"
    by (simp only: unsigned_take_bit_eq) (simp add: take_bit_eq_mod)
  then have "unat (take_bit 12 s - ?left) mod 4096 = unat (s - ?left) mod 4096"
    by (simp only: diff mod_add_left_eq)
  then have "unat (take_bit 12 s - ?left) mod 4096 = unat (s - ?left)"
    using assms by simp
  then have "?left + of_nat (unat (take_bit 12 s - ?left) mod 4096) = s"
    by simp
  then show ?thesis
    by (simp add: RingBuffer_restorePosHighBits_def Let_def eq)
qed

section \<open>Draining\<close>

text \<open>\<open>while (!ring.empty()) ring.pop();\<close>\<close>

function RingBuffer_popAll :: "RingBuffer \<Rightarrow> RingBuffer option" where
  "RingBuffer_popAll r =
     (if RingBuffer_empty r then Some r
      else case RingBuffer_pop r of None \<Rightarrow> None | Some (r', _) \<Rightarrow> RingBuffer_popAll r')"
  by pat_completeness auto
termination
  by (relation "measure used") (auto simp: pop_eq used_pop split: if_splits)

declare RingBuffer_popAll.simps [simp del]

lemma popAll_eq: "RingBuffer_popAll r = Some (r\<lparr>rb_begin := rb_end r\<rparr>)"
proof (induction r rule: RingBuffer_popAll.induct)
  case (1 r)
  show ?case
  proof (cases "used r = 0")
    case True
    then show ?thesis
      by (simp add: RingBuffer_popAll.simps [of r] rb_simps used_zero_iff)
  next
    case False
    then show ?thesis
      using "1.IH" [of "(r\<lparr>rb_begin := rb_begin r + 1\<rparr>, rb_begin r)"]
      by (simp add: RingBuffer_popAll.simps [of r] rb_simps pop_eq)
  qed
qed

section \<open>The queue contract\<close>

text \<open>
  What the two directions of a link rely on: a bounded queue of sequence numbers. \<open>push_n\<close>
  and \<open>pop_n\<close> iterate the operations, as the loops of the callers do.
\<close>

primrec push_n :: "('r \<Rightarrow> ('r \<times> 's) option) \<Rightarrow> nat \<Rightarrow> 'r \<Rightarrow> ('r \<times> 's list) option" where
  "push_n push 0 r = Some (r, [])"
| "push_n push (Suc n) r = do {
     (r1, s) \<leftarrow> push r;
     (r2, ss) \<leftarrow> push_n push n r1;
     Some (r2, s # ss)
   }"

locale seq_window =
  fixes wf :: "'r \<Rightarrow> bool"
    and seqs :: "'r \<Rightarrow> 's list"
    and capacity :: "'r \<Rightarrow> nat"
    and push :: "'r \<Rightarrow> ('r \<times> 's) option"
    and pop :: "'r \<Rightarrow> ('r \<times> 's) option"
  assumes push_room: "wf r \<Longrightarrow> length (seqs r) < capacity r \<Longrightarrow> \<exists>r' s. push r = Some (r', s)"
    and push_full: "wf r \<Longrightarrow> capacity r \<le> length (seqs r) \<Longrightarrow> push r = None"
    and push_append: "wf r \<Longrightarrow> push r = Some (r', s) \<Longrightarrow>
      wf r' \<and> seqs r' = seqs r @ [s] \<and> capacity r' = capacity r"
    and pop_head: "wf r \<Longrightarrow> pop r = Some (r', s) \<Longrightarrow>
      wf r' \<and> seqs r = s # seqs r' \<and> capacity r' = capacity r"
    and pop_empty: "wf r \<Longrightarrow> pop r = None \<longleftrightarrow> seqs r = []"
begin

lemma push_n_append:
  "wf r \<Longrightarrow> push_n push n r = Some (r', ss) \<Longrightarrow>
    wf r' \<and> seqs r' = seqs r @ ss \<and> capacity r' = capacity r \<and> length ss = n"
proof (induction n arbitrary: r ss)
  case (Suc n)
  then obtain r1 s ss' where "push r = Some (r1, s)" "push_n push n r1 = Some (r', ss')" "ss = s # ss'"
    by (auto simp: bind_eq_Some_conv)
  with Suc show ?case
    using push_append [of r r1 s] by fastforce
qed simp

lemma push_n_room:
  "wf r \<Longrightarrow> length (seqs r) + n \<le> capacity r \<Longrightarrow> \<exists>r' ss. push_n push n r = Some (r', ss)"
proof (induction n arbitrary: r)
  case (Suc n)
  then obtain r1 s where p: "push r = Some (r1, s)"
    using push_room [of r] by auto
  then have "length (seqs r1) + n \<le> capacity r1" "wf r1"
    using push_append [of r r1 s] Suc.prems by auto
  then obtain r2 ss where "push_n push n r1 = Some (r2, ss)"
    using Suc.IH by blast
  with p show ?case
    by simp
qed simp

lemma push_n_full:
  "wf r \<Longrightarrow> length (seqs r) \<le> capacity r \<Longrightarrow> push_n push n r = Some (r', ss) \<Longrightarrow> length (seqs r) + n \<le> capacity r"
proof (induction n arbitrary: r ss)
  case (Suc n)
  then obtain r1 s ss' where p: "push r = Some (r1, s)" and q: "push_n push n r1 = Some (r', ss')"
    by (auto simp: bind_eq_Some_conv)
  then have "length (seqs r) < capacity r"
    using push_full [of r] Suc.prems(1) by (metis not_le option.distinct(1))
  then show ?case
    using push_append [of r r1 s] p Suc.IH [of r1 ss'] Suc.prems q by auto
qed simp

lemma pop_n_head:
  "wf r \<Longrightarrow> push_n pop n r = Some (r', ss) \<Longrightarrow>
    wf r' \<and> seqs r = ss @ seqs r' \<and> capacity r' = capacity r \<and> length ss = n"
proof (induction n arbitrary: r ss)
  case (Suc n)
  then obtain r1 s ss' where "pop r = Some (r1, s)" "push_n pop n r1 = Some (r', ss')" "ss = s # ss'"
    by (auto simp: bind_eq_Some_conv)
  with Suc show ?case
    using pop_head [of r r1 s] by fastforce
qed simp

lemma pop_n_some:
  "wf r \<Longrightarrow> n \<le> length (seqs r) \<Longrightarrow> \<exists>r' ss. push_n pop n r = Some (r', ss)"
proof (induction n arbitrary: r)
  case (Suc n)
  then obtain r1 s where p: "pop r = Some (r1, s)"
    using pop_empty [of r] by fastforce
  then show ?case
    using pop_head [of r r1 s] Suc.prems Suc.IH [of r1] by force
qed simp

text \<open>First in, first out: from an empty window, what was pushed is what is popped.\<close>

lemma fifo:
  assumes "wf r" "seqs r = []" "push_n push n r = Some (r1, ss)" "push_n pop m r1 = Some (r2, ts)"
  shows "ts = take m ss \<and> seqs r2 = drop m ss"
  using push_n_append [OF assms(1,3)] pop_n_head [of r1 m r2 ts] assms(2,4) by auto

end

interpretation rb: seq_window ring_ok win cap RingBuffer_push RingBuffer_pop
proof unfold_locales
  fix r :: RingBuffer and r' s
  assume ok: "ring_ok r"
  show "length (win r) < cap r \<Longrightarrow> \<exists>r' s. RingBuffer_push r = Some (r', s)"
    by (simp add: push_eq [OF ok])
  show "cap r \<le> length (win r) \<Longrightarrow> RingBuffer_push r = None"
    by (simp add: push_eq [OF ok])
  show "RingBuffer_push r = Some (r', s) \<Longrightarrow> ring_ok r' \<and> win r' = win r @ [s] \<and> cap r' = cap r"
    using ok by (auto simp: push_eq ring_ok_push win_push split: if_splits)
  show "RingBuffer_pop r = Some (r', s) \<Longrightarrow> ring_ok r' \<and> win r = s # win r' \<and> cap r' = cap r"
    using ok by (auto simp: pop_eq ring_ok_pop win_pop split: if_splits)
  show "RingBuffer_pop r = None \<longleftrightarrow> win r = []"
    by (auto simp: pop_eq win_def)
qed

section \<open>Slots\<close>

abbreviation slot :: "RingBuffer \<Rightarrow> SeqNum \<Rightarrow> nat" where
  "slot r s \<equiv> unat (RingBuffer_offset_for r s)"

text \<open>Writing the slot of one number of a window leaves the slots of the others alone.\<close>

lemma nth_slot_update:
  assumes "ring_ok r" "length bufs = cap r" "unat (s - b) < cap r" "unat (t - b) < cap r"
  shows "bufs[slot r s := x] ! slot r t = (if s = t then x else bufs ! slot r t)"
  using assms offset_for_inject [of r s b t] offset_for_less [of r s]
  by (auto simp: nth_list_update word_unat_eq_iff)

section \<open>The buffers of a window\<close>

text \<open>
  Both directions of a link keep a buffer per sequence number of their window, in an array
  of the window's capacity. \<open>contents\<close> lists the buffers of the window in order; the
  operations on window and array act on it as on a list.
\<close>

definition contents :: "RingBuffer \<Rightarrow> 'a list \<Rightarrow> 'a list" where
  "contents r bufs = map (\<lambda>s. bufs ! slot r s) (win r)"

lemma length_contents [simp]: "length (contents r bufs) = used r"
  by (simp add: contents_def)

lemma nth_contents:
  "i < used r \<Longrightarrow> contents r bufs ! i = bufs ! slot r (rb_begin r + of_nat i)"
  by (simp add: contents_def nth_win)

lemma contents_eq_Nil [simp]: "contents r bufs = [] \<longleftrightarrow> used r = 0"
  by (simp add: contents_def win_def)

lemma hd_contents: "0 < used r \<Longrightarrow> hd (contents r bufs) = bufs ! slot r (rb_begin r)"
  by (simp add: hd_conv_nth nth_contents)

lemma contents_update:
  assumes "ring_ok r" "length bufs = cap r" "i < used r"
  shows "contents r (bufs[slot r (rb_begin r + of_nat i) := x]) = (contents r bufs)[i := x]"
proof (rule nth_equalityI)
  fix j assume "j < length (contents r (bufs[slot r (rb_begin r + of_nat i) := x]))"
  with assms show "contents r (bufs[slot r (rb_begin r + of_nat i) := x]) ! j
      = (contents r bufs)[i := x] ! j"
    using used_le [of r] used_le_cap [of r]
      nth_slot_update [of r bufs "rb_begin r + of_nat i" "rb_begin r" "rb_begin r + of_nat j" x]
      add_of_nat_inject [of i j "rb_begin r"]
    by (auto simp: nth_contents nth_list_update)
qed simp

lemma contents_update_begin:
  assumes "ring_ok r" "length bufs = cap r" "0 < used r"
  shows "contents r (bufs[slot r (rb_begin r) := x]) = (contents r bufs)[0 := x]"
  using contents_update [of r bufs 0 x] assms by simp

lemma contents_push:
  assumes "ring_ok r" "used r < cap r"
  shows "contents (r\<lparr>rb_end := rb_end r + 1\<rparr>) bufs = contents r bufs @ [bufs ! slot r (rb_end r)]"
  using assms by (simp add: contents_def win_push)

lemma contents_push_update:
  assumes "ring_ok r" "used r < cap r" "length bufs = cap r"
  shows "contents (r\<lparr>rb_end := rb_end r + 1\<rparr>) (bufs[slot r (rb_end r) := x]) = contents r bufs @ [x]"
proof -
  let ?r = "r\<lparr>rb_end := rb_end r + 1\<rparr>"
  have "contents ?r (bufs[slot ?r (rb_begin ?r + of_nat (used r)) := x]) = (contents ?r bufs)[used r := x]"
    using assms by (intro contents_update) (simp_all add: ring_ok_push used_push)
  then show ?thesis
    using assms by (simp add: contents_push end_eq [symmetric] list_update_append)
qed

lemma contents_pop:
  assumes "0 < used r"
  shows "contents (r\<lparr>rb_begin := rb_begin r + 1\<rparr>) bufs = tl (contents r bufs)"
  by (simp add: contents_def win_pop [OF assms])

lemma contents_pop_update:
  assumes "ring_ok r" "length bufs = cap r" "0 < used r"
  shows "contents (r\<lparr>rb_begin := rb_begin r + 1\<rparr>) (bufs[slot r (rb_begin r) := x]) = tl (contents r bufs)"
  using assms by (simp add: contents_pop contents_update_begin) (cases "contents r bufs"; simp)

lemma contents_empty: "used r = 0 \<Longrightarrow> contents r bufs = []"
  by simp

lemma slot_less: "ring_ok r \<Longrightarrow> length bufs = cap r \<Longrightarrow> slot r s < length bufs"
  by (simp add: offset_for_less)

lemma used_reset [simp]: "used (r\<lparr>rb_begin := s, rb_end := s\<rparr>) = 0" "used (r\<lparr>rb_begin := rb_end r\<rparr>) = 0"
  by (simp_all add: used_def)

lemma ring_ok_drain: "ring_ok r \<Longrightarrow> ring_ok (r\<lparr>rb_begin := rb_end r\<rparr>)"
  by (simp add: ring_ok_def)

text \<open>An expanded wire position lies within 2048 of the window start, whatever was received.\<close>

lemma restorePosHighBits_range:
  "unat (RingBuffer_restorePosHighBits r x 12 - (rb_begin r - 2048)) < 4096"
proof -
  have "RingBuffer_restorePosHighBits r x 12 - (rb_begin r - 2048)
      = of_nat (unat (x - (rb_begin r - 2048)) mod 4096)"
    by (simp add: RingBuffer_restorePosHighBits_def Let_def algebra_simps)
  then show ?thesis
    by simp
qed

text \<open>
  So it is ahead of the window start by less than 2048, or behind it by at most 2048; and the
  comparisons that the code makes decide which.
\<close>

lemma near_ahead_behind:
  assumes "unat (s - (b - 2048 :: u16)) < 4096"
  shows "unat (s - b) < 2048 \<or> (0 < unat (b - s) \<and> unat (b - s) \<le> 2048)"
proof -
  let ?d = "unat (s - (b - 2048))"
  have c: "unat (b - (b - 2048)) = 2048"
    by simp
  show ?thesis
  proof (cases "2048 \<le> ?d")
    case True
    then have "unat (s - b) = ?d - 2048"
      using dist_split [of b "b - 2048" s] c by simp
    then show ?thesis
      using assms by linarith
  next
    case False
    then have "unat (b - s) = 2048 - ?d"
      using dist_split [of s "b - 2048" b] c by simp
    then show ?thesis
      using False by simp
  qed
qed

end
