(* ===== verification/Receiver.thy ===== *)
theory Receiver
  imports Packet_Buffers Ring_Buffer
begin

text \<open>
  \<open>Receiver\<close> (\<^verbatim>\<open>link/internal/receiver.h\<close>, \<^verbatim>\<open>link/internal/receiver.cpp\<close>): the
  incoming half of a link. \<open>current_in_buffer_\<close>, a pointer into the buffer array, is an
  optional index; an output buffer that a method fills is returned; an output flag is part of
  the result. \<open>Uptime::Now()\<close> is an argument.
\<close>

section \<open>State\<close>

datatype Receiver_State = R_kIdle | R_kConnecting | R_kConnected | R_kBroken

record Receiver =
  rcv_my_stream_id :: u32
  rcv_state :: Receiver_State
  rcv_self_closed :: bool
  rcv_peer_closed :: bool
  rcv_end_of_stream :: bool
  rcv_in_buffers :: "InBuffer list"
  rcv_current_in_buffer :: "nat option"
  rcv_current_in_buffer_pos :: u8
  rcv_in_ring :: RingBuffer
  rcv_needs_ack :: bool
  rcv_unack_seq :: u16
  rcv_recv_himark :: SeqNum
  rcv_recv_himark_update_expiration :: uptime
  rcv_packets_received :: u32
  rcv_control_bit :: bool

text \<open>The constructor leaves \<open>control_bit_\<close> uninitialised: its first value is an argument.\<close>

definition Receiver_new :: "lib \<Rightarrow> nat \<Rightarrow> bool \<Rightarrow> Receiver option" where
  "Receiver_new L recvbuf_log2 control_bit0 = do {
     ring \<leftarrow> RingBuffer_new (int recvbuf_log2) 0;
     Some \<lparr>rcv_my_stream_id = 0, rcv_state = R_kIdle, rcv_self_closed = False,
       rcv_peer_closed = False, rcv_end_of_stream = False,
       rcv_in_buffers = replicate (2 ^ recvbuf_log2) InBuffer_new,
       rcv_current_in_buffer = None, rcv_current_in_buffer_pos = 0, rcv_in_ring = ring,
       rcv_needs_ack = False, rcv_unack_seq = 0,
       rcv_recv_himark = SeqNum_plus (rb_begin ring) (2 ^ recvbuf_log2),
       rcv_recv_himark_update_expiration = Uptime_Start L, rcv_packets_received = 0,
       rcv_control_bit = control_bit0\<rparr>
   }"

definition Receiver_getInBuffer :: "Receiver \<Rightarrow> SeqNum \<Rightarrow> InBuffer" where
  "Receiver_getInBuffer r s = rcv_in_buffers r ! unat (RingBuffer_offset_for (rcv_in_ring r) s)"

definition Receiver_empty :: "Receiver \<Rightarrow> bool" where
  "Receiver_empty r \<longleftrightarrow> RingBuffer_empty (rcv_in_ring r)"

section \<open>Connection state\<close>

definition Receiver_setConnected :: "Receiver \<Rightarrow> SeqNum \<Rightarrow> bool \<Rightarrow> Receiver option" where
  "Receiver_setConnected r peer_seq_num control_bit = do {
     CHECK (RingBuffer_empty (rcv_in_ring r));
     ring \<leftarrow> RingBuffer_reset (rcv_in_ring r) peer_seq_num;
     Some (r\<lparr>rcv_in_ring := ring, rcv_unack_seq := peer_seq_num, rcv_state := R_kConnected,
             rcv_control_bit := control_bit\<rparr>)
   }"

definition Receiver_setIdle :: "Receiver \<Rightarrow> Receiver" where
  "Receiver_setIdle r = r\<lparr>rcv_state := R_kIdle, rcv_peer_closed := False,
     rcv_self_closed := False, rcv_end_of_stream := False\<rparr>"

definition Receiver_setBroken :: "Receiver \<Rightarrow> Receiver" where
  "Receiver_setBroken r =
     (if RingBuffer_empty (rcv_in_ring r) then Receiver_setIdle r
      else r\<lparr>rcv_peer_closed := True, rcv_self_closed := False, rcv_end_of_stream := False\<rparr>)"

definition Receiver_done :: "Receiver \<Rightarrow> bool" where
  "Receiver_done r \<longleftrightarrow>
     Receiver_empty r \<and> (rcv_end_of_stream r \<or> rcv_self_closed r \<or> rcv_peer_closed r)"

section \<open>Reading\<close>

text \<open>
  The common prefix of \<open>tryRead\<close>, \<open>peek\<close> and \<open>availableForRead\<close>: the buffer to
  read from, selected if there is none yet; \<open>None\<close> when there is nothing to select.
\<close>

definition Receiver_select :: "Receiver \<Rightarrow> (Receiver \<times> nat) option" where
  "Receiver_select r =
     (case rcv_current_in_buffer r of
        Some i \<Rightarrow> Some (r, i)
      | None \<Rightarrow>
          if RingBuffer_empty (rcv_in_ring r) then None
          else let i = unat (RingBuffer_offset_for (rcv_in_ring r) (rb_begin (rcv_in_ring r)))
               in Some (r\<lparr>rcv_current_in_buffer := Some i, rcv_current_in_buffer_pos := 0\<rparr>, i))"

text \<open>The end of a loop iteration that drained the buffer \<open>i\<close>.\<close>

definition Receiver_release :: "lib \<Rightarrow> Receiver \<Rightarrow> nat \<Rightarrow> Receiver option" where
  "Receiver_release L r i = do {
     (ring, _) \<leftarrow> RingBuffer_pop (rcv_in_ring r);
     Some (r\<lparr>rcv_in_buffers := (rcv_in_buffers r)[i := InBuffer_clear (rcv_in_buffers r ! i)],
             rcv_current_in_buffer := None,
             rcv_recv_himark_update_expiration := Uptime_Start L,
             rcv_in_ring := ring\<rparr>)
   }"

lemma Receiver_select_ring: "Receiver_select r = Some (r1, i) \<Longrightarrow> rcv_in_ring r1 = rcv_in_ring r"
  by (auto simp: Receiver_select_def Let_def split: option.splits if_splits)

lemma Receiver_release_used:
  "Receiver_release L r i = Some r' \<Longrightarrow> used (rcv_in_ring r') < used (rcv_in_ring r)"
  by (auto simp: Receiver_release_def pop_eq used_pop bind_eq_Some_conv split: if_splits)

text \<open>
  The loop of \<open>tryRead\<close>: \<open>out\<close> are the bytes copied so far, \<open>ready\<close> is
  \<open>outgoing_data_ready\<close>.
\<close>

function Receiver_tryRead_loop ::
  "lib \<Rightarrow> Receiver \<Rightarrow> nat \<Rightarrow> byte list \<Rightarrow> bool \<Rightarrow> (Receiver \<times> byte list \<times> bool) option" where
  "Receiver_tryRead_loop L r count out ready =
     (case Receiver_select r of
        None \<Rightarrow> Some (if rcv_state r = R_kBroken then Receiver_setIdle r else r, out, ready)
      | Some (r1, i) \<Rightarrow>
         (let b = rcv_in_buffers r1 ! i; pos = rcv_current_in_buffer_pos r1
          in if ib_type b = kUnset then Some (r1, out, ready)
             else if \<not> ib_size b \<ge> pos then None
             else
               (let available = unat (ib_size b) - unat pos
                in if count < available then
                     Some (r1\<lparr>rcv_current_in_buffer_pos := pos + of_nat count\<rparr>,
                           out @ take count (drop (unat pos) (ib_payload b)), ready)
                   else
                     (let out = out @ take available (drop (unat pos) (ib_payload b));
                          count = count - available
                      in case Receiver_release L r1 i of
                           None \<Rightarrow> None
                         | Some r2 \<Rightarrow>
                             if ib_type b = kFin then
                               (if RingBuffer_empty (rcv_in_ring r2)
                                then Some (r2\<lparr>rcv_end_of_stream := True\<rparr>, out, True)
                                else None)
                             else if count > 0 then Receiver_tryRead_loop L r2 count out True
                             else Some (r2, out, True)))))"
  by pat_completeness auto
termination
  by (relation "measure (\<lambda>(L, r, _). used (rcv_in_ring r))")
    (auto dest!: Receiver_release_used Receiver_select_ring)

declare Receiver_tryRead_loop.simps [simp del]

definition Receiver_tryRead :: "lib \<Rightarrow> Receiver \<Rightarrow> nat \<Rightarrow> (Receiver \<times> byte list \<times> bool) option" where
  "Receiver_tryRead L r count =
     (if rcv_state r = R_kConnecting \<or> rcv_state r = R_kIdle then Some (r, [], False)
      else Receiver_tryRead_loop L r count [] False)"

text \<open>\<open>do pop while not empty\<close> is \<open>RingBuffer_popAll\<close>, the window being non-empty.\<close>

definition Receiver_markInputClosed :: "lib \<Rightarrow> Receiver \<Rightarrow> bool \<Rightarrow> (Receiver \<times> bool) option" where
  "Receiver_markInputClosed L r outgoing_data_ready =
     (let r = r\<lparr>rcv_self_closed := True\<rparr>
      in if RingBuffer_empty (rcv_in_ring r) then Some (r, outgoing_data_ready)
         else do {
           ring \<leftarrow> RingBuffer_popAll (rcv_in_ring r);
           Some (r\<lparr>rcv_recv_himark_update_expiration := Uptime_Start L, rcv_in_ring := ring\<rparr>, True)
         })"

definition Receiver_peek :: "Receiver \<Rightarrow> Receiver \<times> int" where
  "Receiver_peek r =
     (case Receiver_select r of
        None \<Rightarrow> (r, - 1)
      | Some (r, i) \<Rightarrow>
         (let b = rcv_in_buffers r ! i
          in if ib_type b \<noteq> kData then (r, - 1)
             else (r, uint (ib_payload b ! unat (rcv_current_in_buffer_pos r)))))"

definition Receiver_availableForRead :: "Receiver \<Rightarrow> Receiver \<times> nat" where
  "Receiver_availableForRead r =
     (case Receiver_select r of
        None \<Rightarrow> (r, 0)
      | Some (r, i) \<Rightarrow>
         (let b = rcv_in_buffers r ! i
          in case ib_type b of
               kUnset \<Rightarrow> (r, 0)
             | kFin \<Rightarrow> (r, 1)
             | kData \<Rightarrow> (r, unat (ib_size b) - unat (rcv_current_in_buffer_pos r))))"

section \<open>Starting and stopping\<close>

text \<open>The loop of \<open>reset\<close> clears every buffer of the window.\<close>

function Receiver_clear_loop :: "RingBuffer \<Rightarrow> InBuffer list \<Rightarrow> (RingBuffer \<times> InBuffer list) option" where
  "Receiver_clear_loop ring bufs =
     (if RingBuffer_empty ring then Some (ring, bufs)
      else let i = unat (RingBuffer_offset_for ring (rb_begin ring))
           in case RingBuffer_pop ring of
                None \<Rightarrow> None
              | Some (ring', _) \<Rightarrow> Receiver_clear_loop ring' (bufs[i := InBuffer_clear (bufs ! i)]))"
  by pat_completeness auto
termination
  by (relation "measure (\<lambda>(ring, _). used ring)") (auto simp: pop_eq used_pop split: if_splits)

declare Receiver_clear_loop.simps [simp del]

definition Receiver_reset :: "lib \<Rightarrow> Receiver \<Rightarrow> Receiver option" where
  "Receiver_reset L r = do {
     (ring, bufs) \<leftarrow> Receiver_clear_loop (rcv_in_ring r) (rcv_in_buffers r);
     Some (r\<lparr>rcv_my_stream_id := 0, rcv_state := R_kIdle, rcv_peer_closed := False,
       rcv_self_closed := False, rcv_end_of_stream := False, rcv_in_ring := ring,
       rcv_in_buffers := bufs, rcv_current_in_buffer := None, rcv_current_in_buffer_pos := 0,
       rcv_needs_ack := False, rcv_recv_himark_update_expiration := Uptime_Start L\<rparr>)
   }"

definition Receiver_init :: "Receiver \<Rightarrow> u32 \<Rightarrow> Receiver option" where
  "Receiver_init r my_stream_id = do {
     ring \<leftarrow> RingBuffer_popAll (rcv_in_ring r);
     Some (r\<lparr>rcv_in_ring := ring, rcv_my_stream_id := my_stream_id, rcv_peer_closed := False,
       rcv_self_closed := False, rcv_end_of_stream := False, rcv_state := R_kConnecting\<rparr>)
   }"

section \<open>Control packets\<close>

definition kRecvHimarkExpirationTimeoutUs :: int where
  "kRecvHimarkExpirationTimeoutUs = 100000"

definition Receiver_updateRecvHimark ::
  "lib \<Rightarrow> Receiver \<Rightarrow> uptime \<Rightarrow> int \<Rightarrow> Receiver \<times> byte list \<times> int" where
  "Receiver_updateRecvHimark L r now next_send_micros =
     (if rcv_state r = R_kConnecting \<or> rcv_state r = R_kIdle then (r, [], next_send_micros)
      else if now < rcv_recv_himark_update_expiration r then
        (r, [], min next_send_micros (rcv_recv_himark_update_expiration r - now))
      else
        (let himark = SeqNum_plus (rb_begin (rcv_in_ring r)) (uint (RingBuffer_capacity (rcv_in_ring r)));
             payload = FormatPacketHeader himark kFlowControlPacket (rcv_control_bit r)
         in (r\<lparr>rcv_recv_himark := himark,
               rcv_recv_himark_update_expiration := now + kRecvHimarkExpirationTimeoutUs\<rparr>,
             StoreBeU16 L payload, min next_send_micros kRecvHimarkExpirationTimeoutUs)))"

text \<open>The loop over the look-ahead bits; the first argument is \<open>idx + 1\<close>.\<close>

primrec Receiver_ack_loop :: "nat \<Rightarrow> Receiver \<Rightarrow> SeqNum \<Rightarrow> u64 \<Rightarrow> u64" where
  "Receiver_ack_loop 0 r in_pos ack_bitmask = ack_bitmask"
| "Receiver_ack_loop (Suc idx) r in_pos ack_bitmask =
     (if RingBuffer_contains (rcv_in_ring r) in_pos then
        Receiver_ack_loop idx r (SeqNum_inc in_pos)
          (if ib_type (Receiver_getInBuffer r in_pos) \<noteq> kUnset
           then ack_bitmask OR push_bit idx 1 else ack_bitmask)
      else ack_bitmask)"

text \<open>\<open>while (buf[len - 1] == 0) --len;\<close>\<close>

definition strip_trailing_zeros :: "byte list \<Rightarrow> byte list" where
  "strip_trailing_zeros bs = rev (dropWhile (\<lambda>b. b = 0) (rev bs))"

definition Receiver_ack :: "lib \<Rightarrow> Receiver \<Rightarrow> Receiver \<times> byte list" where
  "Receiver_ack L r =
     (if (rcv_state r \<noteq> R_kConnected \<and> rcv_state r \<noteq> R_kIdle) \<or> \<not> rcv_needs_ack r then (r, [])
      else
        (let payload = FormatPacketHeader (rcv_unack_seq r) kDataAckPacket (rcv_control_bit r);
             ack_bitmask = Receiver_ack_loop 64 r (rcv_unack_seq r + 1) 0;
             r = r\<lparr>rcv_needs_ack := False\<rparr>
         in if ack_bitmask = 0 then (r, StoreBeU16 L payload)
            else (r, strip_trailing_zeros (StoreBeU16 L payload @ StoreBeU64 L ack_bitmask))))"

section \<open>Incoming data\<close>

text \<open>Extending the window: \<open>getInBuffer(in_ring_.push()).clear()\<close>, \<open>advance\<close> times.\<close>

primrec Receiver_extend :: "nat \<Rightarrow> RingBuffer \<Rightarrow> InBuffer list \<Rightarrow> (RingBuffer \<times> InBuffer list) option" where
  "Receiver_extend 0 ring bufs = Some (ring, bufs)"
| "Receiver_extend (Suc n) ring bufs = do {
     (ring, s) \<leftarrow> RingBuffer_push ring;
     let i = unat (RingBuffer_offset_for ring s)
     in Receiver_extend n ring (bufs[i := InBuffer_clear (bufs ! i)])
   }"

text \<open>The loop that advances \<open>unack_seq_\<close> and counts the packets.\<close>

function Receiver_advance ::
  "RingBuffer \<Rightarrow> InBuffer list \<Rightarrow> u16 \<Rightarrow> u32 \<Rightarrow> u16 \<times> u32" where
  "Receiver_advance ring bufs unack packets =
     (let unack = unack + 1; packets = packets + 1
      in if RingBuffer_contains ring unack
            \<and> ib_type (bufs ! unat (RingBuffer_offset_for ring unack)) \<noteq> kUnset
         then Receiver_advance ring bufs unack packets
         else (unack, packets))"
  by pat_completeness auto
termination
  by (relation "measure (\<lambda>(ring, bufs, u, _). unat (rb_end ring - (u + 1)))")
    (auto simp: RingBuffer_contains_def dest!: SeqNum_lt_inc)

declare Receiver_advance.simps [simp del]

text \<open>With a closed input, the packets below \<open>unack_seq_\<close> are dropped as if read.\<close>

function Receiver_discard :: "RingBuffer \<Rightarrow> u16 \<Rightarrow> RingBuffer option" where
  "Receiver_discard ring unack =
     (if \<not> RingBuffer_empty ring \<and> SeqNum_lt (rb_begin ring) unack then
        (case RingBuffer_pop ring of None \<Rightarrow> None | Some (ring', _) \<Rightarrow> Receiver_discard ring' unack)
      else Some ring)"
  by pat_completeness auto
termination
  by (relation "measure (\<lambda>(ring, _). used ring)") (auto simp: pop_eq used_pop split: if_splits)

declare Receiver_discard.simps [simp del]

text \<open>The part of \<open>handleDataPacket\<close> after the window has been made to hold \<open>seq\<close>.\<close>

definition Receiver_store ::
  "Receiver \<Rightarrow> SeqNum \<Rightarrow> byte list \<Rightarrow> bool \<Rightarrow> (Receiver \<times> bool \<times> bool) option" where
  "Receiver_store r seq payload is_final = do {
     let i = unat (RingBuffer_offset_for (rcv_in_ring r) seq);
     let b = rcv_in_buffers r ! i;
     b' \<leftarrow> (if ib_type b = kUnset
           then InBuffer_set b (if is_final then kFin else kData) payload (of_nat (length payload))
           else Some b);
     let r = r\<lparr>rcv_in_buffers := (rcv_in_buffers r)[i := b'],
               rcv_peer_closed := (is_final \<or> rcv_peer_closed r), rcv_needs_ack := True\<rparr>;
     if seq = rcv_unack_seq r then do {
       let (unack, packets) = Receiver_advance (rcv_in_ring r) (rcv_in_buffers r) (rcv_unack_seq r)
                                (rcv_packets_received r);
       let r = r\<lparr>rcv_unack_seq := unack, rcv_packets_received := packets\<rparr>;
       if rcv_self_closed r then do {
         ring \<leftarrow> Receiver_discard (rcv_in_ring r) unack;
         Some (r\<lparr>rcv_in_ring := ring\<rparr>, True, False)
       } else Some (r, True, True)
     } else Some (r, True, False)
   }"

text \<open>
  Result: new state, \<open>has_ack_to_send\<close>, \<open>has_new_data_to_read\<close>. The source's
  \<open>advance\<close> is unsigned: a negative difference is a number above every \<open>slotsFree()\<close>.
\<close>

definition Receiver_handleDataPacket ::
  "Receiver \<Rightarrow> bool \<Rightarrow> u16 \<Rightarrow> byte list \<Rightarrow> bool \<Rightarrow> (Receiver \<times> bool \<times> bool) option" where
  "Receiver_handleDataPacket r control_bit seq_id payload is_final =
     (if rcv_state r = R_kConnecting \<or> rcv_state r = R_kIdle then Some (r, False, False)
      else if control_bit = rcv_control_bit r then Some (r, False, False)
      else
        (let ring = rcv_in_ring r; seq = RingBuffer_restorePosHighBits ring seq_id 12
         in if RingBuffer_contains ring seq then Receiver_store r seq payload is_final
            else if SeqNum_lt seq (rb_begin ring) then Some (r\<lparr>rcv_needs_ack := True\<rparr>, True, False)
            else if rcv_peer_closed r then Some (r, False, False)
            else
              (let advance = SeqNum_diff seq (rb_end ring) + 1
               in if advance < 0 \<or> advance > uint (RingBuffer_slotsFree ring) then Some (r, False, False)
                  else do {
                    (ring, bufs) \<leftarrow> Receiver_extend (nat advance) ring (rcv_in_buffers r);
                    Receiver_store (r\<lparr>rcv_in_ring := ring, rcv_in_buffers := bufs\<rparr>) seq payload is_final
                  })))"

end
