(* ===== verification/Receiver_Spec.thy ===== *)
theory Receiver_Spec
  imports Receiver
begin

text \<open>
  What the receiver promises. Its window is abstracted to a list of slots, one per sequence
  number from \<open>in_ring_.begin()\<close> on: empty, or the fragment received for it. Accepting a
  packet fills one slot (\<open>accept\<close>), reading consumes the filled slots at the front, and
  \<open>unack_seq_\<close> points at the first gap. The operations of \<open>Receiver\<close> are shown to
  implement this and never to fail a \<open>CHECK\<close>.
\<close>

section \<open>The abstract receive window\<close>

type_synonym fragment = "byte list \<times> bool"

definition ib_slot :: "InBuffer \<Rightarrow> fragment option" where
  "ib_slot b = (if ib_type b = kUnset then None else Some (ib_bytes b, ib_type b = kFin))"

definition rcv_slots :: "Receiver \<Rightarrow> fragment option list" where
  "rcv_slots r = map ib_slot (contents (rcv_in_ring r) (rcv_in_buffers r))"

definition filled :: "fragment option list \<Rightarrow> nat" where
  "filled slots = length (takeWhile (\<lambda>x. x \<noteq> None) slots)"

definition accept :: "nat \<Rightarrow> fragment \<Rightarrow> fragment option list \<Rightarrow> fragment option list" where
  "accept d p slots =
     (let slots = slots @ replicate (Suc d - length slots) None
      in if slots ! d = None then slots[d := Some p] else slots)"

text \<open>The bytes of a run of filled slots, and those at the front of a window.\<close>

definition bytes_of :: "fragment option list \<Rightarrow> byte list" where
  "bytes_of slots = concat (map (\<lambda>x. case x of None \<Rightarrow> [] | Some (bs, _) \<Rightarrow> bs) slots)"

definition front :: "fragment option list \<Rightarrow> byte list" where
  "front slots = bytes_of (takeWhile (\<lambda>x. x \<noteq> None) slots)"

text \<open>The end-of-stream fragment, if there is one, is the last slot.\<close>

definition fin_last :: "fragment option list \<Rightarrow> bool" where
  "fin_last slots \<longleftrightarrow> (\<forall>i bs. Suc i < length slots \<longrightarrow> slots ! i \<noteq> Some (bs, True))"

declare not_None_eq [simp del]

lemma filled_simps [simp]:
  "filled [] = 0" "filled (None # xs) = 0" "filled (Some p # xs) = Suc (filled xs)"
  by (simp_all add: filled_def)

lemma filled_le: "filled xs \<le> length xs"
  by (simp add: filled_def length_takeWhile_le)

lemma filled_nth: "i < filled xs \<Longrightarrow> xs ! i \<noteq> None"
proof (induction xs arbitrary: i)
  case (Cons x xs)
  then show ?case
    by (cases x; cases i) simp_all
qed simp

lemma filled_at: "filled xs < length xs \<Longrightarrow> xs ! filled xs = None"
proof (induction xs)
  case (Cons x xs)
  then show ?case
    by (cases x) simp_all
qed simp

lemma filled_eqI:
  assumes "n \<le> length xs" "\<And>i. i < n \<Longrightarrow> xs ! i \<noteq> None" "n < length xs \<Longrightarrow> xs ! n = None"
  shows "filled xs = n"
proof (rule linorder_cases [of "filled xs" n])
  assume "filled xs < n"
  then show ?thesis
    using assms(1) assms(2) [of "filled xs"] filled_at [of xs] by simp
next
  assume "n < filled xs"
  then show ?thesis
    using assms(3) filled_nth [of n xs] filled_le [of xs] by simp
qed

lemma filled_append_None [simp]: "filled (xs @ replicate n None) = filled xs"
proof (induction xs)
  case Nil
  then show ?case
    by (cases n) simp_all
next
  case (Cons x xs)
  then show ?case
    by (cases x) simp_all
qed

lemma front_simps [simp]:
  "front [] = []" "front (None # xs) = []" "front (Some (bs, f) # xs) = bs @ front xs"
  by (simp_all add: front_def bytes_of_def)

lemma bytes_of_simps [simp]:
  "bytes_of [] = []" "bytes_of (None # xs) = bytes_of xs" "bytes_of (Some (bs, f) # xs) = bs @ bytes_of xs"
  by (simp_all add: bytes_of_def)

lemma bytes_of_append [simp]: "bytes_of (xs @ ys) = bytes_of xs @ bytes_of ys"
  by (simp add: bytes_of_def)

lemma fin_last_tl: "fin_last (x # xs) \<Longrightarrow> fin_last xs"
  unfolding fin_last_def by (intro allI impI) (drule_tac x = "Suc i" in spec, simp)

lemma fin_last_head: "fin_last (Some (bs, True) # xs) \<Longrightarrow> xs = []"
  unfolding fin_last_def by (drule spec [of _ 0]) simp

lemma length_accept: "length (accept d p slots) = max (Suc d) (length slots)"
  by (auto simp: accept_def Let_def max_def)

lemma nth_accept:
  assumes "i < length (accept d p slots)"
  shows "accept d p slots ! i =
    (if i < length slots \<and> (i \<noteq> d \<or> slots ! i \<noteq> None) then slots ! i
     else if i = d then Some p else None)"
  using assms [unfolded length_accept] by (auto simp: accept_def Let_def nth_append nth_list_update)

section \<open>The invariant\<close>

definition rcv_ok :: "Receiver \<Rightarrow> bool" where
  "rcv_ok r \<longleftrightarrow> ring_ok (rcv_in_ring r) \<and> length (rcv_in_buffers r) = cap (rcv_in_ring r)
     \<and> (\<forall>b \<in> set (rcv_in_buffers r). ib_ok b)"

text \<open>\<open>current_in_buffer_\<close> is the first buffer of the window, read up to a position in it.\<close>

definition cur_ok :: "Receiver \<Rightarrow> bool" where
  "cur_ok r \<longleftrightarrow> (\<forall>i. rcv_current_in_buffer r = Some i \<longrightarrow>
         0 < used (rcv_in_ring r) \<and> i = slot (rcv_in_ring r) (rb_begin (rcv_in_ring r))
         \<and> rcv_current_in_buffer_pos r \<le> ib_size (rcv_in_buffers r ! i))"

definition unack_ok :: "Receiver \<Rightarrow> bool" where
  "unack_ok r \<longleftrightarrow>
     rcv_unack_seq r = rb_begin (rcv_in_ring r) + of_nat (filled (rcv_slots r))"

definition rcv_inv :: "Receiver \<Rightarrow> bool" where
  "rcv_inv r \<longleftrightarrow> rcv_ok r \<and> cur_ok r \<and> unack_ok r"

definition rcv_pos :: "Receiver \<Rightarrow> nat" where
  "rcv_pos r = (if rcv_current_in_buffer r = None then 0 else unat (rcv_current_in_buffer_pos r))"

lemma length_rcv_slots [simp]: "length (rcv_slots r) = used (rcv_in_ring r)"
  by (simp add: rcv_slots_def)

lemma ib_slot_None [simp]: "ib_slot b = None \<longleftrightarrow> ib_type b = kUnset"
  by (simp add: ib_slot_def)

lemma ib_slot_clear [simp]: "ib_slot (InBuffer_clear b) = None"
  by (simp add: buf_simps)

lemma nth_rcv_slots:
  "i < used (rcv_in_ring r) \<Longrightarrow>
    rcv_slots r ! i = ib_slot (rcv_in_buffers r ! slot (rcv_in_ring r) (rb_begin (rcv_in_ring r) + of_nat i))"
  by (simp add: rcv_slots_def nth_contents)

text \<open>The invariant looks only at the window, its buffers, the read position and \<open>unack_seq_\<close>.\<close>

lemma rcv_ok_cong:
  "rcv_in_ring r' = rcv_in_ring r \<Longrightarrow> rcv_in_buffers r' = rcv_in_buffers r \<Longrightarrow> rcv_ok r' = rcv_ok r"
  by (simp add: rcv_ok_def)

lemma cur_ok_cong:
  "rcv_in_ring r' = rcv_in_ring r \<Longrightarrow> rcv_in_buffers r' = rcv_in_buffers r \<Longrightarrow>
   rcv_current_in_buffer r' = rcv_current_in_buffer r \<Longrightarrow>
   rcv_current_in_buffer_pos r' = rcv_current_in_buffer_pos r \<Longrightarrow> cur_ok r' = cur_ok r"
  by (simp add: cur_ok_def)

lemma rcv_slots_cong:
  "rcv_in_ring r' = rcv_in_ring r \<Longrightarrow> rcv_in_buffers r' = rcv_in_buffers r \<Longrightarrow> rcv_slots r' = rcv_slots r"
  by (simp add: rcv_slots_def)

section \<open>Accepting a packet\<close>

text \<open>Extending the window by \<open>n\<close> empty slots; the buffers of the old window stay.\<close>

lemma extend_spec:
  assumes "ring_ok ring" "length bufs = cap ring" "\<forall>b \<in> set bufs. ib_ok b" "used ring + n \<le> cap ring"
  obtains ring' bufs' where "Receiver_extend n ring bufs = Some (ring', bufs')"
    "ring_ok ring'" "length bufs' = cap ring'" "\<forall>b \<in> set bufs'. ib_ok b"
    "rb_begin ring' = rb_begin ring" "rb_capacity_log2 ring' = rb_capacity_log2 ring"
    "used ring' = used ring + n" "take (used ring) (contents ring' bufs') = contents ring bufs"
    "map ib_slot (contents ring' bufs') = map ib_slot (contents ring bufs) @ replicate n None"
  using assms
proof (induction n arbitrary: ring bufs thesis)
  case 0
  then show ?case
    by simp
next
  case (Suc n)
  let ?i = "slot ring (rb_end ring)"
  let ?ring = "ring\<lparr>rb_end := rb_end ring + 1\<rparr>" and ?bufs = "bufs[?i := InBuffer_clear (bufs ! ?i)]"
  have room: "used ring < cap ring" and u: "used ?ring = Suc (used ring)"
    using Suc.prems by (simp_all add: used_push)
  have i: "?i < length bufs"
    using Suc.prems by (simp add: offset_for_less)
  have ok: "\<forall>b \<in> set ?bufs. ib_ok b"
    using Suc.prems i by (auto dest!: set_update_subset_insert [THEN subsetD] intro: InBuffer_clear_ok)
  have c: "contents ?ring ?bufs = contents ring bufs @ [InBuffer_clear (bufs ! ?i)]"
    using Suc.prems room by (simp add: contents_push_update)
  obtain ring' bufs' where *: "Receiver_extend n ?ring ?bufs = Some (ring', bufs')"
    "ring_ok ring'" "length bufs' = cap ring'" "\<forall>b \<in> set bufs'. ib_ok b"
    "rb_begin ring' = rb_begin ring" "rb_capacity_log2 ring' = rb_capacity_log2 ring"
    "used ring' = used ?ring + n" "take (used ?ring) (contents ring' bufs') = contents ?ring ?bufs"
    "map ib_slot (contents ring' bufs') = map ib_slot (contents ?ring ?bufs) @ replicate n None"
    using Suc.IH [of ?ring ?bufs] Suc.prems room ok by (auto simp: ring_ok_push u)
  have "take (used ring) (take (used ?ring) (contents ring' bufs')) = contents ring bufs"
    unfolding *(8) c by simp
  then have t: "take (used ring) (contents ring' bufs') = contents ring bufs"
    by (simp add: u min_def)
  have "Receiver_extend (Suc n) ring bufs = Some (ring', bufs')"
    using Suc.prems room *(1) by (simp add: push_eq Let_def)
  then show ?case
    using Suc.prems(1) *(2-6) t *(7, 9) by (simp add: u c)
qed

text \<open>Advancing \<open>unack_seq_\<close> from a filled slot ends at the next gap.\<close>

lemma advance_spec:
  assumes "ring_ok ring" "slots = map ib_slot (contents ring bufs)"
    and "m < length slots" "\<And>i. i \<le> m \<Longrightarrow> slots ! i \<noteq> None"
  shows "Receiver_advance ring bufs (rb_begin ring + of_nat m) packets =
    (rb_begin ring + of_nat (filled slots), packets + of_nat (filled slots - m))"
  using assms(3, 4)
proof (induction "length slots - m" arbitrary: m packets)
  case 0
  then show ?case
    by simp
next
  case (Suc n)
  let ?s = "rb_begin ring + of_nat m + 1 :: u16"
  have s: "?s = rb_begin ring + of_nat (Suc m)"
    by simp
  have m: "Suc m \<le> used ring" "used ring \<le> 1024"
    using Suc.prems used_le [OF assms(1)] by (simp_all add: assms(2))
  have c: "RingBuffer_contains ring ?s \<longleftrightarrow> Suc m < used ring"
    using contains_pos [OF assms(1), of "Suc m"] m unfolding s by simp
  have len: "length slots = used ring"
    by (simp add: assms(2))
  have g: "Suc m < used ring \<Longrightarrow> ib_type (bufs ! slot ring ?s) \<noteq> kUnset \<longleftrightarrow> slots ! Suc m \<noteq> None"
    unfolding s assms(2) by (simp add: nth_contents)
  show ?case
  proof (cases "Suc m < used ring \<and> slots ! Suc m \<noteq> None")
    case True
    then have le: "i \<le> Suc m \<Longrightarrow> slots ! i \<noteq> None" for i
      using Suc.prems(2) by (cases "i = Suc m") (auto simp: le_Suc_eq)
    have "Suc m < filled slots"
      using le True filled_at [of slots] by (metis len not_less order_le_less_trans)
    then have "packets + 1 + of_nat (filled slots - Suc m) = packets + of_nat (filled slots - m)"
      by (simp add: of_nat_diff)
    then show ?thesis
      using Suc.hyps(1) [of "Suc m" "packets + 1"] Suc.hyps(2) le True c g
      by (subst Receiver_advance.simps) (simp add: assms(2) s [symmetric] Let_def del: of_nat_Suc)
  next
    case False
    then have "filled slots = Suc m"
      using Suc.prems len by (intro filled_eqI) (auto simp: less_Suc_eq_le)
    then show ?thesis
      using False c g by (subst Receiver_advance.simps) (auto simp: Let_def algebra_simps)
  qed
qed

lemma discard_spec:
  assumes "ring_ok ring"
  obtains k where "Receiver_discard ring u = Some (ring\<lparr>rb_begin := rb_begin ring + of_nat k\<rparr>)"
    "ring_ok (ring\<lparr>rb_begin := rb_begin ring + of_nat k\<rparr>)"
  using assms
proof (induction ring u arbitrary: thesis rule: Receiver_discard.induct)
  case (1 ring u)
  show ?case
  proof (cases "\<not> RingBuffer_empty ring \<and> SeqNum_lt (rb_begin ring) u")
    case True
    let ?ring = "ring\<lparr>rb_begin := rb_begin ring + 1\<rparr>"
    have pop: "RingBuffer_pop ring = Some (?ring, rb_begin ring)" and ok: "ring_ok ?ring"
      using True 1 by (simp_all add: pop_eq rb_simps ring_ok_pop)
    obtain k where k: "Receiver_discard ?ring u = Some (?ring\<lparr>rb_begin := rb_begin ?ring + of_nat k\<rparr>)"
      "ring_ok (?ring\<lparr>rb_begin := rb_begin ?ring + of_nat k\<rparr>)"
      using 1(1) [OF True pop refl _ ok] by metis
    have "rb_begin ?ring + of_nat k = rb_begin ring + of_nat (Suc k)"
      by simp
    then show ?thesis
      using k True pop by (intro 1(2) [of "Suc k"]) (simp_all add: Receiver_discard.simps [of ring] add.assoc)
  next
    case False
    then show ?thesis
      using 1 by (intro 1(2) [of 0]) (auto simp: Receiver_discard.simps [of ring])
  qed
qed

text \<open>What a data packet never changes.\<close>

definition rcv_frame :: "Receiver \<Rightarrow> Receiver \<Rightarrow> bool" where
  "rcv_frame r r' \<longleftrightarrow> rcv_state r' = rcv_state r \<and> rcv_control_bit r' = rcv_control_bit r
     \<and> rcv_self_closed r' = rcv_self_closed r \<and> rcv_my_stream_id r' = rcv_my_stream_id r
     \<and> rb_capacity_log2 (rcv_in_ring r') = rb_capacity_log2 (rcv_in_ring r)"

text \<open>The buffer that a packet selects, after the packet.\<close>

definition put :: "byte list \<Rightarrow> bool \<Rightarrow> InBuffer \<Rightarrow> InBuffer option" where
  "put payload is_final b =
     (if ib_type b = kUnset
      then InBuffer_set b (if is_final then kFin else kData) payload (of_nat (length payload))
      else Some b)"

lemma put_spec:
  assumes "ib_ok b" "length payload \<le> 248"
  obtains b' where "put payload is_final b = Some b'" "ib_ok b'" "ib_type b' \<noteq> kUnset"
    "ib_slot b' = (if ib_slot b = None then Some (payload, is_final) else ib_slot b)"
    "ib_type b \<noteq> kUnset \<longrightarrow> b' = b"
proof (cases "ib_type b = kUnset")
  case True
  obtain b' where "InBuffer_set b (if is_final then kFin else kData) payload (of_nat (length payload)) = Some b'"
    "ib_ok b'" "ib_type b' = (if is_final then kFin else kData)" "ib_bytes b' = payload"
    by (rule InBuffer_set_spec [OF assms, of "if is_final then kFin else kData"]) (auto split: if_splits)
  then show ?thesis
    using True that by (auto simp: ib_slot_def put_def)
qed (use assms that in \<open>auto simp: put_def\<close>)

text \<open>Storing a fragment in the window, before \<open>unack_seq_\<close> is looked at.\<close>

definition stored :: "Receiver \<Rightarrow> nat \<Rightarrow> InBuffer \<Rightarrow> bool \<Rightarrow> Receiver" where
  "stored r d b is_final = r\<lparr>rcv_in_buffers := (rcv_in_buffers r)
       [slot (rcv_in_ring r) (rb_begin (rcv_in_ring r) + of_nat d) := b],
     rcv_peer_closed := (is_final \<or> rcv_peer_closed r), rcv_needs_ack := True\<rparr>"

lemma Receiver_store_eq:
  assumes "seq = rb_begin (rcv_in_ring r) + of_nat d"
    and "put payload is_final (rcv_in_buffers r ! slot (rcv_in_ring r) seq) = Some b"
    and "r1 = stored r d b is_final"
    and "(unack, packets) = Receiver_advance (rcv_in_ring r) (rcv_in_buffers r1) (rcv_unack_seq r)
      (rcv_packets_received r)"
  shows "Receiver_store r seq payload is_final =
    (if seq = rcv_unack_seq r then
       let r2 = r1\<lparr>rcv_unack_seq := unack, rcv_packets_received := packets\<rparr>
       in if rcv_self_closed r then
            (case Receiver_discard (rcv_in_ring r) unack of None \<Rightarrow> None
             | Some ring \<Rightarrow> Some (r2\<lparr>rcv_in_ring := ring\<rparr>, True, False))
          else Some (r2, True, True)
     else Some (r1, True, False))"
  using assms(2-4) unfolding Receiver_store_def put_def stored_def assms(1)
  by (auto simp: Let_def split: option.splits prod.splits)

lemma stored_ring [simp]: "rcv_in_ring (stored r d b is_final) = rcv_in_ring r"
  by (simp add: stored_def)

lemma stored_spec:
  assumes "rcv_ok r" "d < used (rcv_in_ring r)" "length payload \<le> 248"
  obtains b where
    "put payload is_final (rcv_in_buffers r ! slot (rcv_in_ring r) (rb_begin (rcv_in_ring r) + of_nat d)) = Some b"
    "rcv_ok (stored r d b is_final)" "cur_ok r \<Longrightarrow> cur_ok (stored r d b is_final)"
    "rcv_slots (stored r d b is_final) = accept d (payload, is_final) (rcv_slots r)"
    "rcv_slots (stored r d b is_final) ! d \<noteq> None"
proof -
  let ?i = "slot (rcv_in_ring r) (rb_begin (rcv_in_ring r) + of_nat d)"
  let ?b = "rcv_in_buffers r ! ?i"
  have ok: "ring_ok (rcv_in_ring r)" "length (rcv_in_buffers r) = cap (rcv_in_ring r)"
    "\<forall>b \<in> set (rcv_in_buffers r). ib_ok b"
    using assms by (simp_all add: rcv_ok_def)
  have i: "?i < length (rcv_in_buffers r)"
    using ok by (simp add: offset_for_less)
  obtain b where b: "put payload is_final ?b = Some b" "ib_ok b" "ib_type b \<noteq> kUnset"
    "ib_slot b = (if ib_slot ?b = None then Some (payload, is_final) else ib_slot ?b)"
    "ib_type ?b \<noteq> kUnset \<longrightarrow> b = ?b"
    using put_spec [of ?b payload is_final] ok i assms(3) by (metis nth_mem)
  have 1: "rcv_ok (stored r d b is_final)"
    using ok b(2) by (auto simp: rcv_ok_def stored_def dest!: set_update_subset_insert [THEN subsetD])
  have slots: "rcv_slots (stored r d b is_final) = (rcv_slots r)[d := ib_slot b]"
    using contents_update [OF ok(1, 2) assms(2), of b] by (simp add: rcv_slots_def stored_def map_update)
  have nth: "rcv_slots r ! d = ib_slot ?b"
    using assms(2) by (simp add: nth_rcv_slots)
  have 2: "rcv_slots (stored r d b is_final) = accept d (payload, is_final) (rcv_slots r)"
  proof (rule nth_equalityI)
    fix j assume "j < length (rcv_slots (stored r d b is_final))"
    then show "rcv_slots (stored r d b is_final) ! j = accept d (payload, is_final) (rcv_slots r) ! j"
      using assms(2) b(4) nth unfolding slots
      by (subst nth_accept) (auto simp: length_accept nth_list_update)
  qed (use assms(2) in \<open>simp add: length_accept slots\<close>)
  have 3: "cur_ok (stored r d b is_final)" if c: "cur_ok r"
  proof (cases "rcv_current_in_buffer r")
    case (Some i')
    then have "rcv_current_in_buffer_pos r = 0" if "ib_type ?b = kUnset" "i' = ?i"
      using c that ok i by (auto simp: cur_ok_def ib_ok_def)
    then show ?thesis
      using c b(5) Some i by (cases "i' = ?i"; cases "ib_type ?b = kUnset") (auto simp: cur_ok_def stored_def)
  qed (simp add: cur_ok_def stored_def)
  have 4: "rcv_slots (stored r d b is_final) ! d \<noteq> None"
    unfolding slots using b(3) assms(2) by simp
  show ?thesis
    by (rule that [OF b(1) 1 3 2 4])
qed

text \<open>No data packet that the packet layer can deliver aborts, whatever the state.\<close>

lemma store_ok:
  assumes "rcv_ok r" "d < used (rcv_in_ring r)" "length payload \<le> 248"
  shows "\<exists>r' a n. Receiver_store r (rb_begin (rcv_in_ring r) + of_nat d) payload is_final = Some (r', a, n)
    \<and> rcv_ok r' \<and> rcv_frame r r'"
proof -
  obtain b where b: "put payload is_final (rcv_in_buffers r !
      slot (rcv_in_ring r) (rb_begin (rcv_in_ring r) + of_nat d)) = Some b"
    and ok: "rcv_ok (stored r d b is_final)"
    using stored_spec [OF assms, of is_final] by metis
  let ?r1 = "stored r d b is_final"
  obtain unack packets where a: "(unack, packets) = Receiver_advance (rcv_in_ring r)
      (rcv_in_buffers ?r1) (rcv_unack_seq r) (rcv_packets_received r)"
    by (metis surj_pair)
  have "ring_ok (rcv_in_ring r)"
    using assms by (simp add: rcv_ok_def)
  then obtain k where "Receiver_discard (rcv_in_ring r) unack
      = Some ((rcv_in_ring r)\<lparr>rb_begin := rb_begin (rcv_in_ring r) + of_nat k\<rparr>)"
    "ring_ok ((rcv_in_ring r)\<lparr>rb_begin := rb_begin (rcv_in_ring r) + of_nat k\<rparr>)"
    by (rule discard_spec)
  then show ?thesis
    using ok unfolding Receiver_store_eq [OF refl b refl a] 
    by (auto simp: Let_def rcv_ok_def rcv_frame_def stored_def)
qed

text \<open>In an open connection, the window holds one more fragment and \<open>unack_seq_\<close> is at its first gap.\<close>

lemma store_spec:
  assumes inv: "rcv_inv r" and opn: "\<not> rcv_self_closed r"
    and d: "d < used (rcv_in_ring r)" and len: "length payload \<le> 248"
    and seq: "seq = rb_begin (rcv_in_ring r) + of_nat d"
  shows "\<exists>r'. Receiver_store r seq payload is_final = Some (r', True, seq = rcv_unack_seq r)
    \<and> rcv_inv r' \<and> rcv_slots r' = accept d (payload, is_final) (rcv_slots r)
    \<and> rcv_in_ring r' = rcv_in_ring r \<and> rcv_pos r' = rcv_pos r \<and> rcv_needs_ack r'
    \<and> rcv_peer_closed r' = (is_final \<or> rcv_peer_closed r) \<and> rcv_end_of_stream r' = rcv_end_of_stream r
    \<and> rcv_packets_received r' = rcv_packets_received r + of_nat (filled (rcv_slots r') - filled (rcv_slots r))
    \<and> rcv_frame r r'"
proof -
  let ?ring = "rcv_in_ring r" and ?m = "filled (rcv_slots r)"
  have ok: "rcv_ok r" "cur_ok r" "unack_ok r" "ring_ok ?ring"
    using inv by (simp_all add: rcv_inv_def rcv_ok_def)
  obtain b where b: "put payload is_final (rcv_in_buffers r ! slot ?ring (rb_begin ?ring + of_nat d)) = Some b"
    and s: "rcv_ok (stored r d b is_final)" "cur_ok (stored r d b is_final)"
      "rcv_slots (stored r d b is_final) = accept d (payload, is_final) (rcv_slots r)"
      "rcv_slots (stored r d b is_final) ! d \<noteq> None"
    using stored_spec [OF ok(1) d len, of is_final] ok(2) by metis
  let ?r1 = "stored r d b is_final"
  let ?slots = "rcv_slots ?r1"
  have slots: "?slots = map ib_slot (contents ?ring (rcv_in_buffers ?r1))"
    by (simp add: rcv_slots_def stored_def)
  have same: "?slots ! i = rcv_slots r ! i" if "i < used ?ring" "i \<noteq> d" for i
    using that d unfolding s(3) by (subst nth_accept) (auto simp: length_accept)
  have m: "?m \<le> used ?ring" "used ?ring \<le> 1024" "rcv_unack_seq r = rb_begin ?ring + of_nat ?m"
    using filled_le [of "rcv_slots r"] used_le ok(3, 4) by (simp_all add: unack_ok_def)
  have hit: "seq = rcv_unack_seq r \<longleftrightarrow> d = ?m"
    unfolding seq m(3) using m d by (subst add_of_nat_inject) auto
  obtain unack packets where a: "(unack, packets) = Receiver_advance ?ring
      (rcv_in_buffers ?r1) (rcv_unack_seq r) (rcv_packets_received r)"
    by (metis surj_pair)
  have adv: "unack = rb_begin ?ring + of_nat (filled ?slots)
      \<and> packets = rcv_packets_received r + of_nat (filled ?slots - ?m)" if "d = ?m"
  proof -
    have "?slots ! i \<noteq> None" if "i \<le> ?m" for i
      using that same [of i] filled_nth [of i "rcv_slots r"] d s(4) \<open>d = ?m\<close> by (cases "i = d") auto
    then show ?thesis
      using advance_spec [OF ok(4) slots, of ?m "rcv_packets_received r"] a d \<open>d = ?m\<close>
      by (simp add: m(3) slots)
  qed
  have miss: "filled ?slots = ?m" if "d \<noteq> ?m"
  proof (rule filled_eqI)
    fix i assume "i < ?m"
    then show "?slots ! i \<noteq> None"
      using same [of i] filled_nth [of i "rcv_slots r"] m s(4) by (cases "i = d") auto
  qed (use m that same [of ?m] filled_at [of "rcv_slots r"] in \<open>auto simp: slots\<close>)
  let ?r2 = "?r1\<lparr>rcv_unack_seq := unack, rcv_packets_received := packets\<rparr>"
  let ?r' = "if d = ?m then ?r2 else ?r1"
  have "Receiver_store r seq payload is_final = Some (?r', True, seq = rcv_unack_seq r)"
    using Receiver_store_eq [OF seq b [folded seq] refl a] opn hit by (simp add: Let_def)
  moreover have slots': "rcv_slots ?r' = ?slots"
    by (simp add: rcv_slots_def)
  moreover have "rcv_ok ?r'" "cur_ok ?r'"
    using s(1, 2) rcv_ok_cong [of ?r2 ?r1] cur_ok_cong [of ?r2 ?r1] by auto
  moreover have "unack_ok ?r'"
    unfolding unack_ok_def slots' using adv miss m(3) by (simp add: stored_def)
  moreover have "rcv_packets_received ?r' = rcv_packets_received r + of_nat (filled ?slots - ?m)"
    using adv miss by (auto simp: stored_def)
  ultimately show ?thesis
    using s(3) unfolding rcv_inv_def
    by (intro exI [of _ ?r'] conjI) (auto simp: stored_def rcv_pos_def rcv_frame_def)
qed

section \<open>\<open>handleDataPacket\<close>\<close>

text \<open>The position that a packet is taken for, relative to the start of the window.\<close>

definition rcv_seq :: "Receiver \<Rightarrow> u16 \<Rightarrow> SeqNum" where
  "rcv_seq r seq_id = RingBuffer_restorePosHighBits (rcv_in_ring r) seq_id 12"

definition rcv_ahead :: "Receiver \<Rightarrow> u16 \<Rightarrow> nat" where
  "rcv_ahead r seq_id = unat (rcv_seq r seq_id - rb_begin (rcv_in_ring r))"

text \<open>A packet is behind the window when its distance ahead does not fit.\<close>

lemma rcv_ahead_cases:
  assumes "ring_ok (rcv_in_ring r)"
  shows "rcv_ahead r seq_id < 2048
      \<and> \<not> SeqNum_lt (rcv_seq r seq_id) (rb_begin (rcv_in_ring r))
      \<and> (RingBuffer_contains (rcv_in_ring r) (rcv_seq r seq_id) \<longleftrightarrow> rcv_ahead r seq_id < used (rcv_in_ring r))
    \<or> 2048 \<le> rcv_ahead r seq_id
      \<and> SeqNum_lt (rcv_seq r seq_id) (rb_begin (rcv_in_ring r))
      \<and> \<not> RingBuffer_contains (rcv_in_ring r) (rcv_seq r seq_id)"
proof -
  let ?s = "rcv_seq r seq_id" and ?b = "rb_begin (rcv_in_ring r)"
  have u: "used (rcv_in_ring r) \<le> 1024"
    using used_le assms by simp
  have "unat (?s - ?b) < 2048 \<or> 0 < unat (?b - ?s) \<and> unat (?b - ?s) \<le> 2048"
    unfolding rcv_seq_def by (rule near_ahead_behind [OF restorePosHighBits_range])
  then consider "unat (?s - ?b) < 2048" | "0 < unat (?b - ?s)" "unat (?b - ?s) \<le> 2048"
    by linarith
  then show ?thesis
  proof cases
    case 1
    have "unat (?b - ?s) = 0 \<or> 63488 < unat (?b - ?s)"
      using 1 unat_minus_u16 [of "?s - ?b"] by auto
    then have "\<not> SeqNum_lt ?s ?b"
      by (auto simp: SeqNum_lt_iff_dist)
    moreover have "?s \<noteq> ?b + 32768"
      using 1 by auto
    ultimately show ?thesis
      using 1 contains_near [OF assms, of ?s] by (simp add: rcv_ahead_def)
  next
    case 2
    have d: "unat (?s - ?b) = 65536 - unat (?b - ?s)"
      using 2 unat_minus_u16 [of "?b - ?s"] by auto
    then have "?s \<noteq> ?b + 32768"
      using 2 by auto
    moreover have "63488 \<le> unat (?s - ?b)"
      using 2 d by linarith
    ultimately show ?thesis
      using 2 u contains_near [OF assms, of ?s] by (simp add: rcv_ahead_def SeqNum_lt_iff_dist)
  qed
qed

lemma advance_count:
  assumes "ring_ok (rcv_in_ring r)" "rcv_ahead r seq_id < 2048"
    and "used (rcv_in_ring r) \<le> rcv_ahead r seq_id"
  shows "SeqNum_diff (rcv_seq r seq_id) (rb_end (rcv_in_ring r)) + 1
    = int (Suc (rcv_ahead r seq_id) - used (rcv_in_ring r))"
proof -
  let ?s = "rcv_seq r seq_id" and ?ring = "rcv_in_ring r"
  have "unat (?s - rb_end ?ring) = rcv_ahead r seq_id - used ?ring"
    using dist_split [of "rb_end ?ring" "rb_begin ?ring" ?s] assms by (simp add: used_def rcv_ahead_def)
  then show ?thesis
    using assms by (subst SeqNum_diff_dist) auto
qed

text \<open>A packet for a position inside the window, or beyond it while there is room.\<close>

definition acceptable :: "Receiver \<Rightarrow> nat \<Rightarrow> bool" where
  "acceptable r d \<longleftrightarrow> d < used (rcv_in_ring r) \<or> \<not> rcv_peer_closed r \<and> d < cap (rcv_in_ring r)"

definition rcv_active :: "Receiver \<Rightarrow> bool" where
  "rcv_active r \<longleftrightarrow> rcv_state r \<noteq> R_kConnecting \<and> rcv_state r \<noteq> R_kIdle"

text \<open>The window after it has been extended to hold position \<open>d\<close>.\<close>

lemma widen_spec:
  assumes "rcv_ok r" "acceptable r d" "d < 2048"
    and "d = rcv_ahead r seq_id" "rcv_active r" "control_bit \<noteq> rcv_control_bit r"
  obtains r1 where
    "Receiver_handleDataPacket r control_bit seq_id payload is_final
      = Receiver_store r1 (rb_begin (rcv_in_ring r1) + of_nat d) payload is_final"
    "rcv_ok r1" "d < used (rcv_in_ring r1)" "rb_begin (rcv_in_ring r1) = rb_begin (rcv_in_ring r)"
    "rcv_slots r1 = rcv_slots r @ replicate (Suc d - used (rcv_in_ring r)) None"
    "cur_ok r \<Longrightarrow> cur_ok r1" "rcv_pos r1 = rcv_pos r" "rcv_frame r r1"
    "rcv_unack_seq r1 = rcv_unack_seq r" "rcv_peer_closed r1 = rcv_peer_closed r"
    "rcv_end_of_stream r1 = rcv_end_of_stream r" "rcv_packets_received r1 = rcv_packets_received r"
proof -
  let ?ring = "rcv_in_ring r" and ?s = "rcv_seq r seq_id"
  have ring: "ring_ok ?ring" "length (rcv_in_buffers r) = cap ?ring" "\<forall>b \<in> set (rcv_in_buffers r). ib_ok b"
    using assms(1) by (simp_all add: rcv_ok_def)
  have s: "rb_begin ?ring + of_nat d = ?s"
    by (simp add: assms(4) rcv_ahead_def)
  have c: "\<not> SeqNum_lt ?s (rb_begin ?ring)" "RingBuffer_contains ?ring ?s \<longleftrightarrow> d < used ?ring"
    using rcv_ahead_cases [OF ring(1), of seq_id] assms(3, 4) by auto
  note handle = Receiver_handleDataPacket_def rcv_seq_def [symmetric] Let_def
  show ?thesis
  proof (cases "d < used ?ring")
    case True
    then show ?thesis
      using assms(1, 5, 6) c by (intro that [of r]) (simp_all add: handle rcv_active_def rcv_frame_def s)
  next
    case False
    let ?n = "Suc d - used ?ring"
    have fits: "used ?ring + ?n \<le> cap ?ring" and nc: "\<not> rcv_peer_closed r"
      using assms(2) False by (auto simp: acceptable_def)
    obtain ring' bufs' where e: "Receiver_extend ?n ?ring (rcv_in_buffers r) = Some (ring', bufs')"
      "ring_ok ring'" "length bufs' = cap ring'" "\<forall>b \<in> set bufs'. ib_ok b"
      "rb_begin ring' = rb_begin ?ring" "rb_capacity_log2 ring' = rb_capacity_log2 ?ring"
      "used ring' = used ?ring + ?n" "take (used ?ring) (contents ring' bufs') = contents ?ring (rcv_in_buffers r)"
      "map ib_slot (contents ring' bufs') = map ib_slot (contents ?ring (rcv_in_buffers r)) @ replicate ?n None"
      using extend_spec [OF ring fits] by metis
    let ?r1 = "r\<lparr>rcv_in_ring := ring', rcv_in_buffers := bufs'\<rparr>"
    have adv: "SeqNum_diff ?s (rb_end ?ring) + 1 = int ?n"
      using advance_count [OF ring(1)] False assms(3, 4) by simp
    have "\<not> (SeqNum_diff ?s (rb_end ?ring) + 1 < 0
        \<or> SeqNum_diff ?s (rb_end ?ring) + 1 > uint (RingBuffer_slotsFree ?ring))"
      unfolding adv using fits by (simp add: uint_nat unat_slotsFree [OF ring(1)] del: unsigned_of_nat)
    then have 1: "Receiver_handleDataPacket r control_bit seq_id payload is_final
      = Receiver_store ?r1 (rb_begin ring' + of_nat d) payload is_final"
      using assms(5, 6) c False nc e(1) adv [THEN arg_cong [of _ _ nat], unfolded nat_int]
      by (simp add: handle rcv_active_def e(5) s)
    have "cur_ok ?r1" if cur: "cur_ok r"
    proof (cases "rcv_current_in_buffer r")
      case (Some i)
      then have u: "0 < used ?ring" and i: "i = slot ?ring (rb_begin ?ring)"
        using cur by (simp_all add: cur_ok_def)
      have "contents ring' bufs' ! 0 = contents ?ring (rcv_in_buffers r) ! 0"
        using u by (subst e(8) [symmetric]) simp
      then have "bufs' ! slot ?ring (rb_begin ?ring) = rcv_in_buffers r ! slot ?ring (rb_begin ?ring)"
        using u e(5, 6, 7) by (simp add: nth_contents RingBuffer_offset_for_def RingBuffer_capacity_def)
      then show ?thesis
        using cur Some u e(5, 6, 7) unfolding cur_ok_def i
        by (simp add: RingBuffer_offset_for_def RingBuffer_capacity_def)
    qed (simp add: cur_ok_def)
    then show ?thesis
      using e(2-7, 9) 1 False
      by (intro that [of ?r1]) (auto simp: rcv_ok_def rcv_slots_def rcv_pos_def rcv_frame_def)
  qed
qed

lemma handle_ignored:
  assumes "\<not> rcv_active r \<or> control_bit = rcv_control_bit r"
  shows "Receiver_handleDataPacket r control_bit seq_id payload is_final = Some (r, False, False)"
  using assms by (auto simp: Receiver_handleDataPacket_def rcv_active_def)

lemma handle_stale:
  assumes "rcv_ok r" "rcv_active r" "control_bit \<noteq> rcv_control_bit r" "2048 \<le> rcv_ahead r seq_id"
  shows "Receiver_handleDataPacket r control_bit seq_id payload is_final
    = Some (r\<lparr>rcv_needs_ack := True\<rparr>, True, False)"
  using assms rcv_ahead_cases [of r seq_id]
  by (auto simp: Receiver_handleDataPacket_def rcv_active_def rcv_ok_def rcv_seq_def Let_def)

lemma handle_rejected:
  assumes "rcv_ok r" "rcv_active r" "control_bit \<noteq> rcv_control_bit r" "rcv_ahead r seq_id < 2048"
    and "\<not> acceptable r (rcv_ahead r seq_id)"
  shows "Receiver_handleDataPacket r control_bit seq_id payload is_final = Some (r, False, False)"
proof -
  let ?ring = "rcv_in_ring r" and ?s = "rcv_seq r seq_id"
  have ring: "ring_ok ?ring"
    using assms by (simp add: rcv_ok_def)
  have far: "used ?ring \<le> rcv_ahead r seq_id" "\<not> rcv_peer_closed r \<Longrightarrow> cap ?ring \<le> rcv_ahead r seq_id"
    using assms(5) by (auto simp: acceptable_def)
  have c: "\<not> SeqNum_lt ?s (rb_begin ?ring)" "\<not> RingBuffer_contains ?ring ?s"
    using rcv_ahead_cases [OF ring, of seq_id] assms(4) far by auto
  have "uint (RingBuffer_slotsFree ?ring) < SeqNum_diff ?s (rb_end ?ring) + 1" if "\<not> rcv_peer_closed r"
    unfolding advance_count [OF ring assms(4) far(1)]
    using far(2) [OF that] used_le_cap [OF ring]
    by (simp add: uint_nat unat_slotsFree [OF ring] del: unsigned_of_nat)
  then show ?thesis
    using assms(2, 3) c
    by (auto simp: Receiver_handleDataPacket_def rcv_active_def rcv_seq_def [symmetric] Let_def)
qed

lemma handle_accepted:
  assumes "rcv_inv r" "rcv_active r" "control_bit \<noteq> rcv_control_bit r" "\<not> rcv_self_closed r"
    and "d = rcv_ahead r seq_id" "d < 2048" "acceptable r d" "length payload \<le> 248"
  shows "\<exists>r'. Receiver_handleDataPacket r control_bit seq_id payload is_final
      = Some (r', True, d = filled (rcv_slots r))
    \<and> rcv_inv r' \<and> rcv_slots r' = accept d (payload, is_final) (rcv_slots r)
    \<and> rb_begin (rcv_in_ring r') = rb_begin (rcv_in_ring r) \<and> rcv_pos r' = rcv_pos r \<and> rcv_needs_ack r'
    \<and> rcv_peer_closed r' = (is_final \<or> rcv_peer_closed r) \<and> rcv_end_of_stream r' = rcv_end_of_stream r
    \<and> rcv_packets_received r' = rcv_packets_received r + of_nat (filled (rcv_slots r') - filled (rcv_slots r))
    \<and> rcv_frame r r'"
proof -
  have ok: "rcv_ok r" "cur_ok r" "unack_ok r"
    using assms(1) by (simp_all add: rcv_inv_def)
  obtain r1 where r1: "Receiver_handleDataPacket r control_bit seq_id payload is_final
      = Receiver_store r1 (rb_begin (rcv_in_ring r1) + of_nat d) payload is_final"
    "rcv_ok r1" "d < used (rcv_in_ring r1)" "rb_begin (rcv_in_ring r1) = rb_begin (rcv_in_ring r)"
    "rcv_slots r1 = rcv_slots r @ replicate (Suc d - used (rcv_in_ring r)) None"
    "cur_ok r1" "rcv_pos r1 = rcv_pos r" "rcv_frame r r1"
    "rcv_unack_seq r1 = rcv_unack_seq r" "rcv_peer_closed r1 = rcv_peer_closed r"
    "rcv_end_of_stream r1 = rcv_end_of_stream r" "rcv_packets_received r1 = rcv_packets_received r"
    using widen_spec [OF ok(1) assms(7, 6, 5, 2, 3), of payload is_final] ok(2) by metis
  have f: "filled (rcv_slots r1) = filled (rcv_slots r)"
    unfolding r1(5) by simp
  have u: "unack_ok r1"
    using ok(3) f r1(4, 9) by (simp add: unack_ok_def)
  have inv: "rcv_inv r1" and sc: "\<not> rcv_self_closed r1"
    using u r1(2, 6, 8) assms(4) by (simp_all add: rcv_inv_def rcv_frame_def)
  have hit: "rb_begin (rcv_in_ring r1) + of_nat d = rcv_unack_seq r1 \<longleftrightarrow> d = filled (rcv_slots r)"
    using u [unfolded unack_ok_def f] add_of_nat_inject [of d "filled (rcv_slots r)"] r1(2, 3) f
      used_le [of "rcv_in_ring r1"] filled_le [of "rcv_slots r1"] by (simp add: rcv_ok_def)
  have acc: "accept d p (rcv_slots r1) = accept d p (rcv_slots r)" for p
    unfolding r1(5) using r1(3) by (simp add: accept_def Let_def)
  show ?thesis
    using store_spec [OF inv sc r1(3) assms(8) refl, of is_final] r1(1, 4, 7, 8, 10, 11, 12)
    unfolding hit acc f by (auto simp: rcv_frame_def)
qed

text \<open>Whatever arrives, in whatever state: the packet is processed without an abort.\<close>

lemma handle_total:
  assumes "rcv_ok r" "length payload \<le> 248"
  shows "\<exists>r' a n. Receiver_handleDataPacket r control_bit seq_id payload is_final = Some (r', a, n)
    \<and> rcv_ok r' \<and> rcv_frame r r'"
proof -
  let ?d = "rcv_ahead r seq_id"
  consider "\<not> rcv_active r \<or> control_bit = rcv_control_bit r"
    | "rcv_active r" "control_bit \<noteq> rcv_control_bit r" "2048 \<le> ?d"
    | "rcv_active r" "control_bit \<noteq> rcv_control_bit r" "?d < 2048" "\<not> acceptable r ?d"
    | "rcv_active r" "control_bit \<noteq> rcv_control_bit r" "?d < 2048" "acceptable r ?d"
    by linarith
  then show ?thesis
  proof cases
    case 4
    obtain r1 where r1: "Receiver_handleDataPacket r control_bit seq_id payload is_final
        = Receiver_store r1 (rb_begin (rcv_in_ring r1) + of_nat ?d) payload is_final"
      "rcv_ok r1" "?d < used (rcv_in_ring r1)" "rcv_frame r r1"
      using widen_spec [OF assms(1) 4(4, 3) refl 4(1, 2), of payload is_final] by metis
    then show ?thesis
      using store_ok [OF r1(2, 3) assms(2), of is_final] by (auto simp: rcv_frame_def)
  qed (use assms(1) in \<open>auto simp: handle_ignored handle_stale handle_rejected rcv_frame_def rcv_ok_def\<close>)
qed

end
