(* ===== verification/Receiver_Read.thy ===== *)
theory Receiver_Read
  imports Receiver_Spec
begin

text \<open>
  The reading side of the receiver: \<open>tryRead\<close> returns the bytes at the front of the
  abstract window, in order, up to the first gap, and consumes exactly what it returns;
  \<open>peek\<close> and \<open>availableForRead\<close> announce what \<open>tryRead\<close> would return.
\<close>

section \<open>One iteration\<close>

text \<open>The state once a buffer is selected, and once that buffer is drained.\<close>

definition selected :: "Receiver \<Rightarrow> Receiver" where
  "selected r = (if rcv_current_in_buffer r = None
     then r\<lparr>rcv_current_in_buffer := Some (slot (rcv_in_ring r) (rb_begin (rcv_in_ring r))),
            rcv_current_in_buffer_pos := 0\<rparr>
     else r)"

definition released :: "lib \<Rightarrow> Receiver \<Rightarrow> Receiver" where
  "released L r =
     (let i = slot (rcv_in_ring r) (rb_begin (rcv_in_ring r))
      in (selected r)\<lparr>rcv_in_buffers := (rcv_in_buffers r)[i := InBuffer_clear (rcv_in_buffers r ! i)],
           rcv_current_in_buffer := None,
           rcv_recv_himark_update_expiration := Uptime_Start L,
           rcv_in_ring := (rcv_in_ring r)\<lparr>rb_begin := rb_begin (rcv_in_ring r) + 1\<rparr>\<rparr>)"

text \<open>What reading never changes.\<close>

definition read_frame :: "Receiver \<Rightarrow> Receiver \<Rightarrow> bool" where
  "read_frame r r' \<longleftrightarrow> rcv_frame r r' \<and> rcv_peer_closed r' = rcv_peer_closed r
     \<and> rcv_needs_ack r' = rcv_needs_ack r \<and> rcv_unack_seq r' = rcv_unack_seq r
     \<and> rcv_packets_received r' = rcv_packets_received r"

lemma selected_simps [simp]:
  "rcv_in_ring (selected r) = rcv_in_ring r" "rcv_in_buffers (selected r) = rcv_in_buffers r"
  "rcv_pos (selected r) = rcv_pos r" "rcv_slots (selected r) = rcv_slots r"
  "rcv_unack_seq (selected r) = rcv_unack_seq r" "rcv_end_of_stream (selected r) = rcv_end_of_stream r"
  "read_frame r (selected r)" "rcv_ok (selected r) = rcv_ok r"
  by (auto simp: selected_def rcv_pos_def rcv_slots_def read_frame_def rcv_frame_def rcv_ok_def)

lemma selected_pos: "unat (rcv_current_in_buffer_pos (selected r)) = rcv_pos r"
  by (simp add: selected_def rcv_pos_def)

lemma selected_inv: "rcv_inv r \<Longrightarrow> 0 < used (rcv_in_ring r) \<Longrightarrow> rcv_inv (selected r)"
  by (auto simp: rcv_inv_def unack_ok_def) (auto simp: selected_def cur_ok_def)

lemma rcv_inv_cur: "rcv_inv r \<Longrightarrow> cur_ok r"
  by (simp add: rcv_inv_def)

lemma select_empty: "cur_ok r \<Longrightarrow> used (rcv_in_ring r) = 0 \<Longrightarrow> Receiver_select r = None"
  by (auto simp: Receiver_select_def cur_ok_def rb_simps split: option.splits)

lemma select_some:
  "cur_ok r \<Longrightarrow> 0 < used (rcv_in_ring r) \<Longrightarrow>
    Receiver_select r = Some (selected r, slot (rcv_in_ring r) (rb_begin (rcv_in_ring r)))"
  by (auto simp: Receiver_select_def selected_def cur_ok_def rb_simps Let_def split: option.splits)

lemma release_eq:
  "0 < used (rcv_in_ring r) \<Longrightarrow>
    Receiver_release L (selected r) (slot (rcv_in_ring r) (rb_begin (rcv_in_ring r))) = Some (released L r)"
  by (simp add: Receiver_release_def released_def pop_eq Let_def)

lemma head_slot:
  assumes "rcv_slots r = x # xs"
  shows "0 < used (rcv_in_ring r)"
    and "ib_slot (rcv_in_buffers r ! slot (rcv_in_ring r) (rb_begin (rcv_in_ring r))) = x"
proof -
  show u: "0 < used (rcv_in_ring r)"
    using length_rcv_slots [of r] by (simp add: assms)
  show "ib_slot (rcv_in_buffers r ! slot (rcv_in_ring r) (rb_begin (rcv_in_ring r))) = x"
    using nth_rcv_slots [OF u] by (simp add: assms)
qed

text \<open>The first buffer of the window, when it holds a fragment.\<close>

lemma head_filled:
  assumes "rcv_inv r" "rcv_slots r = Some (bs, f) # xs"
    and "b = rcv_in_buffers r ! slot (rcv_in_ring r) (rb_begin (rcv_in_ring r))"
  shows "ib_type b = (if f then kFin else kData)" "ib_bytes b = bs" "length bs = unat (ib_size b)"
    "rcv_pos r \<le> length bs" "unat (ib_size b) \<le> 248"
proof -
  have b: "ib_slot b = Some (bs, f)"
    using head_slot [OF assms(2)] by (simp add: assms(3))
  then show "ib_type b = (if f then kFin else kData)" and bs: "ib_bytes b = bs"
    by (cases "ib_type b"; auto simp: ib_slot_def)+
  have "b \<in> set (rcv_in_buffers r)"
    using assms(1) unfolding assms(3) by (auto simp: rcv_inv_def rcv_ok_def intro!: nth_mem offset_for_less)
  then have ok: "ib_ok b"
    using assms(1) by (simp add: rcv_inv_def rcv_ok_def)
  then show len: "length bs = unat (ib_size b)" and "unat (ib_size b) \<le> 248"
    using length_ib_bytes bs by (auto simp: ib_ok_def)
  show "rcv_pos r \<le> length bs"
    using assms(1) unfolding len assms(3)
    by (auto simp: rcv_pos_def rcv_inv_def cur_ok_def word_le_nat_alt)
qed

lemma released_spec:
  assumes "rcv_inv r" "rcv_slots r = Some p # xs"
  shows "rcv_inv (released L r)" "rcv_slots (released L r) = xs" "rcv_pos (released L r) = 0"
    "rb_begin (rcv_in_ring (released L r)) = rb_begin (rcv_in_ring r) + 1"
    "used (rcv_in_ring (released L r)) = used (rcv_in_ring r) - 1"
    "rcv_end_of_stream (released L r) = rcv_end_of_stream r" "read_frame r (released L r)"
proof -
  let ?ring = "rcv_in_ring r"
  have u: "0 < used ?ring"
    using head_slot [OF assms(2)] by simp
  have ok: "ring_ok ?ring" "length (rcv_in_buffers r) = cap ?ring" "\<forall>b \<in> set (rcv_in_buffers r). ib_ok b"
    "rcv_unack_seq r = rb_begin ?ring + of_nat (filled (rcv_slots r))"
    using assms(1) by (simp_all add: rcv_inv_def rcv_ok_def unack_ok_def)
  show slots: "rcv_slots (released L r) = xs"
    using contents_pop_update [OF ok(1, 2) u] assms(2)
    by (simp add: rcv_slots_def released_def Let_def map_tl)
  have "ib_ok (InBuffer_clear (rcv_in_buffers r ! slot ?ring (rb_begin ?ring)))"
    using ok by (intro InBuffer_clear_ok) (simp add: offset_for_less)
  then have "rcv_ok (released L r)"
    using ok ring_ok_pop [OF ok(1) u]
    by (auto simp: released_def rcv_ok_def Let_def dest!: set_update_subset_insert [THEN subsetD])
  moreover have "unack_ok (released L r)"
    using ok(4) assms(2) unfolding unack_ok_def slots by (simp add: released_def Let_def)
  moreover have "cur_ok (released L r)"
    by (simp add: released_def cur_ok_def Let_def)
  ultimately show "rcv_inv (released L r)"
    by (simp add: rcv_inv_def)
  have "read_frame r (selected r)"
    by simp
  then show "read_frame r (released L r)"
    by (simp add: released_def Let_def read_frame_def rcv_frame_def)
qed (use head_slot(1) [OF assms(2)] in \<open>simp_all add: released_def rcv_pos_def Let_def used_pop\<close>)

text \<open>The iterations, by what is at the front of the window.\<close>

lemma loop_empty:
  assumes "rcv_inv r" "rcv_slots r = []" "rcv_state r \<noteq> R_kBroken"
  shows "Receiver_tryRead_loop L r count out ready = Some (r, out, ready)"
proof -
  have "used (rcv_in_ring r) = 0"
    using length_rcv_slots [of r] by (simp add: assms(2))
  then show ?thesis
    using assms by (subst Receiver_tryRead_loop.simps) (simp add: select_empty rcv_inv_def)
qed

lemma loop_gap:
  assumes "rcv_inv r" "rcv_slots r = None # xs"
  shows "Receiver_tryRead_loop L r count out ready = Some (selected r, out, ready)"
  using assms head_slot [OF assms(2)]
  by (subst Receiver_tryRead_loop.simps) (simp add: select_some rcv_inv_def Let_def)

lemma loop_partial:
  assumes "rcv_inv r" "rcv_slots r = Some (bs, f) # xs" "count < length bs - rcv_pos r"
  shows "Receiver_tryRead_loop L r count out ready =
    Some ((selected r)\<lparr>rcv_current_in_buffer_pos := rcv_current_in_buffer_pos (selected r) + of_nat count\<rparr>,
          out @ take count (drop (rcv_pos r) bs), ready)"
proof -
  let ?b = "rcv_in_buffers r ! slot (rcv_in_ring r) (rb_begin (rcv_in_ring r))"
  note h = head_filled [OF assms(1, 2) refl]
  have ty: "ib_type ?b \<noteq> kUnset" and le: "rcv_current_in_buffer_pos (selected r) \<le> ib_size ?b"
    using h by (auto simp: word_le_nat_alt selected_pos split: if_splits)
  have "take count (drop (rcv_pos r) (ib_payload ?b)) = take count (drop (rcv_pos r) bs)"
    using assms(3) h(3) unfolding h(2) [symmetric] ib_bytes_def by (simp add: drop_take min_def)
  then show ?thesis
    using assms head_slot(1) [OF assms(2)] ty le h(3)
    by (subst Receiver_tryRead_loop.simps) (simp add: select_some rcv_inv_def Let_def selected_pos)
qed

lemma loop_whole:
  assumes "rcv_inv r" "rcv_slots r = Some (bs, f) # xs" "length bs - rcv_pos r \<le> count"
  shows "Receiver_tryRead_loop L r count out ready =
    (let out = out @ drop (rcv_pos r) bs; count = count - (length bs - rcv_pos r)
     in if f then (if xs = [] then Some ((released L r)\<lparr>rcv_end_of_stream := True\<rparr>, out, True) else None)
        else if 0 < count then Receiver_tryRead_loop L (released L r) count out True
        else Some (released L r, out, True))"
proof -
  let ?b = "rcv_in_buffers r ! slot (rcv_in_ring r) (rb_begin (rcv_in_ring r))"
  note h = head_filled [OF assms(1, 2) refl] and u = head_slot(1) [OF assms(2)]
  have ty: "ib_type ?b \<noteq> kUnset" and le: "rcv_current_in_buffer_pos (selected r) \<le> ib_size ?b"
    using h by (auto simp: word_le_nat_alt selected_pos split: if_splits)
  have out: "take (unat (ib_size ?b) - rcv_pos r) (drop (rcv_pos r) (ib_payload ?b)) = drop (rcv_pos r) bs"
    unfolding h(2) [symmetric] ib_bytes_def by (simp add: drop_take)
  have "RingBuffer_empty (rcv_in_ring (released L r)) \<longleftrightarrow> xs = []"
    using length_rcv_slots [of "released L r"] released_spec(2) [OF assms(1, 2), of L]
    by (auto simp: empty_iff_used simp flip: length_0_conv)
  then show ?thesis
    using assms u ty le h(1, 3) out release_eq [OF u, of L]
    by (subst Receiver_tryRead_loop.simps) (simp add: select_some rcv_inv_def Let_def selected_pos)
qed

section \<open>\<open>tryRead\<close>\<close>

text \<open>
  The outcome of reading: \<open>k\<close> fragments are consumed, and the new position is where the
  bytes that were returned end.
\<close>

definition read_outcome :: "Receiver \<Rightarrow> nat \<Rightarrow> Receiver \<Rightarrow> byte list \<Rightarrow> nat \<Rightarrow> bool" where
  "read_outcome r count r' out k \<longleftrightarrow>
     out = take count (drop (rcv_pos r) (front (rcv_slots r)))
     \<and> k \<le> filled (rcv_slots r) \<and> rcv_slots r' = drop k (rcv_slots r)
     \<and> rb_begin (rcv_in_ring r') = rb_begin (rcv_in_ring r) + of_nat k
     \<and> rcv_pos r + length out = length (bytes_of (take k (rcv_slots r))) + rcv_pos r'
     \<and> rcv_end_of_stream r' = (rcv_end_of_stream r \<or> (\<exists>bs. Some (bs, True) \<in> set (take k (rcv_slots r))))
     \<and> rcv_inv r' \<and> read_frame r r'"

lemma read_frame_trans: "read_frame r r1 \<Longrightarrow> read_frame r1 r2 \<Longrightarrow> read_frame r r2"
  by (simp add: read_frame_def rcv_frame_def)

lemma read_outcome_cons:
  assumes inv: "rcv_inv r" and slots: "rcv_slots r = Some (bs, False) # xs"
    and whole: "length bs - rcv_pos r \<le> count"
    and rest: "read_outcome (released L r) (count - (length bs - rcv_pos r)) r' out k"
  shows "read_outcome r count r' (drop (rcv_pos r) bs @ out) (Suc k)"
proof -
  note h = head_filled [OF inv slots refl] and rel = released_spec [OF inv slots, of L]
  have "read_frame r r'"
    using rel(7) rest by (auto simp: read_outcome_def intro: read_frame_trans)
  then show ?thesis
    using rest rel h(4) whole slots by (auto simp: read_outcome_def)
qed

lemma read_outcome_none: "rcv_inv r \<Longrightarrow> read_outcome r 0 r [] 0"
  by (simp add: read_outcome_def read_frame_def rcv_frame_def)

lemma read_outcome_partial:
  assumes inv: "rcv_inv r" and slots: "rcv_slots r = Some (bs, f) # xs"
    and part: "count < length bs - rcv_pos r"
  shows "read_outcome r count
    ((selected r)\<lparr>rcv_current_in_buffer_pos := rcv_current_in_buffer_pos (selected r) + of_nat count\<rparr>)
    (take count (drop (rcv_pos r) bs)) 0"
proof -
  let ?r = "(selected r)\<lparr>rcv_current_in_buffer_pos := rcv_current_in_buffer_pos (selected r) + of_nat count\<rparr>"
  note h = head_filled [OF inv slots refl] and u = head_slot(1) [OF slots]
  have c: "rcv_current_in_buffer (selected r) = Some (slot (rcv_in_ring r) (rb_begin (rcv_in_ring r)))"
    using inv by (auto simp: selected_def rcv_inv_def cur_ok_def not_None_eq)
  have pos: "unat (rcv_current_in_buffer_pos (selected r) + of_nat count) = rcv_pos r + count"
    using part h(3, 5) by (simp add: unat_word_ariths selected_pos)
  have "rcv_ok ?r"
    using inv rcv_ok_cong [of ?r r] by (simp add: rcv_inv_def)
  moreover have "cur_ok ?r"
    using u c pos part h(3) by (simp add: cur_ok_def word_le_nat_alt)
  moreover have sl: "rcv_slots ?r = rcv_slots r"
    using rcv_slots_cong [of ?r r] by simp
  ultimately have "rcv_inv ?r"
    using inv by (simp add: rcv_inv_def unack_ok_def)
  moreover have "read_frame r ?r"
    using selected_simps(7) [of r] by (simp add: read_frame_def rcv_frame_def del: selected_simps)
  ultimately show ?thesis
    using pos c part sl slots by (simp add: read_outcome_def rcv_pos_def [of ?r])
qed

lemma read_outcome_fin:
  assumes inv: "rcv_inv r" and slots: "rcv_slots r = [Some (bs, True)]"
    and whole: "length bs - rcv_pos r \<le> count"
  shows "read_outcome r count ((released L r)\<lparr>rcv_end_of_stream := True\<rparr>) (drop (rcv_pos r) bs) 1"
proof -
  let ?r = "(released L r)\<lparr>rcv_end_of_stream := True\<rparr>"
  note h = head_filled [OF inv slots refl] and rel = released_spec [OF inv slots, of L]
  have sl: "rcv_slots ?r = []"
    using rcv_slots_cong [of ?r "released L r"] rel(2) by simp
  moreover have "rcv_inv ?r"
    using rel(1, 2) sl rcv_ok_cong [of ?r "released L r"] cur_ok_cong [of ?r "released L r"]
    by (simp add: rcv_inv_def unack_ok_def)
  moreover have "rcv_pos ?r = 0" "read_frame r ?r"
    using rel(3, 7) by (auto simp: rcv_pos_def read_frame_def rcv_frame_def)
  ultimately show ?thesis
    using rel(4) slots h(4) whole by (auto simp: read_outcome_def)
qed

lemma loop_spec:
  assumes "rcv_inv r" "fin_last (rcv_slots r)" "rcv_state r \<noteq> R_kBroken"
  shows "\<exists>r' out k. Receiver_tryRead_loop L r count out0 ready = Some (r', out0 @ out, ready \<or> 0 < k)
    \<and> read_outcome r count r' out k"
  using assms
proof (induction "used (rcv_in_ring r)" arbitrary: r count out0 ready rule: less_induct)
  case less
  note inv = less.prems(1)
  show ?case
  proof (cases "rcv_slots r")
    case Nil
    have "rcv_pos r = 0"
      using inv Nil length_rcv_slots [of r] by (auto simp: rcv_pos_def rcv_inv_def cur_ok_def not_None_eq)
    then show ?thesis
      using loop_empty [OF inv Nil less.prems(3)] inv Nil
      by (intro exI [of _ r] exI [of _ "[]"] exI [of _ 0])
        (simp add: read_outcome_def read_frame_def rcv_frame_def)
  next
    case (Cons x xs)
    show ?thesis
    proof (cases x)
      case None
      then show ?thesis
        using loop_gap [OF inv, of xs] Cons inv head_slot(1) [OF Cons]
        by (intro exI [of _ "selected r"] exI [of _ "[]"] exI [of _ 0])
          (simp add: read_outcome_def selected_inv)
    next
      case (Some p)
      then obtain bs f where p: "rcv_slots r = Some (bs, f) # xs"
        using Cons by (cases p) simp
      note h = head_filled [OF inv p refl] and rel = released_spec [OF inv p, of L]
      show ?thesis
      proof (cases "count < length bs - rcv_pos r")
        case True
        then show ?thesis
          using loop_partial [OF inv p True] read_outcome_partial [OF inv p True] by force
      next
        case False
        then have w: "length bs - rcv_pos r \<le> count"
          by simp
        let ?r = "released L r" and ?n = "count - (length bs - rcv_pos r)"
        show ?thesis
        proof (cases f)
          case True
          then have "xs = []"
            using less.prems(2) fin_last_head p by simp
          then show ?thesis
            using loop_whole [OF inv p w, of L out0 ready] read_outcome_fin [OF inv _ w, of L] p True
            by force
        next
          case False
          then have slots: "rcv_slots r = Some (bs, False) # xs"
            using p by simp
          have rest: "fin_last (rcv_slots ?r)" "rcv_state ?r \<noteq> R_kBroken" "used (rcv_in_ring ?r) < used (rcv_in_ring r)"
            using rel less.prems(2, 3) fin_last_tl p head_slot(1) [OF p]
            by (auto simp: read_frame_def rcv_frame_def)
          obtain r' out k where "Receiver_tryRead_loop L r count out0 ready
              = Some (r', (out0 @ drop (rcv_pos r) bs) @ out, True)" "read_outcome ?r ?n r' out k"
          proof (cases "0 < ?n")
            case True
            then show ?thesis
              using less.hyps [OF rest(3) rel(1) rest(1, 2), of ?n "out0 @ drop (rcv_pos r) bs" True]
                loop_whole [OF inv p w, of L out0 ready] \<open>\<not> f\<close> that by (auto simp: Let_def)
          next
            case False
            then show ?thesis
              using loop_whole [OF inv p w, of L out0 ready] \<open>\<not> f\<close> that [of ?r "[]" 0]
                read_outcome_none [OF rel(1)] by (simp add: Let_def)
          qed
          then show ?thesis
            using read_outcome_cons [OF inv slots w] by force
        qed
      qed
    qed
  qed
qed

text \<open>The specification of \<open>tryRead\<close>: in order, without loss, and without an abort.\<close>

lemma tryRead_spec:
  assumes "rcv_inv r" "fin_last (rcv_slots r)" "rcv_state r = R_kConnected"
  shows "\<exists>r' out k. Receiver_tryRead L r count = Some (r', out, 0 < k) \<and> read_outcome r count r' out k"
  using loop_spec [OF assms(1, 2), of L count "[]" False] assms(3) by (auto simp: Receiver_tryRead_def)

section \<open>\<open>peek\<close> and \<open>availableForRead\<close>\<close>

text \<open>What is at the front of the window, past the read position.\<close>

definition front_fragment :: "Receiver \<Rightarrow> fragment option" where
  "front_fragment r = (case rcv_slots r of Some (bs, f) # _ \<Rightarrow> Some (drop (rcv_pos r) bs, f) | _ \<Rightarrow> None)"

lemma peek_spec:
  assumes "rcv_inv r" "front_fragment r \<noteq> Some ([], False)"
  shows "\<exists>r'. Receiver_peek r = (r', case front_fragment r of Some (b # _, False) \<Rightarrow> uint b | _ \<Rightarrow> - 1)
    \<and> rcv_inv r' \<and> rcv_slots r' = rcv_slots r \<and> rcv_pos r' = rcv_pos r \<and> read_frame r r'"
proof (cases "rcv_slots r")
  case Nil
  then have "used (rcv_in_ring r) = 0"
    using length_rcv_slots [of r] by simp
  then show ?thesis
    using assms(1) Nil by (simp add: Receiver_peek_def select_empty rcv_inv_def front_fragment_def
        read_frame_def rcv_frame_def)
next
  case (Cons x xs)
  let ?b = "rcv_in_buffers r ! slot (rcv_in_ring r) (rb_begin (rcv_in_ring r))"
  have sel: "Receiver_select r = Some (selected r, slot (rcv_in_ring r) (rb_begin (rcv_in_ring r)))"
    and ok: "rcv_inv (selected r)"
    using assms(1) head_slot(1) [OF Cons] by (simp_all add: select_some selected_inv rcv_inv_cur)
  show ?thesis
  proof (cases x)
    case None
    then show ?thesis
      using sel ok head_slot(2) [OF Cons] Cons by (simp add: Receiver_peek_def front_fragment_def Let_def)
  next
    case (Some p)
    then obtain bs f where p: "rcv_slots r = Some (bs, f) # xs"
      using Cons by (cases p) simp
    note h = head_filled [OF assms(1) p refl]
    have "ib_payload ?b ! rcv_pos r = hd (drop (rcv_pos r) bs)" if "rcv_pos r < length bs"
      using that h(3) unfolding h(2) [symmetric] ib_bytes_def by (simp add: hd_drop_conv_nth)
    then show ?thesis
      using sel ok h(1) p assms(2) unfolding Receiver_peek_def front_fragment_def
      by (auto simp: Let_def selected_pos split: list.splits)
  qed
qed

lemma availableForRead_spec:
  assumes "rcv_inv r"
  shows "\<exists>r'. Receiver_availableForRead r =
      (r', case front_fragment r of None \<Rightarrow> 0 | Some (bs, f) \<Rightarrow> if f then 1 else length bs)
    \<and> rcv_inv r' \<and> rcv_slots r' = rcv_slots r \<and> rcv_pos r' = rcv_pos r \<and> read_frame r r'"
proof (cases "rcv_slots r")
  case Nil
  then have "used (rcv_in_ring r) = 0"
    using length_rcv_slots [of r] by simp
  then show ?thesis
    using assms Nil by (simp add: Receiver_availableForRead_def select_empty rcv_inv_def
        front_fragment_def read_frame_def rcv_frame_def)
next
  case (Cons x xs)
  have sel: "Receiver_select r = Some (selected r, slot (rcv_in_ring r) (rb_begin (rcv_in_ring r)))"
    and ok: "rcv_inv (selected r)"
    using assms head_slot(1) [OF Cons] by (simp_all add: select_some selected_inv rcv_inv_cur)
  show ?thesis
  proof (cases x)
    case None
    then show ?thesis
      using sel ok head_slot(2) [OF Cons] Cons
      by (simp add: Receiver_availableForRead_def front_fragment_def Let_def)
  next
    case (Some p)
    then obtain bs f where p: "rcv_slots r = Some (bs, f) # xs"
      using Cons by (cases p) simp
    then show ?thesis
      using sel ok head_filled(1, 3) [OF assms p refl]
      by (simp add: Receiver_availableForRead_def front_fragment_def Let_def selected_pos)
  qed
qed

section \<open>Starting and stopping\<close>

lemma Receiver_new_inv:
  assumes "Receiver_new L k c0 = Some r"
  shows "rcv_inv r" "rcv_slots r = []" "rcv_state r = R_kIdle" "cap (rcv_in_ring r) = 2 ^ k"
  using assms new_ok [of "int k" 0]
  by (auto simp: Receiver_new_def bind_eq_Some_conv rcv_inv_def rcv_ok_def cur_ok_def unack_ok_def
      rcv_slots_def contents_empty)

lemma setConnected_spec:
  assumes "rcv_ok r" "cur_ok r" "used (rcv_in_ring r) = 0"
  shows "\<exists>r'. Receiver_setConnected r s c = Some r' \<and> rcv_inv r' \<and> rcv_slots r' = []
    \<and> rcv_state r' = R_kConnected \<and> rb_begin (rcv_in_ring r') = s \<and> rcv_unack_seq r' = s
    \<and> rcv_control_bit r' = c \<and> rcv_pos r' = 0 \<and> cap (rcv_in_ring r') = cap (rcv_in_ring r)
    \<and> rcv_self_closed r' = rcv_self_closed r \<and> rcv_peer_closed r' = rcv_peer_closed r
    \<and> rcv_end_of_stream r' = rcv_end_of_stream r"
proof -
  have "rcv_current_in_buffer r = None"
    using assms by (auto simp: cur_ok_def not_None_eq)
  then show ?thesis
    using assms by (auto simp: Receiver_setConnected_def CHECK_bind rb_simps reset_eq rcv_inv_def rcv_ok_def
        cur_ok_def unack_ok_def rcv_slots_def contents_empty rcv_pos_def ring_ok_reset)
qed

text \<open>\<open>reset\<close> empties the window and clears its buffers.\<close>

lemma clear_loop_spec:
  assumes "ring_ok ring" "length bufs = cap ring" "\<forall>b \<in> set bufs. ib_ok b"
  shows "\<exists>bufs'. Receiver_clear_loop ring bufs = Some (ring\<lparr>rb_begin := rb_end ring\<rparr>, bufs')
    \<and> length bufs' = length bufs \<and> (\<forall>b \<in> set bufs'. ib_ok b)"
  using assms
proof (induction ring bufs rule: Receiver_clear_loop.induct)
  case (1 ring bufs)
  show ?case
  proof (cases "RingBuffer_empty ring")
    case True
    then show ?thesis
      using 1 by (simp add: Receiver_clear_loop.simps [of ring] rb_simps used_zero_iff)
  next
    case False
    let ?i = "slot ring (rb_begin ring)"
    have u: "0 < used ring"
      using False by (simp add: rb_simps)
    have i: "?i < length bufs"
      using 1 by (simp add: offset_for_less)
    have "\<forall>b \<in> set (bufs[?i := InBuffer_clear (bufs ! ?i)]). ib_ok b"
      using 1(4) i by (auto dest!: set_update_subset_insert [THEN subsetD] intro: InBuffer_clear_ok)
    then show ?thesis
      using 1(1) [OF False refl, of _ "ring\<lparr>rb_begin := rb_begin ring + 1\<rparr>" "rb_begin ring"] 1(2, 3) False u
      by (simp add: Receiver_clear_loop.simps [of ring] pop_eq Let_def ring_ok_pop)
  qed
qed

lemma reset_spec:
  assumes "rcv_ok r"
  shows "\<exists>r'. Receiver_reset L r = Some r' \<and> rcv_ok r' \<and> cur_ok r' \<and> rcv_slots r' = []
    \<and> rcv_state r' = R_kIdle \<and> rcv_current_in_buffer r' = None \<and> \<not> rcv_needs_ack r'
    \<and> used (rcv_in_ring r') = 0 \<and> cap (rcv_in_ring r') = cap (rcv_in_ring r)"
  using clear_loop_spec [of "rcv_in_ring r" "rcv_in_buffers r"] assms
  by (auto simp: Receiver_reset_def rcv_ok_def cur_ok_def rcv_slots_def contents_empty ring_ok_drain)

text \<open>\<open>init\<close> empties the window, but keeps a selected buffer.\<close>

lemma init_spec:
  assumes "rcv_ok r"
  shows "\<exists>r'. Receiver_init r sid = Some r' \<and> rcv_ok r' \<and> rcv_slots r' = []
    \<and> rcv_state r' = R_kConnecting \<and> rcv_current_in_buffer r' = rcv_current_in_buffer r
    \<and> used (rcv_in_ring r') = 0 \<and> cap (rcv_in_ring r') = cap (rcv_in_ring r)
    \<and> \<not> rcv_self_closed r' \<and> \<not> rcv_peer_closed r' \<and> \<not> rcv_end_of_stream r'"
  using assms by (auto simp: Receiver_init_def popAll_eq rcv_ok_def rcv_slots_def contents_empty ring_ok_drain)

end
