(* ===== verification/Transmitter.thy ===== *)
theory Transmitter
  imports Packet_Buffers Ring_Buffer
begin

text \<open>
  \<open>Transmitter\<close> (\<^verbatim>\<open>link/internal/transmitter.h\<close>, \<^verbatim>\<open>link/internal/transmitter.cpp\<close>):
  the outgoing half of a link. \<open>current_out_buffer_\<close>, a pointer into the buffer array, is
  an optional index. \<open>Uptime::Now()\<close> and the random draw behind the retransmission delay
  are arguments; \<open>next_send_micros\<close> is passed in and returned.
\<close>

section \<open>State\<close>

datatype Transmitter_State = T_kIdle | T_kConnecting | T_kConnected | T_kBroken

record Transmitter =
  tx_my_stream_id :: u32
  tx_state :: Transmitter_State
  tx_end_of_stream :: bool
  tx_out_buffers :: "OutBuffer list"
  tx_current_out_buffer :: "nat option"
  tx_out_ring :: RingBuffer
  tx_next_to_send :: SeqNum
  tx_recv_himark :: SeqNum
  tx_has_pending_eof :: bool
  tx_packets_sent :: u32
  tx_packets_delivered :: u32
  tx_peer_receive_buffer_size :: u16
  tx_control_bit :: bool

text \<open>The constructor leaves \<open>my_stream_id_\<close> uninitialised: its first value is an argument.\<close>

definition Transmitter_new :: "lib \<Rightarrow> nat \<Rightarrow> u32 \<Rightarrow> Transmitter option" where
  "Transmitter_new L sendbuf_log2 my_stream_id0 = do {
     ring \<leftarrow> RingBuffer_new (int sendbuf_log2) 0;
     Some \<lparr>tx_my_stream_id = my_stream_id0, tx_state = T_kIdle, tx_end_of_stream = False,
       tx_out_buffers = replicate (2 ^ sendbuf_log2) (OutBuffer_new L),
       tx_current_out_buffer = None, tx_out_ring = ring, tx_next_to_send = rb_begin ring,
       tx_recv_himark = SeqNum_plus (rb_begin ring) (2 ^ sendbuf_log2),
       tx_has_pending_eof = False, tx_packets_sent = 0, tx_packets_delivered = 0,
       tx_peer_receive_buffer_size = 0, tx_control_bit = False\<rparr>
   }"

definition Transmitter_getOutBuffer :: "Transmitter \<Rightarrow> SeqNum \<Rightarrow> OutBuffer" where
  "Transmitter_getOutBuffer t s = tx_out_buffers t ! slot (tx_out_ring t) s"

definition Transmitter_setOutBuffer :: "Transmitter \<Rightarrow> SeqNum \<Rightarrow> OutBuffer \<Rightarrow> Transmitter" where
  "Transmitter_setOutBuffer t s b =
     t\<lparr>tx_out_buffers := (tx_out_buffers t)[slot (tx_out_ring t) s := b]\<rparr>"

section \<open>Writing\<close>

text \<open>
  The part of an iteration that obtains a buffer to write to (its index and its contents):
  the current one, or a new one if there is flow-control credit and room. The inner
  \<open>None\<close> is the \<open>break\<close>.
\<close>

definition Transmitter_acquire :: "lib \<Rightarrow> Transmitter \<Rightarrow> (Transmitter \<times> nat \<times> OutBuffer) option option" where
  "Transmitter_acquire L t =
     (case tx_current_out_buffer t of
        Some i \<Rightarrow> Some (Some (t, i, tx_out_buffers t ! i))
      | None \<Rightarrow>
          if tx_recv_himark t = rb_end (tx_out_ring t) then Some None
          else if RingBuffer_slotsFree (tx_out_ring t) = 0 then Some None
          else do {
            (ring, pos) \<leftarrow> RingBuffer_push (tx_out_ring t);
            let i = slot ring pos
            in Some (Some (t\<lparr>tx_out_ring := ring, tx_current_out_buffer := Some i\<rparr>, i,
                 OutBuffer_init L (tx_out_buffers t ! i) pos (tx_control_bit t)))
          })"

text \<open>The rest of an iteration: the state, the number of bytes taken, and whether the buffer is finished.\<close>

definition Transmitter_fill ::
  "lib \<Rightarrow> Transmitter \<Rightarrow> nat \<Rightarrow> OutBuffer \<Rightarrow> byte list \<Rightarrow> (Transmitter \<times> nat \<times> bool) option" where
  "Transmitter_fill L t i b buf = do {
     (b, written) \<leftarrow> OutBuffer_write L b buf;
     let t = t\<lparr>tx_out_buffers := (tx_out_buffers t)[i := b]\<rparr>
     in Some (if ob_finished b then t\<lparr>tx_current_out_buffer := None\<rparr> else t, written, ob_finished b)
   }"

text \<open>
  An iteration either takes a byte or finishes with the buffer that was current, so the
  number of bytes left and the presence of a current buffer bound the loop.
\<close>

lemma OutBuffer_write_progress:
  "OutBuffer_write L b buf = Some (b', 0) \<Longrightarrow> buf \<noteq> [] \<Longrightarrow> ob_finished b'"
  by (auto simp: OutBuffer_write_def CHECK_bind Let_def split: if_splits)

lemma OutBuffer_write_fresh:
  "OutBuffer_write L (OutBuffer_init L b s c) buf = Some (b', n) \<Longrightarrow> buf \<noteq> [] \<Longrightarrow> 0 < n"
  by (auto simp: OutBuffer_write_def OutBuffer_init_def CHECK_bind Let_def split: if_splits)

lemma Transmitter_write_progress:
  assumes "Transmitter_acquire L t = Some (Some (t1, i, b))" "Transmitter_fill L t1 i b buf = Some (t2, n, f)"
    and "buf \<noteq> []"
  shows "length (drop n buf) < length buf
    \<or> length (drop n buf) = length buf \<and> tx_current_out_buffer t \<noteq> None \<and> tx_current_out_buffer t2 = None"
proof (cases "n = 0")
  case True
  then have "tx_current_out_buffer t2 = None"
    using assms(2, 3) OutBuffer_write_progress
    by (fastforce simp: Transmitter_fill_def bind_eq_Some_conv Let_def)
  moreover have "tx_current_out_buffer t \<noteq> None"
    using assms True OutBuffer_write_fresh
    by (fastforce simp: Transmitter_acquire_def Transmitter_fill_def bind_eq_Some_conv Let_def
        split: option.splits if_splits)
  ultimately show ?thesis
    using True by simp
next
  case False
  then show ?thesis
    using assms(3) by (cases buf) auto
qed

text \<open>The loop; \<open>ready\<close> is \<open>outgoing_data_ready\<close>.\<close>

function (sequential) Transmitter_tryWrite_loop ::
  "lib \<Rightarrow> Transmitter \<Rightarrow> byte list \<Rightarrow> nat \<Rightarrow> bool \<Rightarrow> (Transmitter \<times> nat \<times> bool) option" where
  "Transmitter_tryWrite_loop L t [] total_written ready = Some (t, total_written, ready)"
| "Transmitter_tryWrite_loop L t (x # buf) total_written ready =
     (if \<not> SeqNum_ge (tx_recv_himark t) (rb_end (tx_out_ring t)) then None
      else case Transmitter_acquire L t of
        None \<Rightarrow> None
      | Some None \<Rightarrow> Some (t, total_written, ready)
      | Some (Some (t1, i, b)) \<Rightarrow>
         (case Transmitter_fill L t1 i b (x # buf) of
            None \<Rightarrow> None
          | Some (t2, written, finished) \<Rightarrow>
              Transmitter_tryWrite_loop L t2 (drop written (x # buf)) (total_written + written)
                (ready \<or> finished)))"
  by pat_completeness auto
termination
  by (relation "inv_image (less_than <*lex*> less_than)
        (\<lambda>(L, t, buf, _). (length buf, if tx_current_out_buffer t = None then 0 else 1 :: nat))")
    (auto dest!: Transmitter_write_progress)

declare Transmitter_tryWrite_loop.simps(2) [simp del]

definition Transmitter_tryWrite :: "lib \<Rightarrow> Transmitter \<Rightarrow> byte list \<Rightarrow> (Transmitter \<times> nat \<times> bool) option" where
  "Transmitter_tryWrite L t buf =
     (if buf = [] then Some (t, 0, False)
      else if tx_end_of_stream t then Some (t, 0, False)
      else if tx_state t = T_kIdle \<or> tx_state t = T_kBroken then Some (t, 0, False)
      else Transmitter_tryWrite_loop L t buf 0 False)"

definition Transmitter_flush :: "Transmitter \<Rightarrow> Transmitter \<times> bool" where
  "Transmitter_flush t =
     (case tx_current_out_buffer t of
        Some i \<Rightarrow> (t\<lparr>tx_out_buffers := (tx_out_buffers t)[i := OutBuffer_flush (tx_out_buffers t ! i)]\<rparr>, True)
      | None \<Rightarrow> (t, False))"

definition Transmitter_hasPendingData :: "Transmitter \<Rightarrow> bool" where
  "Transmitter_hasPendingData t \<longleftrightarrow> \<not> RingBuffer_empty (tx_out_ring t)"

definition Transmitter_addEosPacket :: "lib \<Rightarrow> Transmitter \<Rightarrow> Transmitter option" where
  "Transmitter_addEosPacket L t = do {
     (ring, pos) \<leftarrow> RingBuffer_push (tx_out_ring t);
     let i = slot ring pos;
         b = OutBuffer_init L (tx_out_buffers t ! i) pos (tx_control_bit t);
         b = OutBuffer_markFinal L b;
         b = OutBuffer_finish L b
     in Some (t\<lparr>tx_out_ring := ring, tx_out_buffers := (tx_out_buffers t)[i := b]\<rparr>)
   }"

definition Transmitter_close :: "lib \<Rightarrow> Transmitter \<Rightarrow> Transmitter option" where
  "Transmitter_close L t =
     (let t = (if tx_state t = T_kBroken then t\<lparr>tx_state := T_kIdle\<rparr> else t)
      in if tx_end_of_stream t \<or> tx_state t = T_kIdle then Some t
         else do {
           let (t, _) = Transmitter_flush t;
           t \<leftarrow> (if RingBuffer_slotsFree (tx_out_ring t) = 0 then Some (t\<lparr>tx_has_pending_eof := True\<rparr>)
                else Transmitter_addEosPacket L t);
           Some (t\<lparr>tx_end_of_stream := True\<rparr>)
         })"

definition Transmitter_setBroken :: "Transmitter \<Rightarrow> Transmitter option" where
  "Transmitter_setBroken t = do {
     ring \<leftarrow> RingBuffer_popAll (tx_out_ring t);
     Some (t\<lparr>tx_out_ring := ring, tx_state := T_kBroken\<rparr>)
   }"

definition Transmitter_availableForWrite :: "Transmitter \<Rightarrow> nat" where
  "Transmitter_availableForWrite t =
     (if tx_end_of_stream t \<or> tx_state t = T_kIdle \<or> tx_state t = T_kBroken then 0
      else unat (RingBuffer_slotsFree (tx_out_ring t)))"

section \<open>Sending\<close>

text \<open>
  The search for the buffer to send; \<open>to_send\<close> and \<open>min_send_time\<close> are the best
  candidate so far.
\<close>

function Transmitter_scan ::
  "lib \<Rightarrow> Transmitter \<Rightarrow> SeqNum \<Rightarrow> SeqNum \<Rightarrow> uptime \<Rightarrow> SeqNum \<times> uptime" where
  "Transmitter_scan L t pos to_send min_send_time =
     (if SeqNum_lt pos (rb_end (tx_out_ring t)) \<and> SeqNum_lt pos (tx_recv_himark t) then
        let b = Transmitter_getOutBuffer t pos
        in if ob_acked b then Transmitter_scan L t (pos + 1) to_send min_send_time
           else if \<not> ob_flushed b then (to_send, min_send_time)
           else if \<not> ob_finished b \<or> ob_expiration b = Uptime_Start L then (pos, Uptime_Start L)
           else if ob_expiration b < min_send_time then Transmitter_scan L t (pos + 1) pos (ob_expiration b)
           else Transmitter_scan L t (pos + 1) to_send min_send_time
      else (to_send, min_send_time))"
  by pat_completeness auto
termination
  by (relation "measure (\<lambda>(L, t, pos, _). unat (rb_end (tx_out_ring t) - pos))")
    (auto dest!: SeqNum_lt_inc)

declare Transmitter_scan.simps [simp del]

text \<open>Sending the buffer of \<open>to_send\<close>: the common end of both ways to pick a buffer.\<close>

definition Transmitter_mark ::
  "lib \<Rightarrow> Transmitter \<Rightarrow> SeqNum \<Rightarrow> uptime \<Rightarrow> u32 \<Rightarrow> Transmitter" where
  "Transmitter_mark L t to_send now draw =
     (let b = Transmitter_getOutBuffer t to_send;
          b = (if \<not> ob_finished b then OutBuffer_finish L b else b)
      in (Transmitter_setOutBuffer t to_send (OutBuffer_markSent L b now draw))
           \<lparr>tx_next_to_send := to_send + 1, tx_packets_sent := tx_packets_sent t + 1\<rparr>)"

text \<open>
  The first attempt: the next buffer in the sequence. It may finish that buffer without
  sending it; the flag says whether it is sent.
\<close>

definition Transmitter_sendNext ::
  "lib \<Rightarrow> Transmitter \<Rightarrow> uptime \<Rightarrow> u32 \<Rightarrow> Transmitter \<times> bool" where
  "Transmitter_sendNext L t now draw =
     (if RingBuffer_contains (tx_out_ring t) (tx_next_to_send t) then
        let b = Transmitter_getOutBuffer t (tx_next_to_send t)
        in if \<not> ob_acked b \<and> ob_flushed b then
             (if ob_send_counter b = 0 then (Transmitter_mark L t (tx_next_to_send t) now draw, True)
              else if \<not> ob_finished b
                then (Transmitter_setOutBuffer t (tx_next_to_send t) (OutBuffer_finish L b), False)
              else (t, False))
           else (t, False)
      else (t, False))"

text \<open>
  The end of the fall-back: the buffer is sent when it is due. The result is the position of
  the buffer to send, if any.
\<close>

definition Transmitter_sendDue ::
  "lib \<Rightarrow> Transmitter \<Rightarrow> SeqNum \<Rightarrow> uptime \<Rightarrow> uptime \<Rightarrow> u32 \<Rightarrow> int \<Rightarrow> Transmitter \<times> SeqNum option \<times> int" where
  "Transmitter_sendDue L t to_send min_send_time now draw next_send_micros =
     (if min_send_time > now then (t, None, min next_send_micros (min_send_time - now))
      else (Transmitter_mark L t to_send now draw, Some to_send, 0))"

definition Transmitter_sendAny ::
  "lib \<Rightarrow> Transmitter \<Rightarrow> uptime \<Rightarrow> u32 \<Rightarrow> int \<Rightarrow> Transmitter \<times> SeqNum option \<times> int" where
  "Transmitter_sendAny L t now draw next_send_micros =
     (let ring = tx_out_ring t;
          (to_send, min_send_time) = Transmitter_scan L t (rb_begin ring) (rb_end ring) (Uptime_Max L)
      in if RingBuffer_contains ring to_send
           then Transmitter_sendDue L t to_send min_send_time now draw next_send_micros
         else if RingBuffer_slotsUsed ring \<noteq> 1 \<or> SeqNum_ge (rb_begin ring) (tx_recv_himark t)
           then (t, None, next_send_micros)
         else
           (let b = Transmitter_getOutBuffer t (rb_begin ring)
            in if ob_finished b then (t, None, next_send_micros)
               else Transmitter_sendDue L
                      (Transmitter_setOutBuffer t (rb_begin ring) (OutBuffer_finish L b))
                      (rb_begin ring) (Uptime_Start L) now draw next_send_micros))"

definition Transmitter_getBufferToSend ::
  "lib \<Rightarrow> Transmitter \<Rightarrow> uptime \<Rightarrow> u32 \<Rightarrow> int \<Rightarrow> Transmitter \<times> SeqNum option \<times> int" where
  "Transmitter_getBufferToSend L t now draw next_send_micros =
     (if tx_state t \<noteq> T_kConnected then (t, None, next_send_micros)
      else
        (let (t', sent) = Transmitter_sendNext L t now draw
         in if sent then (t', Some (tx_next_to_send t), 0)
            else Transmitter_sendAny L t' now draw next_send_micros))"

text \<open>\<open>send\<close>: the packet, empty if there is nothing to send.\<close>

definition Transmitter_send ::
  "lib \<Rightarrow> Transmitter \<Rightarrow> uptime \<Rightarrow> u32 \<Rightarrow> int \<Rightarrow> Transmitter \<times> byte list \<times> int" where
  "Transmitter_send L t now draw next_send_micros =
     (case Transmitter_getBufferToSend L t now draw next_send_micros of
        (t, None, next_send_micros) \<Rightarrow> (t, [], next_send_micros)
      | (t, Some s, next_send_micros) \<Rightarrow> (t, ob_packet (Transmitter_getOutBuffer t s), next_send_micros))"

section \<open>Starting and stopping\<close>

definition Transmitter_reset :: "Transmitter \<Rightarrow> Transmitter option" where
  "Transmitter_reset t = do {
     ring \<leftarrow> RingBuffer_popAll (tx_out_ring t);
     Some (t\<lparr>tx_out_ring := ring, tx_end_of_stream := False, tx_my_stream_id := 0,
       tx_state := T_kIdle, tx_current_out_buffer := None, tx_has_pending_eof := False\<rparr>)
   }"

definition Transmitter_init :: "Transmitter \<Rightarrow> u32 \<Rightarrow> SeqNum \<Rightarrow> Transmitter option" where
  "Transmitter_init t my_stream_id new_start = do {
     ring \<leftarrow> RingBuffer_popAll (tx_out_ring t);
     ring \<leftarrow> RingBuffer_reset ring new_start;
     Some (t\<lparr>tx_my_stream_id := my_stream_id, tx_state := T_kConnecting, tx_end_of_stream := False,
       tx_out_ring := ring, tx_recv_himark := rb_begin ring, tx_next_to_send := rb_begin ring,
       tx_current_out_buffer := None, tx_has_pending_eof := False\<rparr>)
   }"

definition Transmitter_setConnected :: "Transmitter \<Rightarrow> u16 \<Rightarrow> bool \<Rightarrow> Transmitter" where
  "Transmitter_setConnected t peer_receive_buffer_size control_bit =
     t\<lparr>tx_state := T_kConnected, tx_peer_receive_buffer_size := peer_receive_buffer_size,
       tx_control_bit := control_bit,
       tx_recv_himark := SeqNum_plus (rb_begin (tx_out_ring t)) (uint peer_receive_buffer_size)\<rparr>"

definition Transmitter_front :: "Transmitter \<Rightarrow> SeqNum" where
  "Transmitter_front t = rb_begin (tx_out_ring t)"

section \<open>Acknowledgements and flow control\<close>

text \<open>Removing the buffers below the acknowledged position; a deferred end-of-stream packet takes the first slot.\<close>

lemma used_push_le: "used (r\<lparr>rb_end := rb_end r + 1\<rparr>) \<le> Suc (used r)"
  using dist_add [of "rb_end r" "rb_begin r" 1] unat_u16_less [of "rb_end r + 1 - rb_begin r"]
  by (cases "Suc (used r) < 65536") (simp_all add: used_def)

lemma addEosPacket_used:
  "Transmitter_addEosPacket L t = Some t' \<Longrightarrow> used (tx_out_ring t') \<le> Suc (used (tx_out_ring t))"
  using used_push_le [of "tx_out_ring t"]
  by (auto simp: Transmitter_addEosPacket_def RingBuffer_push_def SeqNum_inc_def bind_eq_Some_conv Let_def)

function Transmitter_release :: "lib \<Rightarrow> Transmitter \<Rightarrow> SeqNum \<Rightarrow> Transmitter option" where
  "Transmitter_release L t seq =
     (if SeqNum_lt (rb_begin (tx_out_ring t)) seq \<and> \<not> RingBuffer_empty (tx_out_ring t) then
        case RingBuffer_pop (tx_out_ring t) of
          None \<Rightarrow> None
        | Some (ring, _) \<Rightarrow>
           (let t1 = t\<lparr>tx_out_ring := ring, tx_packets_delivered := tx_packets_delivered t + 1\<rparr>
            in if tx_has_pending_eof t1 then
                 (case Transmitter_addEosPacket L t1 of
                    None \<Rightarrow> None
                  | Some t2 \<Rightarrow> Transmitter_release L (t2\<lparr>tx_has_pending_eof := False\<rparr>) seq)
               else Transmitter_release L t1 seq)
      else Some t)"
  by pat_completeness auto
termination
  by (relation "measure (\<lambda>(L, t, _). used (tx_out_ring t) + of_bool (tx_has_pending_eof t))")
    (auto simp: pop_eq used_pop split: if_splits dest!: addEosPacket_used)

declare Transmitter_release.simps [simp del]

text \<open>
  The skip-acknowledgement bitmap: for every byte, the bits 7 to 0. The state is threaded with
  \<open>out_pos\<close> and \<open>last_acked\<close>.
\<close>

definition Transmitter_skipAck ::
  "u8 \<Rightarrow> nat \<Rightarrow> Transmitter \<times> SeqNum \<times> SeqNum \<Rightarrow> Transmitter \<times> SeqNum \<times> SeqNum" where
  "Transmitter_skipAck val i = (\<lambda>(t, out_pos, last_acked).
     if RingBuffer_contains (tx_out_ring t) out_pos \<and> val AND push_bit i 1 \<noteq> 0
     then (Transmitter_setOutBuffer t out_pos (OutBuffer_ack (Transmitter_getOutBuffer t out_pos)),
           out_pos + 1, out_pos)
     else (t, out_pos + 1, last_acked))"

definition Transmitter_skipAcks ::
  "byte list \<Rightarrow> Transmitter \<times> SeqNum \<times> SeqNum \<Rightarrow> Transmitter \<times> SeqNum \<times> SeqNum" where
  "Transmitter_skipAcks ack_bitmap =
     fold (\<lambda>val. fold (Transmitter_skipAck val) [7, 6, 5, 4, 3, 2, 1, 0]) ack_bitmap"

text \<open>Rushing the packets that were sent once and are missing below \<open>last_acked\<close>.\<close>

function Transmitter_rush ::
  "lib \<Rightarrow> Transmitter \<Rightarrow> SeqNum \<Rightarrow> SeqNum \<Rightarrow> bool \<Rightarrow> bool \<Rightarrow> (Transmitter \<times> bool) option" where
  "Transmitter_rush L t pos last_acked next_to_send_updated rushed =
     (if pos = last_acked then Some (t, rushed)
      else let b = Transmitter_getOutBuffer t pos
           in if \<not> ob_acked b \<and> ob_send_counter b = 1 then
                (case OutBuffer_rush L b of
                   None \<Rightarrow> None
                 | Some b \<Rightarrow>
                    (let t = Transmitter_setOutBuffer t pos b;
                         t = (if next_to_send_updated then t else t\<lparr>tx_next_to_send := pos\<rparr>)
                     in Transmitter_rush L t (pos + 1) last_acked True True))
              else Transmitter_rush L t (pos + 1) last_acked next_to_send_updated rushed)"
  by pat_completeness auto
termination
  by (relation "measure (\<lambda>(L, t, pos, last_acked, _). unat (last_acked - pos))") (auto simp: dist_inc)

declare Transmitter_rush.simps [simp del]

definition Transmitter_ack ::
  "lib \<Rightarrow> Transmitter \<Rightarrow> bool \<Rightarrow> u16 \<Rightarrow> byte list \<Rightarrow> (Transmitter \<times> bool) option" where
  "Transmitter_ack L t control_bit seq_id ack_bitmap =
     (if tx_state t \<noteq> T_kConnected then Some (t, False)
      else if control_bit = tx_control_bit t then Some (t, False)
      else
        (let seq = RingBuffer_restorePosHighBits (tx_out_ring t) seq_id 12
         in if SeqNum_gt seq (rb_end (tx_out_ring t)) then Some (t, False)
            else do {
              t \<leftarrow> Transmitter_release L t seq;
              if RingBuffer_empty (tx_out_ring t) then do {
                t \<leftarrow> (if tx_end_of_stream t then Transmitter_reset t else Some t);
                Some (t, False)
              } else do {
                let begin0 = rb_begin (tx_out_ring t);
                let (t, _, last_acked) = Transmitter_skipAcks ack_bitmap (t, begin0 + 1, begin0 - 1);
                if RingBuffer_contains (tx_out_ring t) last_acked
                then Transmitter_rush L t begin0 last_acked False False
                else Some (t, False)
              }
            }))"

definition Transmitter_updateRecvHimark :: "Transmitter \<Rightarrow> bool \<Rightarrow> u16 \<Rightarrow> Transmitter \<times> bool" where
  "Transmitter_updateRecvHimark t control_bit recv_himark =
     (if tx_state t \<noteq> T_kConnected then (t, False)
      else if tx_control_bit t = control_bit then (t, False)
      else
        (let new_recv_himark = RingBuffer_restorePosHighBits (tx_out_ring t) recv_himark 12
         in if SeqNum_lt new_recv_himark (tx_recv_himark t)
               \<or> SeqNum_gt new_recv_himark
                   (SeqNum_plus (rb_end (tx_out_ring t)) (uint (tx_peer_receive_buffer_size t)))
            then (t, False)
            else (t\<lparr>tx_recv_himark := new_recv_himark\<rparr>, True)))"

end
