(* ===== verification/Transmitter_Spec.thy ===== *)
theory Transmitter_Spec
  imports Transmitter
begin

text \<open>
  What the transmitter promises. Its window is abstracted to the list of the fragments that
  are queued, in order (\<open>tx_frags\<close>). Writing appends bytes and never changes a fragment
  that is finished, which is every fragment that was ever sent; closing appends the
  end-of-stream fragment; an acknowledgement removes fragments from the front; sending changes
  no fragment. The operations are shown to implement this and never to fail a \<open>CHECK\<close>.
\<close>

section \<open>The abstract send queue\<close>

definition ob_frag :: "lib \<Rightarrow> OutBuffer \<Rightarrow> byte list \<times> bool" where
  "ob_frag L b = (ob_bytes b, GetPacketType (LoadBeU16 L (ob_header b)) = kFinPacket)"

definition tx_queue :: "Transmitter \<Rightarrow> OutBuffer list" where
  "tx_queue t = contents (tx_out_ring t) (tx_out_buffers t)"

definition tx_frags :: "lib \<Rightarrow> Transmitter \<Rightarrow> (byte list \<times> bool) list" where
  "tx_frags L t = map (ob_frag L) (tx_queue t)"

definition frag_bytes :: "(byte list \<times> bool) list \<Rightarrow> byte list" where
  "frag_bytes fs = concat (map fst fs)"

definition queue_bytes :: "OutBuffer list \<Rightarrow> byte list" where
  "queue_bytes bs = concat (map ob_bytes bs)"

lemma length_tx_queue [simp]: "length (tx_queue t) = used (tx_out_ring t)"
  by (simp add: tx_queue_def)

lemma frag_bytes_tx_frags: "frag_bytes (tx_frags L t) = queue_bytes (tx_queue t)"
  by (simp add: frag_bytes_def tx_frags_def queue_bytes_def ob_frag_def comp_def)

section \<open>The invariant\<close>

definition tx_ok :: "Transmitter \<Rightarrow> bool" where
  "tx_ok t \<longleftrightarrow> unat (tx_peer_receive_buffer_size t) \<le> 1024 \<and> ring_ok (tx_out_ring t) \<and> length (tx_out_buffers t) = cap (tx_out_ring t)
     \<and> (\<forall>b \<in> set (tx_out_buffers t). length (ob_payload b) = 250)
     \<and> (\<forall>b \<in> set (tx_queue t). ob_ok b)"

text \<open>The header of the \<open>k\<close>-th queued packet: only the last one, after \<open>close\<close>, is final.\<close>

definition tx_type :: "Transmitter \<Rightarrow> nat \<Rightarrow> PacketType" where
  "tx_type t k = (if tx_end_of_stream t \<and> \<not> tx_has_pending_eof t \<and> Suc k = used (tx_out_ring t)
     then kFinPacket else kDataPacket)"

definition tx_headers :: "lib \<Rightarrow> Transmitter \<Rightarrow> bool" where
  "tx_headers L t \<longleftrightarrow> (\<forall>k < used (tx_out_ring t).
     ob_header (tx_queue t ! k) = StoreBeU16 L
       (FormatPacketHeader (rb_begin (tx_out_ring t) + of_nat k) (tx_type t k) (tx_control_bit t)))"

text \<open>
  Only the last packet of an open stream can be unfinished, and then it is the current one;
  the current buffer is finished or is that one; every data packet has a byte.
\<close>

definition tx_current :: "Transmitter \<Rightarrow> bool" where
  "tx_current t \<longleftrightarrow>
     (\<forall>k < used (tx_out_ring t). ob_finished (tx_queue t ! k) \<or> tx_end_of_stream t
       \<or> Suc k = used (tx_out_ring t)
         \<and> tx_current_out_buffer t = Some (slot (tx_out_ring t) (rb_begin (tx_out_ring t) + of_nat k)))
   \<and> (\<forall>i. tx_current_out_buffer t = Some i \<longrightarrow> i < length (tx_out_buffers t)
       \<and> (tx_end_of_stream t \<or> ob_finished (tx_out_buffers t ! i)
         \<or> 0 < used (tx_out_ring t)
           \<and> i = slot (tx_out_ring t) (rb_begin (tx_out_ring t) + of_nat (used (tx_out_ring t) - 1))))
   \<and> (\<forall>k < used (tx_out_ring t). tx_type t k = kDataPacket \<longrightarrow> ob_bytes (tx_queue t ! k) \<noteq> [])"

text \<open>Flow-control credit: the peer's mark is never behind the queue while the stream is open.\<close>

definition tx_credit :: "Transmitter \<Rightarrow> bool" where
  "tx_credit t \<longleftrightarrow> (\<not> tx_end_of_stream t \<longrightarrow> unat (tx_recv_himark t - rb_end (tx_out_ring t)) \<le> 1024)
     \<and> (tx_has_pending_eof t \<longrightarrow> tx_end_of_stream t)"

definition tx_inv :: "lib \<Rightarrow> Transmitter \<Rightarrow> bool" where
  "tx_inv L t \<longleftrightarrow> tx_ok t \<and> tx_headers L t \<and> tx_current t \<and> tx_credit t"

lemma nth_tx_queue:
  "k < used (tx_out_ring t) \<Longrightarrow>
    tx_queue t ! k = tx_out_buffers t ! slot (tx_out_ring t) (rb_begin (tx_out_ring t) + of_nat k)"
  by (simp add: tx_queue_def nth_contents)

text \<open>What writing leaves alone; \<open>bs\<close> are the bytes it appends.\<close>

definition tx_grows :: "Transmitter \<Rightarrow> Transmitter \<Rightarrow> byte list \<Rightarrow> bool" where
  "tx_grows t t' bs \<longleftrightarrow>
     rb_begin (tx_out_ring t') = rb_begin (tx_out_ring t)
     \<and> rb_capacity_log2 (tx_out_ring t') = rb_capacity_log2 (tx_out_ring t)
     \<and> used (tx_out_ring t) \<le> used (tx_out_ring t')
     \<and> queue_bytes (tx_queue t') = queue_bytes (tx_queue t) @ bs
     \<and> (\<forall>k < used (tx_out_ring t). ob_finished (tx_queue t ! k) \<longrightarrow> tx_queue t' ! k = tx_queue t ! k)
     \<and> (\<forall>k < used (tx_out_ring t'). ob_acked (tx_queue t' ! k) \<longrightarrow>
         k < used (tx_out_ring t) \<and> ob_acked (tx_queue t ! k))
     \<and> tx_next_to_send t' = tx_next_to_send t
     \<and> tx_state t' = tx_state t \<and> tx_end_of_stream t' = tx_end_of_stream t
     \<and> tx_has_pending_eof t' = tx_has_pending_eof t \<and> tx_control_bit t' = tx_control_bit t
     \<and> tx_recv_himark t' = tx_recv_himark t \<and> tx_my_stream_id t' = tx_my_stream_id t"

lemma tx_growsD:
  assumes "tx_grows t t' bs"
  shows "used (tx_out_ring t) \<le> used (tx_out_ring t')"
    "rb_begin (tx_out_ring t') = rb_begin (tx_out_ring t)"
    "queue_bytes (tx_queue t') = queue_bytes (tx_queue t) @ bs"
    "k < used (tx_out_ring t) \<Longrightarrow> ob_finished (tx_queue t ! k) \<Longrightarrow> tx_queue t' ! k = tx_queue t ! k"
    "k < used (tx_out_ring t') \<Longrightarrow> ob_acked (tx_queue t' ! k) \<Longrightarrow>
      k < used (tx_out_ring t) \<and> ob_acked (tx_queue t ! k)"
    "tx_next_to_send t' = tx_next_to_send t" "tx_state t' = tx_state t"
    "tx_end_of_stream t' = tx_end_of_stream t" "tx_has_pending_eof t' = tx_has_pending_eof t"
    "tx_control_bit t' = tx_control_bit t" "tx_recv_himark t' = tx_recv_himark t"
    "rb_capacity_log2 (tx_out_ring t') = rb_capacity_log2 (tx_out_ring t)"
    "tx_my_stream_id t' = tx_my_stream_id t"
  using assms unfolding tx_grows_def by blast+

lemma tx_growsI:
  assumes "\<And>k. k < used (tx_out_ring t) \<Longrightarrow> ob_finished (tx_queue t ! k) \<Longrightarrow> tx_queue t' ! k = tx_queue t ! k"
    and "\<And>k. k < used (tx_out_ring t') \<Longrightarrow> ob_acked (tx_queue t' ! k) \<Longrightarrow>
      k < used (tx_out_ring t) \<and> ob_acked (tx_queue t ! k)"
    and "queue_bytes (tx_queue t') = queue_bytes (tx_queue t) @ bs"
    and "used (tx_out_ring t) \<le> used (tx_out_ring t')"
    and "rb_begin (tx_out_ring t') = rb_begin (tx_out_ring t)"
    and "rb_capacity_log2 (tx_out_ring t') = rb_capacity_log2 (tx_out_ring t)"
    and "tx_next_to_send t' = tx_next_to_send t" and "tx_state t' = tx_state t"
    and "tx_end_of_stream t' = tx_end_of_stream t" and "tx_has_pending_eof t' = tx_has_pending_eof t"
    and "tx_control_bit t' = tx_control_bit t" and "tx_recv_himark t' = tx_recv_himark t"
    and "tx_my_stream_id t' = tx_my_stream_id t"
  shows "tx_grows t t' bs"
  unfolding tx_grows_def using assms by blast

lemma tx_grows_trans:
  assumes 1: "tx_grows t t1 bs" and 2: "tx_grows t1 t2 cs"
  shows "tx_grows t t2 (bs @ cs)"
proof -
  have "tx_queue t2 ! k = tx_queue t ! k" if "k < used (tx_out_ring t)" "ob_finished (tx_queue t ! k)" for k
    using tx_growsD(4) [OF 1 that] tx_growsD(4) [OF 2, of k] tx_growsD(1) [OF 1] that by simp
  moreover have "k < used (tx_out_ring t) \<and> ob_acked (tx_queue t ! k)"
    if "k < used (tx_out_ring t2)" "ob_acked (tx_queue t2 ! k)" for k
    using tx_growsD(5) [OF 2 that] tx_growsD(5) [OF 1, of k] by blast
  moreover have "used (tx_out_ring t) \<le> used (tx_out_ring t2)"
    using tx_growsD(1) [OF 1] tx_growsD(1) [OF 2] by (rule le_trans)
  ultimately show ?thesis
    unfolding tx_grows_def by (simp add: tx_growsD(2,3,6-13) [OF 1] tx_growsD(2,3,6-13) [OF 2])
qed

lemma tx_grows_refl: "tx_grows t t []"
  by (simp add: tx_grows_def)

section \<open>Writing\<close>

lemma tx_type_open [simp]: "\<not> tx_end_of_stream t \<Longrightarrow> tx_type t k = kDataPacket"
  by (simp add: tx_type_def)

lemma queue_bytes_append [simp]: "queue_bytes (xs @ ys) = queue_bytes xs @ queue_bytes ys"
  by (simp add: queue_bytes_def)

lemma queue_bytes_single [simp]: "queue_bytes [b] = ob_bytes b"
  by (simp add: queue_bytes_def)

text \<open>A new last packet.\<close>

lemma append_packet:
  assumes inv: "tx_inv L t" and opn: "\<not> tx_end_of_stream t" and none: "tx_current_out_buffer t = None"
    and room: "used (tx_out_ring t) < cap (tx_out_ring t)"
    and credit: "tx_recv_himark t \<noteq> rb_end (tx_out_ring t)"
    and b: "ob_ok b" "ob_bytes b \<noteq> []" "\<not> ob_acked b" "ob_header b = StoreBeU16 L
      (FormatPacketHeader (rb_end (tx_out_ring t)) kDataPacket (tx_control_bit t))"
    and t': "t' = t\<lparr>tx_out_ring := (tx_out_ring t)\<lparr>rb_end := rb_end (tx_out_ring t) + 1\<rparr>,
      tx_out_buffers := (tx_out_buffers t)[slot (tx_out_ring t) (rb_end (tx_out_ring t)) := b],
      tx_current_out_buffer := (if ob_finished b then None
        else Some (slot (tx_out_ring t) (rb_end (tx_out_ring t))))\<rparr>"
  shows "tx_inv L t'" "tx_queue t' = tx_queue t @ [b]" "tx_grows t t' (ob_bytes b)"
proof -
  let ?ring = "tx_out_ring t" and ?i = "slot (tx_out_ring t) (rb_end (tx_out_ring t))"
  have ok: "ring_ok ?ring" "length (tx_out_buffers t) = cap ?ring"
    "\<forall>b \<in> set (tx_out_buffers t). length (ob_payload b) = 250" "\<forall>b \<in> set (tx_queue t). ob_ok b"
    "unat (tx_peer_receive_buffer_size t) \<le> 1024"
    using inv by (simp_all add: tx_inv_def tx_ok_def)
  have u: "used (tx_out_ring t') = Suc (used ?ring)"
    using used_push [OF ok(1) room] by (simp add: t')
  show q: "tx_queue t' = tx_queue t @ [b]"
    using contents_push_update [OF ok(1) room ok(2)] by (simp add: tx_queue_def t')
  have end_pos: "rb_begin ?ring + of_nat (used ?ring) = rb_end ?ring"
    by (rule end_eq [symmetric])
  have len: "length (ob_payload b) = 250"
    using b(1) by (simp add: ob_ok_def)
  have "tx_ok t'"
    using ok b(1) len ring_ok_push [OF ok(1) room] unfolding tx_ok_def q
    by (auto simp: t' dest!: set_update_subset_insert [THEN subsetD])
  moreover have "tx_headers L t'"
    using inv opn b(4) end_pos unfolding tx_headers_def u q
    by (auto simp: tx_inv_def tx_headers_def nth_append t' less_Suc_eq simp del: tx_type_def)
  moreover have "tx_current t'"
  proof -
    have "ob_finished (tx_queue t ! k)" if "k < used ?ring" for k
      using inv opn none that by (auto simp: tx_inv_def tx_current_def)
    moreover have "ob_bytes (tx_queue t ! k) \<noteq> []" if "k < used ?ring" for k
      using inv opn that by (auto simp: tx_inv_def tx_current_def)
    moreover have "?i < length (tx_out_buffers t)"
      using ok by (simp add: offset_for_less)
    ultimately show ?thesis
      using b(2) end_pos unfolding tx_current_def u q
      by (auto simp: t' nth_append less_Suc_eq split: if_splits)
  qed
  moreover have "tx_credit t'"
  proof -
    have "unat (tx_recv_himark t - (rb_end ?ring + 1)) < unat (tx_recv_himark t - rb_end ?ring)"
      using credit by (intro dist_inc) simp
    then show ?thesis
      using inv opn by (auto simp: tx_inv_def tx_credit_def t')
  qed
  ultimately show "tx_inv L t'"
    by (simp add: tx_inv_def)
  have "tx_queue t' ! k = tx_queue t ! k" if "k < used ?ring" "ob_finished (tx_queue t ! k)" for k
    using that by (simp add: q nth_append)
  moreover have "k < used ?ring \<and> ob_acked (tx_queue t ! k)"
    if "k < used (tx_out_ring t')" "ob_acked (tx_queue t' ! k)" for k
    using that b(3) by (cases "k = used ?ring") (simp_all add: q u nth_append)
  moreover have "queue_bytes (tx_queue t') = queue_bytes (tx_queue t) @ ob_bytes b"
    by (simp add: q)
  moreover have "used ?ring \<le> used (tx_out_ring t')"
    by (simp add: u)
  ultimately show "tx_grows t t' (ob_bytes b)"
    by (rule tx_growsI) (simp_all add: t')
qed

text \<open>A rewritten last packet.\<close>

lemma extend_packet:
  assumes inv: "tx_inv L t" and opn: "\<not> tx_end_of_stream t"
    and cur: "tx_current_out_buffer t = Some i" "\<not> ob_finished (tx_out_buffers t ! i)"
    and b: "ob_ok b" "ob_bytes b = ob_bytes (tx_out_buffers t ! i) @ bs"
      "ob_header b = ob_header (tx_out_buffers t ! i)" "ob_acked b = ob_acked (tx_out_buffers t ! i)"
    and t': "t' = t\<lparr>tx_out_buffers := (tx_out_buffers t)[i := b],
      tx_current_out_buffer := (if ob_finished b then None else Some i)\<rparr>"
  shows "tx_inv L t'" "tx_grows t t' bs" "0 < used (tx_out_ring t)"
    "tx_queue t' = (tx_queue t)[used (tx_out_ring t) - 1 := b]"
proof -
  let ?ring = "tx_out_ring t" and ?k = "used (tx_out_ring t) - 1"
  have ok: "ring_ok ?ring" "length (tx_out_buffers t) = cap ?ring"
    "\<forall>b \<in> set (tx_out_buffers t). length (ob_payload b) = 250" "\<forall>b \<in> set (tx_queue t). ob_ok b"
    "unat (tx_peer_receive_buffer_size t) \<le> 1024"
    using inv by (simp_all add: tx_inv_def tx_ok_def)
  have i: "i < length (tx_out_buffers t)" "0 < used ?ring" "i = slot ?ring (rb_begin ?ring + of_nat ?k)"
    using inv opn cur by (auto simp: tx_inv_def tx_current_def)
  then show "0 < used ?ring"
    by simp
  have last: "tx_queue t ! ?k = tx_out_buffers t ! i"
    using nth_tx_queue [of ?k t] i by simp
  have last': "tx_queue t ! k = tx_out_buffers t ! i" if "Suc k = used ?ring" for k
    using last that by (metis diff_Suc_1)
  show q: "tx_queue t' = (tx_queue t)[?k := b]"
    using contents_update [OF ok(1, 2), of ?k b] i by (simp add: tx_queue_def t')
  have f: "tx_out_ring t' = ?ring" "tx_end_of_stream t' = tx_end_of_stream t"
    "tx_control_bit t' = tx_control_bit t" "tx_out_buffers t' = (tx_out_buffers t)[i := b]"
    "tx_current_out_buffer t' = (if ob_finished b then None else Some i)"
    by (simp_all add: t')
  have len: "length (ob_payload b) = 250"
    using b(1) by (simp add: ob_ok_def)
  have nth: "tx_queue t' ! k = (if Suc k = used ?ring then b else tx_queue t ! k)" if "k < used ?ring" for k
    using that unfolding q by (auto simp: nth_list_update)
  have "tx_ok t'"
    using ok b(1) len unfolding tx_ok_def q
    by (auto simp: t' dest!: set_update_subset_insert [THEN subsetD])
  moreover have "tx_headers L t'"
    using inv opn b(3) unfolding tx_headers_def
    by (auto simp: tx_inv_def tx_headers_def nth f last' [symmetric])
  moreover have "tx_current t'"
  proof -
    have "ob_finished (tx_queue t ! k)" if "k < used ?ring" "Suc k \<noteq> used ?ring" for k
      using inv opn that by (auto simp: tx_inv_def tx_current_def)
    moreover have ne: "ob_bytes (tx_queue t ! k) \<noteq> []" if "k < used ?ring" for k
      using inv opn that by (auto simp: tx_inv_def tx_current_def)
    moreover obtain k0 where k0: "used ?ring = Suc k0" "i = slot ?ring (rb_begin ?ring + of_nat k0)"
      using i by (cases "used ?ring") auto
    moreover have "ob_bytes b \<noteq> []"
      using ne [of ?k] i b(2) last by simp
    ultimately show ?thesis
      using i(1) unfolding tx_current_def by (auto simp: nth f less_Suc_eq)
  qed
  moreover have "tx_credit t'"
    using inv by (auto simp: tx_inv_def tx_credit_def t')
  ultimately show "tx_inv L t'"
    by (simp add: tx_inv_def)
  have "tx_queue t = butlast (tx_queue t) @ [tx_out_buffers t ! i]"
    using last i by (metis append_butlast_last_id last_conv_nth length_tx_queue list.size(3) not_less0)
  then obtain xs where xs: "tx_queue t = xs @ [tx_out_buffers t ! i]"
    by blast
  then have "tx_queue t' = xs @ [b]"
    using length_tx_queue [of t] unfolding q by (auto simp: list_update_append)
  then have qb: "queue_bytes (tx_queue t') = queue_bytes (tx_queue t) @ bs"
    using xs b(2) by simp
  have "tx_queue t' ! k = tx_queue t ! k" if "k < used ?ring" "ob_finished (tx_queue t ! k)" for k
    using that cur(2) last' by (cases "Suc k = used ?ring") (simp_all add: nth)
  moreover have "k < used ?ring \<and> ob_acked (tx_queue t ! k)"
    if "k < used (tx_out_ring t')" "ob_acked (tx_queue t' ! k)" for k
    using that b(4) last' by (cases "Suc k = used ?ring") (simp_all add: nth f)
  moreover note qb
  moreover have "used ?ring \<le> used (tx_out_ring t')"
    by (simp add: f)
  ultimately show "tx_grows t t' bs"
    by (rule tx_growsI) (simp_all add: t')
qed

lemma finished_current:
  assumes inv: "tx_inv L t" and cur: "tx_current_out_buffer t = Some i" "ob_finished (tx_out_buffers t ! i)"
    and t': "t' = t\<lparr>tx_current_out_buffer := None\<rparr>"
  shows "tx_inv L t'" "tx_grows t t' []"
proof -
  have q: "tx_queue t' = tx_queue t"
    by (simp add: tx_queue_def t')
  have "ob_finished (tx_queue t ! k) \<or> tx_end_of_stream t" if "k < used (tx_out_ring t)" for k
    using inv cur that nth_tx_queue [OF that] by (auto simp: tx_inv_def tx_current_def)
  then have "tx_current t'"
    using inv unfolding tx_inv_def tx_current_def q by (auto simp: t' tx_type_def)
  then show "tx_inv L t'"
    using inv unfolding tx_inv_def tx_ok_def tx_headers_def q by (auto simp: t' tx_type_def tx_credit_def)
  show "tx_grows t t' []"
    unfolding tx_grows_def q by (simp add: t')
qed

context roo_lib
begin

text \<open>One iteration of \<open>tryWrite\<close>.\<close>

lemma write_step:
  assumes inv: "tx_inv L t" and opn: "\<not> tx_end_of_stream t" and ne: "buf \<noteq> []"
    and acq: "Transmitter_acquire L t = Some (Some (t1, i, b))"
  shows "\<exists>t2 n f. Transmitter_fill L t1 i b buf = Some (t2, n, f) \<and> n \<le> length buf
    \<and> tx_inv L t2 \<and> tx_grows t t2 (take n buf)"
proof (cases "tx_current_out_buffer t")
  case (Some j)
  then have a: "t1 = t" "i = j" "b = tx_out_buffers t ! j"
    using acq by (auto simp: Transmitter_acquire_def)
  show ?thesis
  proof (cases "ob_finished b")
    case True
    then show ?thesis
      using finished_current [OF inv Some _ refl] a by (auto simp: Transmitter_fill_def)
  next
    case False
    have j: "0 < used (tx_out_ring t)"
      "j = slot (tx_out_ring t) (rb_begin (tx_out_ring t) + of_nat (used (tx_out_ring t) - 1))"
      using inv opn Some False a by (auto simp: tx_inv_def tx_current_def)
    have "b = tx_queue t ! (used (tx_out_ring t) - 1)"
      using nth_tx_queue [of "used (tx_out_ring t) - 1" t] j a by simp
    then have "ob_ok b"
      using inv j by (auto simp: tx_inv_def tx_ok_def)
    then obtain b' where b': "OutBuffer_write L b buf = Some (b', min (length buf) (248 - unat (ob_size b)))"
      "ob_ok b'" "ob_bytes b' = ob_bytes b @ take (min (length buf) (248 - unat (ob_size b))) buf"
      "ob_header b' = ob_header b" "ob_acked b' = ob_acked b"
      using OutBuffer_write_spec [of b L buf] False by metis
    let ?t2 = "t\<lparr>tx_out_buffers := (tx_out_buffers t)[j := b'],
      tx_current_out_buffer := (if ob_finished b' then None else Some j)\<rparr>"
    have "Transmitter_fill L t1 i b buf
        = Some (?t2, min (length buf) (248 - unat (ob_size b)), ob_finished b')"
      using b'(1) a Some by (cases t) (simp add: Transmitter_fill_def)
    then show ?thesis
      using extend_packet [OF inv opn Some _ b'(2) _ _ _ refl] b' a False by auto
  qed
next
  case None
  let ?ring = "tx_out_ring t" and ?e = "rb_end (tx_out_ring t)"
  have ring: "ring_ok ?ring"
    using inv by (simp add: tx_inv_def tx_ok_def)
  have room: "used ?ring < cap ?ring" "tx_recv_himark t \<noteq> ?e"
    using acq None used_le_cap [OF ring]
    by (auto simp: Transmitter_acquire_def slotsFree_eq_0 [OF ring] split: if_splits)
  have a: "t1 = t\<lparr>tx_out_ring := ?ring\<lparr>rb_end := ?e + 1\<rparr>, tx_current_out_buffer := Some i\<rparr>"
    "i = slot ?ring ?e" "b = OutBuffer_init L (tx_out_buffers t ! i) ?e (tx_control_bit t)"
    using acq None room by (auto simp: Transmitter_acquire_def push_eq [OF ring] Let_def split: if_splits)
  have "length (ob_payload (tx_out_buffers t ! i)) = 250"
    using inv ring unfolding a(2) by (simp add: tx_inv_def tx_ok_def offset_for_less)
  then have b: "ob_ok b" "ob_bytes b = []" "\<not> ob_finished b" "\<not> ob_acked b"
    "ob_header b = StoreBeU16 L (FormatPacketHeader ?e kDataPacket (tx_control_bit t))"
    unfolding a(3) by (simp_all add: OutBuffer_init_ok OutBuffer_init_bytes OutBuffer_init_header)
      (simp_all add: OutBuffer_init_def Let_def)
  then obtain b' where b': "OutBuffer_write L b buf = Some (b', min (length buf) (248 - unat (ob_size b)))"
    "ob_ok b'" "ob_bytes b' = take (min (length buf) (248 - unat (ob_size b))) buf"
    "ob_header b' = ob_header b" "ob_acked b' = ob_acked b"
    using OutBuffer_write_spec [of b L buf] by (metis append_Nil)
  have "unat (ob_size b) < 248"
    using b by (simp add: ob_ok_def)
  then have "ob_bytes b' \<noteq> []"
    using b'(3) ne by simp
  moreover let ?t2 = "t\<lparr>tx_out_ring := ?ring\<lparr>rb_end := ?e + 1\<rparr>,
    tx_out_buffers := (tx_out_buffers t)[slot ?ring ?e := b'],
    tx_current_out_buffer := (if ob_finished b' then None else Some (slot ?ring ?e))\<rparr>"
  have "Transmitter_fill L t1 i b buf = Some (?t2, min (length buf) (248 - unat (ob_size b)), ob_finished b')"
    using b'(1) unfolding a(1, 2) by (cases t) (simp add: Transmitter_fill_def)
  ultimately show ?thesis
    using append_packet [OF inv opn None room b'(2) _ _ _ refl] b' b(4, 5) by auto
qed

end

text \<open>
  \<open>tryWrite\<close> takes a prefix of the buffer, appends exactly that, and takes less than all
  of it only when the peer's credit or the queue is exhausted.
\<close>

lemma tryWrite_loop_spec:
  assumes "roo_lib L" "tx_inv L t" "\<not> tx_end_of_stream t"
  shows "\<exists>t' n ready'. Transmitter_tryWrite_loop L t buf total_written ready = Some (t', total_written + n, ready')
    \<and> n \<le> length buf \<and> tx_inv L t' \<and> tx_grows t t' (take n buf)
    \<and> (n < length buf \<longrightarrow> tx_current_out_buffer t' = None
        \<and> (tx_recv_himark t' = rb_end (tx_out_ring t') \<or> used (tx_out_ring t') = cap (tx_out_ring t')))"
  using assms
proof (induction L t buf total_written ready rule: Transmitter_tryWrite_loop.induct)
  case (1 L t total_written ready)
  then show ?case
    by (auto intro!: tx_grows_refl)
next
  case (2 L t x buf total_written ready)
  let ?buf = "x # buf"
  have inv: "tx_inv L t" and opn: "\<not> tx_end_of_stream t"
    using 2 by simp_all
  have ring: "ring_ok (tx_out_ring t)"
    using inv by (simp add: tx_inv_def tx_ok_def)
  have ge: "SeqNum_ge (tx_recv_himark t) (rb_end (tx_out_ring t))"
    using inv opn by (simp add: SeqNum_ge_iff_dist tx_inv_def tx_credit_def)
  consider "Transmitter_acquire L t = Some None"
    | t1 i b where "Transmitter_acquire L t = Some (Some (t1, i, b))"
  proof -
    have "RingBuffer_slotsFree (tx_out_ring t) \<noteq> 0 \<Longrightarrow> RingBuffer_push (tx_out_ring t) \<noteq> None"
      using used_le_cap [OF ring] by (simp add: slotsFree_eq_0 [OF ring] push_eq [OF ring])
    then have "Transmitter_acquire L t \<noteq> None"
      by (auto simp: Transmitter_acquire_def Let_def split: option.splits)
    then show ?thesis
      using that by (metis not_None_eq prod_cases3)
  qed
  then show ?case
  proof cases
    case 1
    then have "tx_current_out_buffer t = None
        \<and> (tx_recv_himark t = rb_end (tx_out_ring t) \<or> used (tx_out_ring t) = cap (tx_out_ring t))"
      by (auto simp: Transmitter_acquire_def slotsFree_eq_0 [OF ring] bind_eq_Some_conv Let_def
          split: option.splits if_splits)
    then show ?thesis
      using 1 ge inv by (auto simp: Transmitter_tryWrite_loop.simps(2) intro!: tx_grows_refl)
  next
    case acq: 2
    obtain t2 n f where s: "Transmitter_fill L t1 i b ?buf = Some (t2, n, f)" "n \<le> length ?buf"
      "tx_inv L t2" "tx_grows t t2 (take n ?buf)"
      using roo_lib.write_step [OF 2(2) inv opn _ acq, of ?buf] by blast
    have opn2: "\<not> tx_end_of_stream t2"
      using s(4) opn by (simp add: tx_grows_def)
    obtain t' m r where m: "Transmitter_tryWrite_loop L t2 (drop n ?buf) (total_written + n) (ready \<or> f)
        = Some (t', total_written + n + m, r)" "m \<le> length (drop n ?buf)" "tx_inv L t'"
      "tx_grows t2 t' (take m (drop n ?buf))"
      "m < length (drop n ?buf) \<longrightarrow> tx_current_out_buffer t' = None
        \<and> (tx_recv_himark t' = rb_end (tx_out_ring t') \<or> used (tx_out_ring t') = cap (tx_out_ring t'))"
      using 2(1) [OF _ acq refl refl refl s(1) refl refl 2(2) s(3) opn2] ge by auto
    have "tx_grows t t' (take (n + m) ?buf)"
      using tx_grows_trans [OF s(4) m(4)] by (simp add: take_add)
    then show ?thesis
      using ge acq s(1, 2) m(1-3, 5)
      by (intro exI [of _ t'] exI [of _ "n + m"] exI [of _ r])
        (simp add: Transmitter_tryWrite_loop.simps(2) add.assoc)
  qed
qed

end
