(* ===== verification/Transmitter_Queue.thy ===== *)
theory Transmitter_Queue
  imports Transmitter_Spec
begin

text \<open>
  The operations of the transmitter that do not write data: flushing, sending and marking
  packets keep every packet (\<open>tx_same\<close>), acknowledging removes packets from the front,
  and closing appends the end-of-stream packet.
\<close>

section \<open>Operations that keep the packets\<close>

definition same_packet :: "OutBuffer \<Rightarrow> OutBuffer \<Rightarrow> bool" where
  "same_packet b b' \<longleftrightarrow> ob_payload b' = ob_payload b \<and> ob_size b' = ob_size b
     \<and> (ob_finished b \<longrightarrow> ob_finished b') \<and> (ob_flushed b \<longrightarrow> ob_flushed b')
     \<and> (ob_finished b' \<longrightarrow> ob_finished b \<or> ob_flushed b')"

lemma same_packet_ops:
  "same_packet b b" "same_packet b (OutBuffer_flush b)" "same_packet b (OutBuffer_finish L b)"
  "same_packet b (OutBuffer_ack b)" "same_packet b (OutBuffer_markSent L b now draw)"
  by (simp_all add: same_packet_def buf_simps)

lemma same_packet_rush: "OutBuffer_rush L b = Some b' \<Longrightarrow> same_packet b b'"
  by (auto simp: OutBuffer_rush_def CHECK_bind same_packet_def split: if_splits)

lemma same_packet_trans: "same_packet a b \<Longrightarrow> same_packet b c \<Longrightarrow> same_packet a c"
  by (auto simp: same_packet_def)

lemma same_packet_list_update:
  "same_packet (xs ! i) b \<Longrightarrow> j < length xs \<Longrightarrow> same_packet (xs ! j) (xs[i := b] ! j)"
  by (cases "i = j") (simp_all add: same_packet_ops)

lemma same_packet_simps:
  assumes "same_packet b b'"
  shows "ob_packet b' = ob_packet b" "ob_bytes b' = ob_bytes b" "ob_header b' = ob_header b"
    "ob_frag L b' = ob_frag L b" "ob_ok b \<Longrightarrow> ob_ok b'"
  using assms
  by (auto simp: same_packet_def ob_packet_def ob_bytes_def ob_header_def ob_frag_def OutBuffer_size_def ob_ok_def)

definition tx_same :: "Transmitter \<Rightarrow> Transmitter \<Rightarrow> bool" where
  "tx_same t t' \<longleftrightarrow> tx_out_ring t' = tx_out_ring t
     \<and> length (tx_out_buffers t') = length (tx_out_buffers t)
     \<and> (\<forall>i < length (tx_out_buffers t). same_packet (tx_out_buffers t ! i) (tx_out_buffers t' ! i))
     \<and> tx_current_out_buffer t' = tx_current_out_buffer t \<and> tx_state t' = tx_state t
     \<and> tx_end_of_stream t' = tx_end_of_stream t \<and> tx_has_pending_eof t' = tx_has_pending_eof t
     \<and> tx_control_bit t' = tx_control_bit t \<and> tx_recv_himark t' = tx_recv_himark t
     \<and> tx_peer_receive_buffer_size t' = tx_peer_receive_buffer_size t
     \<and> tx_my_stream_id t' = tx_my_stream_id t"

lemma tx_same_refl [simp]: "tx_same t t"
  by (simp add: tx_same_def same_packet_ops)

lemma tx_same_trans: "tx_same t t1 \<Longrightarrow> tx_same t1 t2 \<Longrightarrow> tx_same t t2"
  by (auto simp: tx_same_def intro: same_packet_trans)

lemma tx_same_set:
  assumes "same_packet (Transmitter_getOutBuffer t s) b"
  shows "tx_same t (Transmitter_setOutBuffer t s b)"
  using assms
  by (simp add: tx_same_def Transmitter_setOutBuffer_def Transmitter_getOutBuffer_def
      same_packet_list_update)

lemma tx_same_update:
  "tx_same t t1 \<Longrightarrow> tx_same t (t1\<lparr>tx_next_to_send := s\<rparr>)"
  "tx_same t t1 \<Longrightarrow> tx_same t (t1\<lparr>tx_next_to_send := s, tx_packets_sent := n\<rparr>)"
  by (simp_all add: tx_same_def)

lemma tx_same_queue:
  assumes "tx_same t t'" "tx_ok t" "k < used (tx_out_ring t)"
  shows "same_packet (tx_queue t ! k) (tx_queue t' ! k)"
  using assms nth_tx_queue [of k t] nth_tx_queue [of k t']
  by (simp add: tx_same_def tx_ok_def offset_for_less)

lemma tx_same_inv:
  assumes same: "tx_same t t'" and inv: "tx_inv L t"
  shows "tx_inv L t'" "tx_frags L t' = tx_frags L t" "map ob_packet (tx_queue t') = map ob_packet (tx_queue t)"
proof -
  have ok: "tx_ok t"
    using inv by (simp add: tx_inv_def)
  note sp = tx_same_queue [OF same ok]
  have f: "tx_out_ring t' = tx_out_ring t" "length (tx_out_buffers t') = length (tx_out_buffers t)"
    "tx_type t' = tx_type t" "tx_end_of_stream t' = tx_end_of_stream t" "tx_control_bit t' = tx_control_bit t"
    "tx_current_out_buffer t' = tx_current_out_buffer t"
    using same by (auto simp: tx_same_def tx_type_def)
  have fin: "ob_finished (tx_out_buffers t' ! i)"
    if "i < length (tx_out_buffers t)" "ob_finished (tx_out_buffers t ! i)" for i
    using same that by (simp add: tx_same_def same_packet_def)
  have finq: "ob_finished (tx_queue t' ! k)" if "k < used (tx_out_ring t)" "ob_finished (tx_queue t ! k)" for k
    using sp [OF that(1)] that(2) by (simp add: same_packet_def)
  have pay: "length (ob_payload (tx_out_buffers t' ! i)) = 250" if "i < length (tx_out_buffers t)" for i
    using same ok that by (simp add: tx_same_def same_packet_def tx_ok_def)
  have okq: "ob_ok (tx_queue t' ! k)" if "k < used (tx_out_ring t)" for k
    using sp [OF that] same_packet_simps(5) ok that by (simp add: tx_ok_def)
  have "tx_ok t'"
    using ok pay okq f same unfolding tx_ok_def all_set_conv_all_nth by (simp add: tx_same_def)
  moreover have "tx_headers L t'"
    using inv sp [THEN same_packet_simps(3)] unfolding tx_inv_def tx_headers_def f by simp
  moreover have "tx_current t'"
    using inv sp [THEN same_packet_simps(2)] unfolding tx_inv_def tx_current_def f
    by (auto intro: fin finq)
  moreover have "tx_credit t'"
    using inv same by (simp add: tx_inv_def tx_credit_def tx_same_def)
  ultimately show "tx_inv L t'"
    by (simp add: tx_inv_def)
  show "tx_frags L t' = tx_frags L t"
    using sp same_packet_simps(4) f by (intro nth_equalityI) (simp_all add: tx_frags_def)
  show "map ob_packet (tx_queue t') = map ob_packet (tx_queue t)"
    using sp [THEN same_packet_simps(1)] f by (simp add: list_eq_iff_nth_eq)
qed

text \<open>The same acknowledgement flags.\<close>

definition same_acks :: "Transmitter \<Rightarrow> Transmitter \<Rightarrow> bool" where
  "same_acks t t' \<longleftrightarrow> map ob_acked (tx_out_buffers t') = map ob_acked (tx_out_buffers t)"

lemma same_acks_refl [simp]: "same_acks t t"
  by (simp add: same_acks_def)

lemma same_acks_trans: "same_acks t t1 \<Longrightarrow> same_acks t1 t2 \<Longrightarrow> same_acks t t2"
  by (simp add: same_acks_def)

lemma map_update_same: "f x = f (xs ! i) \<Longrightarrow> map f (xs[i := x]) = map f xs"
  by (cases "i < length xs") (simp_all add: map_update list_update_same_conv list_update_beyond)

lemma same_acks_set:
  "ob_acked b = ob_acked (Transmitter_getOutBuffer t s) \<Longrightarrow> same_acks t (Transmitter_setOutBuffer t s b)"
  unfolding same_acks_def Transmitter_setOutBuffer_def Transmitter_getOutBuffer_def
  by (simp add: map_update_same)

lemma same_acks_queue:
  assumes "same_acks t t'" "tx_ok t" "tx_out_ring t' = tx_out_ring t" "k < used (tx_out_ring t)"
  shows "ob_acked (tx_queue t' ! k) = ob_acked (tx_queue t ! k)"
proof -
  let ?i = "slot (tx_out_ring t) (rb_begin (tx_out_ring t) + of_nat k)"
  have "length (tx_out_buffers t') = length (tx_out_buffers t)"
    using assms(1) by (metis length_map same_acks_def)
  moreover have "?i < length (tx_out_buffers t)"
    using assms(2) by (simp add: tx_ok_def offset_for_less)
  moreover have "map ob_acked (tx_out_buffers t') ! ?i = map ob_acked (tx_out_buffers t) ! ?i"
    using assms(1) by (simp add: same_acks_def)
  ultimately show ?thesis
    using assms(3,4) nth_tx_queue [of k t] nth_tx_queue [of k t'] by simp
qed

lemma flush_acks: "same_acks t (fst (Transmitter_flush t))"
  by (cases "tx_current_out_buffer t")
    (simp_all add: Transmitter_flush_def same_acks_def map_update_same buf_simps)

lemma flush_next: "tx_next_to_send (fst (Transmitter_flush t)) = tx_next_to_send t"
  by (cases "tx_current_out_buffer t") (simp_all add: Transmitter_flush_def)

lemma flush_same: "tx_same t (fst (Transmitter_flush t))"
proof (cases "tx_current_out_buffer t")
  case (Some i)
  then show ?thesis
    by (simp add: Transmitter_flush_def tx_same_def same_packet_list_update same_packet_ops)
qed (simp add: Transmitter_flush_def)

section \<open>Sending\<close>

lemma mark_same: "tx_same t (Transmitter_mark L t s now draw)"
proof -
  let ?b = "Transmitter_getOutBuffer t s"
  let ?b1 = "if \<not> ob_finished ?b then OutBuffer_finish L ?b else ?b"
  have "same_packet ?b (OutBuffer_markSent L ?b1 now draw)"
    by (rule same_packet_trans [of _ ?b1]) (auto simp: same_packet_ops)
  then show ?thesis
    unfolding Transmitter_mark_def Let_def by (intro tx_same_update tx_same_set)
qed

lemma mark_acks: "same_acks t (Transmitter_mark L t s now draw)"
proof -
  have "same_acks t (Transmitter_setOutBuffer t s (OutBuffer_markSent L
      (if \<not> ob_finished (Transmitter_getOutBuffer t s) then OutBuffer_finish L (Transmitter_getOutBuffer t s)
       else Transmitter_getOutBuffer t s) now draw))"
    by (rule same_acks_set) (simp add: buf_simps)
  then show ?thesis
    by (simp add: Transmitter_mark_def Let_def same_acks_def)
qed

lemma mark_finished:
  assumes "tx_ok t" "s = rb_begin (tx_out_ring t) + of_nat k" "k < used (tx_out_ring t)"
  shows "ob_finished (tx_queue (Transmitter_mark L t s now draw) ! k)"
    "Transmitter_getOutBuffer (Transmitter_mark L t s now draw) s = tx_queue (Transmitter_mark L t s now draw) ! k"
proof -
  let ?t' = "Transmitter_mark L t s now draw"
  have ring: "tx_out_ring ?t' = tx_out_ring t"
    using mark_same [of t L s now draw] by (simp add: tx_same_def)
  have i: "slot (tx_out_ring t) s < length (tx_out_buffers t)"
    using assms(1) by (simp add: tx_ok_def offset_for_less)
  show q: "Transmitter_getOutBuffer ?t' s = tx_queue ?t' ! k"
    using nth_tx_queue [of k ?t'] assms(2, 3) ring by (simp add: Transmitter_getOutBuffer_def)
  show "ob_finished (tx_queue ?t' ! k)"
    unfolding q [symmetric] using i
    by (simp add: Transmitter_getOutBuffer_def Transmitter_mark_def Transmitter_setOutBuffer_def Let_def buf_simps)
qed

text \<open>A position that passes the test of the ring is one of the queue.\<close>

lemma contains_index:
  assumes "ring_ok r" "RingBuffer_contains r s" "used r = 0 \<Longrightarrow> s \<noteq> rb_begin r + 32768"
  obtains k where "k < used r" "s = rb_begin r + of_nat k"
proof -
  have "unat (s - rb_begin r) < used r"
    using assms by (auto simp: contains_iff)
  then show ?thesis
    using that [of "unat (s - rb_begin r)"] by simp
qed

lemma scan_empty:
  "used (tx_out_ring t) = 0 \<Longrightarrow> Transmitter_scan L t (rb_begin (tx_out_ring t)) s m = (s, m)"
  by (subst Transmitter_scan.simps) (simp add: used_zero_iff SeqNum_lt_def)

text \<open>The packet that is sent is a finished packet of the queue, and no packet changes.\<close>

definition sends :: "Transmitter \<Rightarrow> Transmitter \<Rightarrow> SeqNum \<Rightarrow> bool" where
  "sends t t' s \<longleftrightarrow> (\<exists>k < used (tx_out_ring t). s = rb_begin (tx_out_ring t) + of_nat k
     \<and> ob_finished (tx_queue t' ! k) \<and> Transmitter_getOutBuffer t' s = tx_queue t' ! k
     \<and> tx_next_to_send t' = s + 1)"

lemma mark_sends:
  assumes "tx_ok t" "tx_same t0 t" "k < used (tx_out_ring t)" "s = rb_begin (tx_out_ring t) + of_nat k"
  shows "tx_same t0 (Transmitter_mark L t s now draw)" "sends t0 (Transmitter_mark L t s now draw) s"
proof -
  show "tx_same t0 (Transmitter_mark L t s now draw)"
    using assms(2) mark_same by (rule tx_same_trans)
  have "tx_out_ring t0 = tx_out_ring t"
    using assms(2) by (simp add: tx_same_def)
  moreover have "tx_next_to_send (Transmitter_mark L t s now draw) = s + 1"
    by (simp add: Transmitter_mark_def Let_def)
  ultimately show "sends t0 (Transmitter_mark L t s now draw) s"
    using assms mark_finished [OF assms(1, 4, 3), of L now draw] by (auto simp: sends_def)
qed

lemma sendNext_spec:
  assumes "tx_ok t" "used (tx_out_ring t) = 0 \<Longrightarrow> tx_next_to_send t \<noteq> rb_begin (tx_out_ring t) + 32768"
    and "Transmitter_sendNext L t now draw = (t', sent)"
  shows "tx_same t t'" "same_acks t t'" "sent \<Longrightarrow> sends t t' (tx_next_to_send t)"
    "\<not> sent \<Longrightarrow> tx_next_to_send t' = tx_next_to_send t"
proof -
  let ?b = "Transmitter_getOutBuffer t (tx_next_to_send t)"
  have ring: "ring_ok (tx_out_ring t)"
    using assms(1) by (simp add: tx_ok_def)
  consider "t' = t" "\<not> sent"
    | "t' = Transmitter_setOutBuffer t (tx_next_to_send t) (OutBuffer_finish L ?b)" "\<not> sent"
    | "RingBuffer_contains (tx_out_ring t) (tx_next_to_send t)"
      "t' = Transmitter_mark L t (tx_next_to_send t) now draw" "sent"
    using assms(3) by (auto simp: Transmitter_sendNext_def Let_def split: if_splits)
  then have "tx_same t t' \<and> same_acks t t' \<and> (sent \<longrightarrow> sends t t' (tx_next_to_send t))
    \<and> (\<not> sent \<longrightarrow> tx_next_to_send t' = tx_next_to_send t)"
  proof cases
    case 2
    then show ?thesis
      using tx_same_set [of t "tx_next_to_send t" "OutBuffer_finish L ?b"]
        same_acks_set [of "OutBuffer_finish L ?b" t "tx_next_to_send t"]
      by (simp add: same_packet_ops buf_simps) (simp add: Transmitter_setOutBuffer_def)
  next
    case 3
    obtain k where k: "k < used (tx_out_ring t)" "tx_next_to_send t = rb_begin (tx_out_ring t) + of_nat k"
      using contains_index [OF ring 3(1) assms(2)] by blast
    show ?thesis
      using mark_sends [OF assms(1) tx_same_refl k, of L now draw]
        mark_acks [of t L "tx_next_to_send t" now draw] 3(2, 3) by simp
  qed simp
  then show "tx_same t t'" "same_acks t t'" "sent \<Longrightarrow> sends t t' (tx_next_to_send t)"
    "\<not> sent \<Longrightarrow> tx_next_to_send t' = tx_next_to_send t"
    by simp_all
qed

text \<open>What an attempt to send promises; \<open>so\<close> is the position that is sent, if any.\<close>

definition send_outcome :: "Transmitter \<Rightarrow> Transmitter \<times> SeqNum option \<times> int \<Rightarrow> bool" where
  "send_outcome t = (\<lambda>(t', so, _). tx_same t t' \<and> same_acks t t' \<and> (\<forall>s. so = Some s \<longrightarrow> sends t t' s)
     \<and> (so = None \<longrightarrow> tx_next_to_send t' = tx_next_to_send t))"

lemma send_outcome_none: "send_outcome t (t, None, n)"
  by (simp add: send_outcome_def)

lemma sendDue_outcome:
  assumes "tx_ok t" "tx_same t0 t" "tx_next_to_send t = tx_next_to_send t0" "same_acks t0 t"
    and "k < used (tx_out_ring t)" "s = rb_begin (tx_out_ring t) + of_nat k"
  shows "send_outcome t0 (Transmitter_sendDue L t s m now draw n)"
  using mark_sends [OF assms(1, 2, 5, 6)] assms(2-4) same_acks_trans [OF assms(4) mark_acks]
  by (simp add: send_outcome_def Transmitter_sendDue_def)

lemma sendAny_outcome:
  assumes "tx_inv L t"
  shows "send_outcome t (Transmitter_sendAny L t now draw n)"
proof -
  let ?ring = "tx_out_ring t" and ?b = "Transmitter_getOutBuffer t (rb_begin (tx_out_ring t))"
  have ok: "tx_ok t" "ring_ok ?ring"
    using assms by (simp_all add: tx_inv_def tx_ok_def)
  obtain ts mst where scan: "Transmitter_scan L t (rb_begin ?ring) (rb_end ?ring) (Uptime_Max L) = (ts, mst)"
    by fastforce
  let ?t1 = "Transmitter_setOutBuffer t (rb_begin ?ring) (OutBuffer_finish L ?b)"
  have acks1: "same_acks t ?t1"
    by (rule same_acks_set) (simp add: buf_simps)
  have same1: "tx_same t ?t1" and next1: "tx_next_to_send ?t1 = tx_next_to_send t"
    using tx_same_set [of t "rb_begin ?ring" "OutBuffer_finish L ?b"]
    by (simp_all add: same_packet_ops Transmitter_setOutBuffer_def)
  have ok1: "tx_ok ?t1" and ring1: "tx_out_ring ?t1 = ?ring"
    using tx_same_inv(1) [OF same1 assms] same1 by (simp_all add: tx_inv_def tx_same_def)
  have 1: "send_outcome t (Transmitter_sendDue L t ts mst now draw n)" if c: "RingBuffer_contains ?ring ts"
  proof -
    have "ts \<noteq> rb_begin ?ring + 32768" if "used ?ring = 0"
      using scan scan_empty [OF that, of L "rb_end ?ring" "Uptime_Max L"] that by (auto simp: used_zero_iff)
    then obtain k where "k < used ?ring" "ts = rb_begin ?ring + of_nat k"
      by (rule contains_index [OF ok(2) c])
    then show ?thesis
      by (intro sendDue_outcome [OF ok(1)]) simp_all
  qed
  have 2: "send_outcome t (Transmitter_sendDue L ?t1 (rb_begin ?ring) (Uptime_Start L) now draw n)"
    if "RingBuffer_slotsUsed ?ring = 1"
    using that slotsUsed_eq_1 [of ?ring] ring1
    by (intro sendDue_outcome [OF ok1 same1 next1 acks1, of 0]) simp_all
  show ?thesis
    unfolding Transmitter_sendAny_def Let_def scan prod.case by (simp add: 1 2 send_outcome_none)
qed

lemma getBufferToSend_outcome:
  assumes inv: "tx_inv L t"
    and far: "used (tx_out_ring t) = 0 \<Longrightarrow> tx_next_to_send t \<noteq> rb_begin (tx_out_ring t) + 32768"
  shows "send_outcome t (Transmitter_getBufferToSend L t now draw n)"
proof -
  obtain t1 sent where n: "Transmitter_sendNext L t now draw = (t1, sent)"
    by fastforce
  have ok: "tx_ok t"
    using inv by (simp add: tx_inv_def)
  note nx = sendNext_spec [OF ok far n]
  obtain t2 so n2 where a: "Transmitter_sendAny L t1 now draw n = (t2, so, n2)"
    by (cases "Transmitter_sendAny L t1 now draw n") auto
  have "send_outcome t1 (t2, so, n2)"
    using sendAny_outcome [OF tx_same_inv(1) [OF nx(1) inv], of now draw n] unfolding a .
  moreover have "sends t t2 s" if "sends t1 t2 s" for s
    using that nx(1) by (simp add: sends_def tx_same_def)
  ultimately have "send_outcome t (t2, so, n2)" if "\<not> sent"
    using nx(1, 2, 4) that tx_same_trans same_acks_trans unfolding send_outcome_def by auto
  moreover have "send_outcome t (t1, Some (tx_next_to_send t), 0)" if sent
    using nx(1-3) that by (simp add: send_outcome_def)
  ultimately show ?thesis
    unfolding Transmitter_getBufferToSend_def n prod.case Let_def a by (simp add: send_outcome_none)
qed

text \<open>\<open>send\<close>: nothing, or the bytes of a finished packet of the queue.\<close>

lemma send_spec:
  assumes inv: "tx_inv L t"
    and far: "used (tx_out_ring t) = 0 \<Longrightarrow> tx_next_to_send t \<noteq> rb_begin (tx_out_ring t) + 32768"
    and send: "Transmitter_send L t now draw n = (t', pkt, n')"
  shows "tx_same t t'" "same_acks t t'" "tx_inv L t'" "pkt = [] \<longrightarrow> tx_next_to_send t' = tx_next_to_send t"
    "pkt \<noteq> [] \<longrightarrow> (\<exists>k < used (tx_out_ring t). ob_finished (tx_queue t' ! k)
      \<and> tx_next_to_send t' = rb_begin (tx_out_ring t) + of_nat (Suc k)
      \<and> pkt = StoreBeU16 L (FormatPacketHeader (rb_begin (tx_out_ring t) + of_nat k) (tx_type t k) (tx_control_bit t))
          @ fst (tx_frags L t ! k))"
proof -
  obtain so where g: "Transmitter_getBufferToSend L t now draw n = (t', so, n')"
    and pkt: "pkt = (case so of None \<Rightarrow> [] | Some s \<Rightarrow> ob_packet (Transmitter_getOutBuffer t' s))"
    using send by (auto simp: Transmitter_send_def split: prod.splits option.splits)
  have o: "tx_same t t'" "same_acks t t'" "\<And>s. so = Some s \<Longrightarrow> sends t t' s" "so = None \<Longrightarrow> tx_next_to_send t' = tx_next_to_send t"
    using getBufferToSend_outcome [OF inv far, of now draw n] unfolding g by (simp_all add: send_outcome_def)
  show same: "tx_same t t'" and "same_acks t t'" and inv': "tx_inv L t'"
    using o(1, 2) tx_same_inv(1) [OF o(1) inv] by simp_all
  have *: "\<exists>k < used (tx_out_ring t). ob_finished (tx_queue t' ! k)
      \<and> tx_next_to_send t' = rb_begin (tx_out_ring t) + of_nat (Suc k)
      \<and> pkt = StoreBeU16 L (FormatPacketHeader (rb_begin (tx_out_ring t) + of_nat k) (tx_type t k) (tx_control_bit t))
          @ fst (tx_frags L t ! k) \<and> 2 \<le> length pkt" if so: "so = Some s" for s
  proof -
    obtain k where k: "k < used (tx_out_ring t)" "s = rb_begin (tx_out_ring t) + of_nat k"
      "ob_finished (tx_queue t' ! k)" "Transmitter_getOutBuffer t' s = tx_queue t' ! k"
      "tx_next_to_send t' = s + 1"
      using o(3) [OF so] by (auto simp: sends_def)
    have ok: "tx_ok t" "ob_ok (tx_queue t ! k)"
      using inv k(1) by (simp_all add: tx_inv_def tx_ok_def)
    note sp = same_packet_simps [OF tx_same_queue [OF same ok(1) k(1)]]
    have "pkt = ob_header (tx_queue t ! k) @ ob_bytes (tx_queue t ! k)"
      using so k(4) sp(1) ok(2) by (simp add: pkt ob_packet_split)
    moreover have "2 \<le> length (ob_packet (tx_queue t ! k))"
      using ok(2) by (simp add: ob_packet_def unat_OutBuffer_size) (simp add: ob_ok_def)
    ultimately show ?thesis
      using k inv so sp(1) by (intro exI [of _ k])
        (simp add: tx_inv_def tx_headers_def tx_frags_def ob_frag_def pkt add.assoc add.commute)
  qed
  then show "pkt = [] \<longrightarrow> tx_next_to_send t' = tx_next_to_send t"
    using o(4) by (cases so) auto
  show "pkt \<noteq> [] \<longrightarrow> (\<exists>k < used (tx_out_ring t). ob_finished (tx_queue t' ! k)
      \<and> tx_next_to_send t' = rb_begin (tx_out_ring t) + of_nat (Suc k)
      \<and> pkt = StoreBeU16 L (FormatPacketHeader (rb_begin (tx_out_ring t) + of_nat k) (tx_type t k) (tx_control_bit t))
          @ fst (tx_frags L t ! k))"
    using * by (cases so) (auto simp: pkt)
qed

end
