(* ===== verification/Transmitter_Ack.thy ===== *)
theory Transmitter_Ack
  imports Transmitter_Queue
begin

text \<open>
  The ends of the send queue: \<open>close\<close> appends the end-of-stream packet, \<open>ack\<close>
  releases the packets below the acknowledged position and marks those that the bitmap names,
  and \<open>updateRecvHimark\<close> extends the credit.
\<close>

section \<open>The front of the queue\<close>

lemma tx_queue_Nil: "tx_queue t = [] \<longleftrightarrow> used (tx_out_ring t) = 0"
  by (simp add: tx_queue_def)

lemma pop_packet:
  assumes inv: "tx_inv L t" and u: "0 < used (tx_out_ring t)"
    and dn: "tx_end_of_stream t \<or> ob_finished (hd (tx_queue t))"
    and t': "t' = t\<lparr>tx_out_ring := (tx_out_ring t)\<lparr>rb_begin := rb_begin (tx_out_ring t) + 1\<rparr>,
      tx_packets_delivered := n\<rparr>"
  shows "tx_inv L t'" "tx_queue t' = tl (tx_queue t)"
proof -
  let ?ring = "tx_out_ring t"
  show q: "tx_queue t' = tl (tx_queue t)"
    using contents_pop [OF u] by (simp add: tx_queue_def t')
  have u': "used (tx_out_ring t') = used ?ring - 1"
    using used_pop [OF u] by (simp add: t')
  have ok: "tx_ok t" "ring_ok ?ring"
    using inv by (simp_all add: tx_inv_def tx_ok_def)
  have f: "rb_begin (tx_out_ring t') = rb_begin ?ring + 1" "tx_out_buffers t' = tx_out_buffers t"
    "tx_end_of_stream t' = tx_end_of_stream t" "tx_control_bit t' = tx_control_bit t"
    "tx_current_out_buffer t' = tx_current_out_buffer t" "tx_has_pending_eof t' = tx_has_pending_eof t"
    "\<And>s. RingBuffer_offset_for (tx_out_ring t') s = RingBuffer_offset_for ?ring s"
    by (simp_all add: t')
  have nth: "tx_queue t' ! k = tx_queue t ! Suc k" if "Suc k < used ?ring" for k
    using that by (simp add: q nth_tl)
  have ty: "tx_type t' k = tx_type t (Suc k)" if "Suc k < used ?ring" for k
    using that unfolding tx_type_def u' f by auto
  have pos: "rb_begin (tx_out_ring t') + of_nat k = rb_begin ?ring + of_nat (Suc k)" for k
    by (simp add: f)
  have "tx_ok t'"
    using ok ring_ok_pop [OF ok(2) u] unfolding tx_ok_def q
    by (cases "tx_queue t") (auto simp: t')
  moreover have "tx_headers L t'"
    using inv unfolding tx_headers_def u' pos by (auto simp: tx_inv_def tx_headers_def nth ty f)
  moreover have "tx_current t'"
  proof -
    have c: "tx_current t"
      using inv by (simp add: tx_inv_def)
    have fin: "tx_end_of_stream t \<or> ob_finished (tx_queue t ! 0)"
      using dn u by (simp add: hd_conv_nth tx_queue_Nil)
    show ?thesis
      unfolding tx_current_def u' pos unfolding f
    proof (intro conjI allI impI)
      fix k assume k: "k < used ?ring - 1"
      then have "ob_finished (tx_queue t ! Suc k) \<or> tx_end_of_stream t \<or> Suc (Suc k) = used ?ring
          \<and> tx_current_out_buffer t = Some (slot ?ring (rb_begin ?ring + of_nat (Suc k)))"
        by (intro c [unfolded tx_current_def, THEN conjunct1, rule_format]) linarith
      then show "ob_finished (tx_queue t' ! k) \<or> tx_end_of_stream t \<or> Suc k = used ?ring - 1
          \<and> tx_current_out_buffer t = Some (slot ?ring (rb_begin ?ring + of_nat (Suc k)))"
        using k nth by auto
    next
      fix i assume i: "tx_current_out_buffer t = Some i"
      then show "i < length (tx_out_buffers t)"
        using c by (simp add: tx_current_def)
      show "tx_end_of_stream t \<or> ob_finished (tx_out_buffers t ! i) \<or> 0 < used ?ring - 1
          \<and> i = slot ?ring (rb_begin ?ring + of_nat (Suc (used ?ring - 1 - 1)))"
        using c i fin u nth_tx_queue [OF u]
        by (cases "used ?ring = 1") (auto simp: tx_current_def)
    next
      fix k assume "k < used ?ring - 1" "tx_type t' k = kDataPacket"
      then show "ob_bytes (tx_queue t' ! k) \<noteq> []"
        using c by (simp add: nth ty tx_current_def)
    qed
  qed
  moreover have "tx_credit t'"
    using inv by (simp add: tx_inv_def tx_credit_def t')
  ultimately show "tx_inv L t'"
    by (simp add: tx_inv_def)
qed

section \<open>The end of the queue\<close>

context roo_lib
begin

text \<open>The end-of-stream packet, with the flags that \<open>close\<close> and \<open>ack\<close> set around it.\<close>

lemma add_eos:
  assumes inv: "tx_inv L t" and eof: "tx_end_of_stream t \<longrightarrow> tx_has_pending_eof t"
    and room: "used (tx_out_ring t) < cap (tx_out_ring t)"
  obtains t1 b where "Transmitter_addEosPacket L t = Some t1"
    "tx_inv L (t1\<lparr>tx_end_of_stream := True, tx_has_pending_eof := False\<rparr>)"
    "tx_queue t1 = tx_queue t @ [b]" "ob_frag L b = ([], True)" "ob_finished b" "\<not> ob_acked b"
    "t1 = t\<lparr>tx_out_ring := (tx_out_ring t)\<lparr>rb_end := rb_end (tx_out_ring t) + 1\<rparr>,
      tx_out_buffers := tx_out_buffers t1\<rparr>"
proof -
  let ?ring = "tx_out_ring t" and ?e = "rb_end (tx_out_ring t)"
  let ?i = "slot ?ring ?e"
  have ok: "ring_ok ?ring" "length (tx_out_buffers t) = cap ?ring"
    "\<forall>b \<in> set (tx_out_buffers t). length (ob_payload b) = 250" "\<forall>b \<in> set (tx_queue t). ob_ok b"
    "unat (tx_peer_receive_buffer_size t) \<le> 1024"
    using inv by (simp_all add: tx_inv_def tx_ok_def)
  define b0 where "b0 = OutBuffer_init L (tx_out_buffers t ! ?i) ?e (tx_control_bit t)"
  define b where "b = OutBuffer_finish L (OutBuffer_markFinal L b0)"
  have i: "?i < length (tx_out_buffers t)"
    using ok by (simp add: offset_for_less)
  have b0: "ob_ok b0" "ob_bytes b0 = []"
    "ob_header b0 = StoreBeU16 L (FormatPacketHeader ?e kDataPacket (tx_control_bit t))"
    using ok i unfolding b0_def by (simp_all add: OutBuffer_init_ok OutBuffer_init_bytes OutBuffer_init_header)
  have b: "ob_ok b" "ob_bytes b = []" "ob_finished b"
    "ob_header b = StoreBeU16 L (FormatPacketHeader ?e kFinPacket (tx_control_bit t))"
    using OutBuffer_markFinal_ok [OF b0(1)] OutBuffer_markFinal_bytes [OF b0(1)] b0(2)
      OutBuffer_markFinal_header [OF b0(3)]
    by (simp_all add: b_def buf_simps ob_header_def)
  have len: "length (ob_payload b) = 250"
    using b(1) by (simp add: ob_ok_def)
  let ?t1 = "t\<lparr>tx_out_ring := ?ring\<lparr>rb_end := ?e + 1\<rparr>, tx_out_buffers := (tx_out_buffers t)[?i := b]\<rparr>"
  let ?t2 = "?t1\<lparr>tx_end_of_stream := True, tx_has_pending_eof := False\<rparr>"
  have q: "tx_queue ?t1 = tx_queue t @ [b]"
    using contents_push_update [OF ok(1) room ok(2)] by (simp add: tx_queue_def)
  have q2: "tx_queue ?t2 = tx_queue t @ [b]"
    using q by (simp add: tx_queue_def)
  have u: "used (?ring\<lparr>rb_end := ?e + 1\<rparr>) = Suc (used ?ring)"
    by (rule used_push [OF ok(1) room])
  have data: "tx_type t k = kDataPacket" for k
    using eof by (simp add: tx_type_def)
  have ty: "tx_type ?t2 k = (if k = used ?ring then kFinPacket else kDataPacket)" for k
    using u by (simp add: tx_type_def)
  have end_pos: "rb_begin ?ring + of_nat (used ?ring) = ?e"
    by (rule end_eq [symmetric])
  have "tx_ok ?t2"
    using ok b(1) len ring_ok_push [OF ok(1) room] unfolding tx_ok_def q2
    by (auto dest!: set_update_subset_insert [THEN subsetD])
  moreover have "tx_headers L ?t2"
    using inv b(4) end_pos unfolding tx_headers_def q2
    by (auto simp: tx_inv_def tx_headers_def nth_append ty data u less_Suc_eq)
  moreover have "tx_current ?t2"
    using inv unfolding tx_current_def q2
    by (auto simp: tx_inv_def tx_current_def nth_append ty data u less_Suc_eq)
  moreover have "tx_credit ?t2"
    using inv by (simp add: tx_inv_def tx_credit_def)
  ultimately have "tx_inv L ?t2"
    by (simp add: tx_inv_def)
  moreover have "Transmitter_addEosPacket L t = Some ?t1"
    using room by (simp add: Transmitter_addEosPacket_def push_eq [OF ok(1)] Let_def b_def b0_def)
  moreover have "ob_frag L b = ([], True)"
    using b(2, 4) by (simp add: ob_frag_def load_store_16_nil header_type)
  moreover have "\<not> ob_acked b"
    by (simp add: b_def b0_def buf_simps OutBuffer_markFinal_def OutBuffer_init_def Let_def)
  ultimately show ?thesis
    using that [of ?t1 b] q b(3) by simp
qed

text \<open>\<open>close\<close> queues the end-of-stream packet, or defers it when the queue is full.\<close>

lemma close_spec:
  assumes inv: "tx_inv L t" and st: "tx_state t = T_kConnected" and opn: "\<not> tx_end_of_stream t"
  shows "\<exists>t'. Transmitter_close L t = Some t' \<and> tx_inv L t' \<and> tx_end_of_stream t' \<and> tx_state t' = T_kConnected
    \<and> rb_begin (tx_out_ring t') = rb_begin (tx_out_ring t)
    \<and> (if used (tx_out_ring t) = cap (tx_out_ring t)
       then tx_has_pending_eof t' \<and> tx_frags L t' = tx_frags L t
       else \<not> tx_has_pending_eof t' \<and> tx_frags L t' = tx_frags L t @ [([], True)])
    \<and> (\<forall>k < used (tx_out_ring t). ob_finished (tx_queue t ! k) \<longrightarrow> ob_finished (tx_queue t' ! k))
    \<and> (\<forall>k < used (tx_out_ring t'). ob_acked (tx_queue t' ! k) \<longrightarrow>
        k < used (tx_out_ring t) \<and> ob_acked (tx_queue t ! k))
    \<and> tx_next_to_send t' = tx_next_to_send t \<and> tx_control_bit t' = tx_control_bit t"
proof -
  obtain t1 where t1: "t1 = fst (Transmitter_flush t)"
    by simp
  have same: "tx_same t t1" and inv1: "tx_inv L t1" and fr: "tx_frags L t1 = tx_frags L t"
    using flush_same [of t] tx_same_inv [OF flush_same inv] by (simp_all add: t1)
  have f: "tx_state t1 = T_kConnected" "\<not> tx_end_of_stream t1" "tx_out_ring t1 = tx_out_ring t"
    "tx_control_bit t1 = tx_control_bit t" "\<not> tx_has_pending_eof t1" "tx_next_to_send t1 = tx_next_to_send t"
    using same st opn inv flush_next [of t] by (auto simp: tx_same_def tx_inv_def tx_credit_def t1)
  have ok: "tx_ok t"
    using inv by (simp add: tx_inv_def)
  have fin: "ob_finished (tx_queue t1 ! k)" if "k < used (tx_out_ring t)" "ob_finished (tx_queue t ! k)" for k
    using tx_same_queue [OF same ok that(1)] that(2) by (simp add: same_packet_def)
  have ak: "ob_acked (tx_queue t1 ! k) = ob_acked (tx_queue t ! k)" if "k < used (tx_out_ring t)" for k
    using same_acks_queue [OF flush_acks ok _ that] f(3) by (simp add: t1)
  have ring: "ring_ok (tx_out_ring t1)"
    using inv1 by (simp add: tx_inv_def tx_ok_def)
  have cl: "Transmitter_close L t = Option.bind
      (if RingBuffer_slotsFree (tx_out_ring t1) = 0 then Some (t1\<lparr>tx_has_pending_eof := True\<rparr>)
       else Transmitter_addEosPacket L t1) (\<lambda>t. Some (t\<lparr>tx_end_of_stream := True\<rparr>))"
    using st opn by (simp add: Transmitter_close_def t1 split: prod.splits)
  show ?thesis
  proof (cases "used (tx_out_ring t1) = cap (tx_out_ring t1)")
    case True
    let ?t' = "t1\<lparr>tx_has_pending_eof := True, tx_end_of_stream := True\<rparr>"
    have q: "tx_queue ?t' = tx_queue t1"
      by (simp add: tx_queue_def)
    have ty: "tx_type ?t' = tx_type t1"
      using f(2) by (auto simp: tx_type_def)
    have "tx_inv L ?t'"
      using inv1 unfolding tx_inv_def tx_ok_def tx_headers_def tx_current_def tx_credit_def q ty by auto
    then show ?thesis
      using True cl f fr ring q fin ak by (simp add: slotsFree_eq_0 tx_frags_def)
  next
    case False
    then have room: "used (tx_out_ring t1) < cap (tx_out_ring t1)"
      using used_le_cap [OF ring] by simp
    obtain t2 b where t2: "Transmitter_addEosPacket L t1 = Some t2"
      "tx_inv L (t2\<lparr>tx_end_of_stream := True, tx_has_pending_eof := False\<rparr>)"
      "tx_queue t2 = tx_queue t1 @ [b]" "ob_frag L b = ([], True)"
      "t2 = t1\<lparr>tx_out_ring := (tx_out_ring t1)\<lparr>rb_end := rb_end (tx_out_ring t1) + 1\<rparr>,
        tx_out_buffers := tx_out_buffers t2\<rparr>" "\<not> ob_acked b"
      using add_eos [OF inv1 _ room] f(2) by blast
    have st2: "tx_state t2 = T_kConnected" "\<not> tx_has_pending_eof t2" "tx_control_bit t2 = tx_control_bit t"
      "rb_begin (tx_out_ring t2) = rb_begin (tx_out_ring t)" "tx_next_to_send t2 = tx_next_to_send t"
      by (subst t2(5), simp add: f)+
    have "t2\<lparr>tx_end_of_stream := True, tx_has_pending_eof := False\<rparr> = t2\<lparr>tx_end_of_stream := True\<rparr>"
      using st2(2) by (cases t2) simp
    then have "tx_inv L (t2\<lparr>tx_end_of_stream := True\<rparr>)"
      using t2(2) by simp
    moreover have q2: "tx_queue (t2\<lparr>tx_end_of_stream := True\<rparr>) = tx_queue t1 @ [b]"
      using t2(3) by (simp add: tx_queue_def)
    moreover have "used (tx_out_ring t2) = Suc (used (tx_out_ring t))"
      using arg_cong [OF t2(3), of length] f(3) by (simp only: length_tx_queue length_append) simp
    ultimately show ?thesis
      using False cl t2(1, 4, 6) st2 f(3) fr ring fin ak
      by (auto simp: slotsFree_eq_0 tx_frags_def nth_append less_Suc_eq)
  qed
qed

end

section \<open>Releasing acknowledged packets\<close>

text \<open>
  The fragments after \<open>d\<close> of them are released: a deferred end-of-stream packet is
  queued with the first slot that becomes free.
\<close>

definition after_release :: "nat \<Rightarrow> bool \<Rightarrow> (byte list \<times> bool) list \<Rightarrow> (byte list \<times> bool) list" where
  "after_release d pending fs = drop d fs @ (if pending \<and> 0 < d then [([], True)] else [])"

definition released_to :: "lib \<Rightarrow> Transmitter \<Rightarrow> nat \<Rightarrow> Transmitter \<Rightarrow> bool" where
  "released_to L t d t' \<longleftrightarrow>
     tx_frags L t' = after_release d (tx_has_pending_eof t) (tx_frags L t)
     \<and> rb_begin (tx_out_ring t') = rb_begin (tx_out_ring t) + of_nat d
     \<and> rb_capacity_log2 (tx_out_ring t') = rb_capacity_log2 (tx_out_ring t)
     \<and> tx_has_pending_eof t' = (tx_has_pending_eof t \<and> d = 0)
     \<and> tx_packets_delivered t' = tx_packets_delivered t + of_nat d
     \<and> (\<forall>k. d + k < used (tx_out_ring t) \<longrightarrow> tx_queue t' ! k = tx_queue t ! (d + k))
     \<and> (\<forall>k < used (tx_out_ring t'). used (tx_out_ring t) \<le> d + k \<longrightarrow> \<not> ob_acked (tx_queue t' ! k))
     \<and> tx_state t' = tx_state t \<and> tx_end_of_stream t' = tx_end_of_stream t
     \<and> tx_control_bit t' = tx_control_bit t \<and> tx_next_to_send t' = tx_next_to_send t
     \<and> tx_recv_himark t' = tx_recv_himark t"

lemma released_to_0: "released_to L t 0 t"
  by (simp add: released_to_def after_release_def)

lemma released_to_Suc:
  assumes "released_to L t 1 t1" "released_to L t1 d t2" "Suc d \<le> used (tx_out_ring t)"
  shows "released_to L t (Suc d) t2"
proof -
  have fr: "tx_frags L t1 = drop 1 (tx_frags L t) @ (if tx_has_pending_eof t then [([], True)] else [])"
    "tx_frags L t2 = drop d (tx_frags L t1)"
    using assms(1, 2) by (auto simp: released_to_def after_release_def)
  have "drop d (tx_frags L t1) = after_release (Suc d) (tx_has_pending_eof t) (tx_frags L t)"
    using assms(3) unfolding fr(1) after_release_def by (simp add: drop_append tx_frags_def)
  moreover have "\<not> ob_acked (tx_queue t2 ! k)"
    if "k < used (tx_out_ring t2)" "used (tx_out_ring t) \<le> Suc d + k" for k
    using assms(1, 2) that by (cases "d + k < used (tx_out_ring t1)") (auto simp: released_to_def)
  moreover have "tx_queue t2 ! k = tx_queue t ! (Suc d + k)" if "Suc d + k < used (tx_out_ring t)" for k
  proof -
    have "used (tx_out_ring t) \<le> Suc (used (tx_out_ring t1))"
      using arg_cong [OF fr(1), of length] by (simp add: tx_frags_def split: if_splits)
    then have "tx_queue t2 ! k = tx_queue t1 ! (d + k)"
      using assms(2) that by (simp add: released_to_def)
    then show ?thesis
      using assms(1) that by (simp add: released_to_def)
  qed
  ultimately show ?thesis
    using assms(1, 2) fr(2) by (simp add: released_to_def algebra_simps)
qed

text \<open>One iteration of the release loop.\<close>

lemma release_step:
  assumes lib: "roo_lib L" and inv: "tx_inv L t" and u: "0 < used (tx_out_ring t)"
    and fin: "tx_end_of_stream t \<or> ob_finished (hd (tx_queue t))"
  obtains t2 where "tx_inv L t2" "released_to L t 1 t2"
    "\<And>seq. SeqNum_lt (rb_begin (tx_out_ring t)) seq \<Longrightarrow>
      Transmitter_release L t seq = Transmitter_release L t2 seq"
proof -
  let ?ring = "tx_out_ring t"
  define t1 where "t1 = t\<lparr>tx_out_ring := ?ring\<lparr>rb_begin := rb_begin ?ring + 1\<rparr>,
    tx_packets_delivered := tx_packets_delivered t + 1\<rparr>"
  have inv1: "tx_inv L t1" and q1: "tx_queue t1 = tl (tx_queue t)"
    using pop_packet [OF inv u fin t1_def] by simp_all
  have loop: "Transmitter_release L t seq =
      (if tx_has_pending_eof t then
         (case Transmitter_addEosPacket L t1 of None \<Rightarrow> None
          | Some t2 \<Rightarrow> Transmitter_release L (t2\<lparr>tx_has_pending_eof := False\<rparr>) seq)
       else Transmitter_release L t1 seq)" if "SeqNum_lt (rb_begin ?ring) seq" for seq
    using that u by (subst Transmitter_release.simps) (simp add: rb_simps pop_eq t1_def Let_def)
  show ?thesis
  proof (cases "tx_has_pending_eof t")
    case False
    have "released_to L t 1 t1"
      using False q1 used_pop [OF u] by (simp add: released_to_def after_release_def tx_frags_def nth_tl)
        (auto simp: t1_def map_tl drop_Suc)
    then show ?thesis
      using that [of t1] inv1 loop False by simp
  next
    case True
    have eos: "tx_end_of_stream t1" "tx_has_pending_eof t1" "tx_end_of_stream t"
      using True inv by (simp_all add: t1_def tx_inv_def tx_credit_def)
    have "used (tx_out_ring t1) < cap (tx_out_ring t1)"
      using used_pop [OF u] u used_le_cap [of ?ring] inv by (simp add: t1_def tx_inv_def tx_ok_def)
    then obtain t2 b where t2: "Transmitter_addEosPacket L t1 = Some t2"
      "tx_inv L (t2\<lparr>tx_end_of_stream := True, tx_has_pending_eof := False\<rparr>)"
      "tx_queue t2 = tx_queue t1 @ [b]" "ob_frag L b = ([], True)"
      "t2 = t1\<lparr>tx_out_ring := (tx_out_ring t1)\<lparr>rb_end := rb_end (tx_out_ring t1) + 1\<rparr>,
        tx_out_buffers := tx_out_buffers t2\<rparr>" "\<not> ob_acked b"
      using roo_lib.add_eos [OF lib inv1] eos by blast
    let ?t' = "t2\<lparr>tx_has_pending_eof := False\<rparr>"
    have f: "tx_end_of_stream t2" "tx_state t2 = tx_state t" "tx_control_bit t2 = tx_control_bit t"
      "rb_begin (tx_out_ring t2) = rb_begin ?ring + 1" "tx_next_to_send t2 = tx_next_to_send t"
      "tx_packets_delivered t2 = tx_packets_delivered t + 1" "tx_recv_himark t2 = tx_recv_himark t"
      "rb_capacity_log2 (tx_out_ring t2) = rb_capacity_log2 ?ring"
      by (subst t2(5), simp add: eos t1_def)+
    have "t2\<lparr>tx_end_of_stream := True, tx_has_pending_eof := False\<rparr> = ?t'"
      using f(1) by (cases t2) simp
    then have "tx_inv L ?t'"
      using t2(2) by simp
    moreover have q': "tx_queue ?t' = tl (tx_queue t) @ [b]"
      using t2(3) q1 by (simp add: tx_queue_def)
    have "used (tx_out_ring ?t') = used ?ring"
      unfolding length_tx_queue [symmetric, of ?t'] q' using u by simp
    then have "released_to L t 1 ?t'"
      using True eos(1, 3) f t2(4, 6) u q'
      by (auto simp: released_to_def after_release_def tx_frags_def nth_append nth_tl map_tl drop_Suc)
    ultimately show ?thesis
      using that [of ?t'] loop True t2(1) by simp
  qed
qed

text \<open>All packets below \<open>seq\<close> are released, and no other.\<close>

lemma release_spec:
  assumes "roo_lib L" "tx_inv L t" "d = unat (seq - rb_begin (tx_out_ring t))" "d \<le> used (tx_out_ring t)"
    and "\<And>k. k < d \<Longrightarrow> tx_end_of_stream t \<or> ob_finished (tx_queue t ! k)"
  shows "\<exists>t'. Transmitter_release L t seq = Some t' \<and> tx_inv L t' \<and> released_to L t d t'"
  using assms
proof (induction d arbitrary: t)
  case 0
  then have "seq = rb_begin (tx_out_ring t)"
    using unat_eq_zero [of "seq - rb_begin (tx_out_ring t)"] by simp
  then show ?case
    using 0 by (subst Transmitter_release.simps) (simp add: SeqNum_lt_def released_to_0)
next
  case (Suc d)
  let ?ring = "tx_out_ring t"
  have u: "0 < used ?ring" "used ?ring \<le> 1024"
    using Suc.prems used_le by (auto simp: tx_inv_def tx_ok_def)
  have lt: "SeqNum_lt (rb_begin ?ring) seq"
    using Suc.prems(3, 4) u by (simp add: SeqNum_lt_iff_dist)
  have fin: "tx_end_of_stream t \<or> ob_finished (hd (tx_queue t))"
    using Suc.prems(5) [of 0] u by (simp add: hd_conv_nth tx_queue_Nil)
  obtain t1 where t1: "tx_inv L t1" "released_to L t 1 t1"
    "\<And>seq. SeqNum_lt (rb_begin ?ring) seq \<Longrightarrow> Transmitter_release L t seq = Transmitter_release L t1 seq"
    using release_step [OF Suc.prems(1, 2) u(1) fin] by blast
  have f: "rb_begin (tx_out_ring t1) = rb_begin ?ring + 1" "tx_end_of_stream t1 = tx_end_of_stream t"
    "\<And>k. Suc k < used ?ring \<Longrightarrow> tx_queue t1 ! k = tx_queue t ! Suc k"
    using t1(2) by (simp_all add: released_to_def)
  have "length (tx_frags L t1) = length (after_release 1 (tx_has_pending_eof t) (tx_frags L t))"
    using t1(2) by (simp add: released_to_def)
  then have u1: "used ?ring \<le> Suc (used (tx_out_ring t1))"
    by (simp add: after_release_def tx_frags_def split: if_splits)
  have d: "d = unat (seq - rb_begin (tx_out_ring t1))"
    using Suc.prems(3) dist_split [of "rb_begin ?ring + 1" "rb_begin ?ring" seq] by (simp add: f)
  have "tx_end_of_stream t1 \<or> ob_finished (tx_queue t1 ! k)" if "k < d" for k
    using Suc.prems(4) Suc.prems(5) [of "Suc k"] that f by simp
  then obtain t' where "Transmitter_release L t1 seq = Some t'" "tx_inv L t'" "released_to L t1 d t'"
    using Suc.IH [OF Suc.prems(1) t1(1) d] Suc.prems(4) u1 by auto
  then show ?case
    using t1 lt released_to_Suc [OF t1(2) _ Suc.prems(4)] by auto
qed

section \<open>Skip acknowledgements\<close>

text \<open>The bitmap as a list of flags, most significant bit of the first byte first.\<close>

definition bitmap_bits :: "byte list \<Rightarrow> bool list" where
  "bitmap_bits bm = concat (map (\<lambda>val. map (\<lambda>i. val AND push_bit i 1 \<noteq> 0) [7, 6, 5, 4, 3, 2, 1, 0]) bm)"

lemma length_bitmap_bits: "length (bitmap_bits bm) = 8 * length bm"
  by (induction bm) (simp_all add: bitmap_bits_def)

definition skip1 :: "bool \<Rightarrow> Transmitter \<times> SeqNum \<times> SeqNum \<Rightarrow> Transmitter \<times> SeqNum \<times> SeqNum" where
  "skip1 flag = (\<lambda>(t, out_pos, last_acked).
     if RingBuffer_contains (tx_out_ring t) out_pos \<and> flag
     then (Transmitter_setOutBuffer t out_pos (OutBuffer_ack (Transmitter_getOutBuffer t out_pos)),
           out_pos + 1, out_pos)
     else (t, out_pos + 1, last_acked))"

lemma skipAck_skip1: "Transmitter_skipAck val i = skip1 (val AND push_bit i 1 \<noteq> 0)"
  by (simp add: Transmitter_skipAck_def skip1_def)

lemma skipAcks_eq: "Transmitter_skipAcks bm s = fold skip1 (bitmap_bits bm) s"
  by (induction bm arbitrary: s)
    (simp_all add: Transmitter_skipAcks_def bitmap_bits_def skipAck_skip1)

lemma ack_at:
  assumes "tx_ok t" "k < used (tx_out_ring t)" "s = rb_begin (tx_out_ring t) + of_nat k"
    and "t' = Transmitter_setOutBuffer t s (OutBuffer_ack (Transmitter_getOutBuffer t s))"
  shows "tx_queue t' = (tx_queue t)[k := OutBuffer_ack (tx_queue t ! k)]" "tx_same t t'"
  using assms contents_update [of "tx_out_ring t" "tx_out_buffers t" k] nth_tx_queue [OF assms(2)]
    tx_same_set [of t s "OutBuffer_ack (Transmitter_getOutBuffer t s)"]
  by (simp_all add: tx_queue_def Transmitter_setOutBuffer_def Transmitter_getOutBuffer_def tx_ok_def
      same_packet_ops)

lemma skip_fold_spec:
  assumes "tx_inv L t" "k + length bits < 32768"
    and "fold skip1 bits (t, rb_begin (tx_out_ring t) + of_nat k, la) = (t', pos, la')"
  shows "tx_same t t' \<and> tx_next_to_send t' = tx_next_to_send t
    \<and> (\<forall>j < used (tx_out_ring t). ob_acked (tx_queue t' ! j) =
        (ob_acked (tx_queue t ! j) \<or> k \<le> j \<and> j - k < length bits \<and> bits ! (j - k)))
    \<and> (la' = la \<or> (\<exists>j < used (tx_out_ring t). la' = rb_begin (tx_out_ring t) + of_nat j))"
  using assms
proof (induction bits arbitrary: t k la)
  case Nil
  then show ?case
    by simp
next
  case (Cons b bits)
  let ?ring = "tx_out_ring t" and ?p = "rb_begin (tx_out_ring t) + of_nat k :: u16"
  have ok: "tx_ok t" "ring_ok ?ring"
    using Cons.prems(1) by (simp_all add: tx_inv_def tx_ok_def)
  have c: "RingBuffer_contains ?ring ?p \<longleftrightarrow> k < used ?ring"
    using contains_pos [OF ok(2)] Cons.prems(2) by simp
  have p: "?p + 1 = rb_begin ?ring + of_nat (Suc k)"
    by simp
  obtain t1 la1 where s: "skip1 b (t, ?p, la) = (t1, rb_begin ?ring + of_nat (Suc k), la1)"
    and t1: "if k < used ?ring \<and> b
      then t1 = Transmitter_setOutBuffer t ?p (OutBuffer_ack (Transmitter_getOutBuffer t ?p)) \<and> la1 = ?p
      else t1 = t \<and> la1 = la"
    using p by (cases "k < used ?ring \<and> b") (auto simp: skip1_def c simp del: of_nat_Suc)
  have same: "tx_same t t1" and nx: "tx_next_to_send t1 = tx_next_to_send t"
    and la1: "la1 = la \<or> (\<exists>j < used ?ring. la1 = rb_begin ?ring + of_nat j)"
    and acked: "\<forall>j < used ?ring. ob_acked (tx_queue t1 ! j) = (ob_acked (tx_queue t ! j) \<or> j = k \<and> b)"
    using t1 ack_at [OF ok(1) _ refl, of k] by (auto simp: nth_list_update buf_simps Transmitter_setOutBuffer_def
        split: if_splits)
  have ring1: "tx_out_ring t1 = ?ring"
    using same by (simp add: tx_same_def)
  have "fold skip1 bits (t1, rb_begin (tx_out_ring t1) + of_nat (Suc k), la1) = (t', pos, la')"
    using Cons.prems(3) s unfolding ring1 by simp
  note IH = Cons.IH [OF tx_same_inv(1) [OF same Cons.prems(1)] _ this]
  have rest: "tx_same t1 t'" "tx_next_to_send t' = tx_next_to_send t1"
    "\<forall>j < used ?ring. ob_acked (tx_queue t' ! j) =
      (ob_acked (tx_queue t1 ! j) \<or> Suc k \<le> j \<and> j - Suc k < length bits \<and> bits ! (j - Suc k))"
    "la' = la1 \<or> (\<exists>j < used ?ring. la' = rb_begin ?ring + of_nat j)"
    using IH Cons.prems(2) unfolding ring1 by simp_all
  have "ob_acked (tx_queue t' ! j) =
      (ob_acked (tx_queue t ! j) \<or> k \<le> j \<and> j - k < length (b # bits) \<and> (b # bits) ! (j - k))"
    if "j < used ?ring" for j
    using that acked rest(3) by (cases "j = k"; cases "j < k") (auto simp: nth_Cons' Suc_diff_le)
  then show ?case
    using tx_same_trans [OF same rest(1)] rest(2, 4) nx la1 by auto
qed

text \<open>Rushing never aborts and only moves \<open>next_to_send_\<close>, to a queued packet.\<close>

lemma rush_spec:
  assumes "tx_inv L t" "pos = rb_begin (tx_out_ring t) + of_nat k" "k \<le> m" "m < used (tx_out_ring t)"
    and "la = rb_begin (tx_out_ring t) + of_nat m"
  shows "\<exists>t' r'. Transmitter_rush L t pos la upd r = Some (t', r') \<and> tx_same t t'
    \<and> (tx_next_to_send t' = tx_next_to_send t \<or>
       (\<exists>j < used (tx_out_ring t). tx_next_to_send t' = rb_begin (tx_out_ring t) + of_nat j))
    \<and> (\<forall>j < used (tx_out_ring t). ob_acked (tx_queue t' ! j) = ob_acked (tx_queue t ! j))"
  using assms
proof (induction "m - k" arbitrary: t pos k upd r)
  case 0
  then show ?case
    by (subst Transmitter_rush.simps) simp
next
  case (Suc n)
  let ?ring = "tx_out_ring t" and ?b = "Transmitter_getOutBuffer t pos"
  have ok: "tx_ok t" "ring_ok ?ring"
    using Suc.prems(1) by (simp_all add: tx_inv_def tx_ok_def)
  have km: "k < m" "k < used ?ring"
    using Suc.hyps(2) Suc.prems(4) by simp_all
  then have ne: "pos \<noteq> la"
    using Suc.prems(2, 5) add_of_nat_inject [of k m "rb_begin ?ring"] Suc.prems(4) used_le [OF ok(2)] by simp
  have n: "n = m - Suc k" "Suc k \<le> m"
    using Suc.hyps(2) km by simp_all
  define t1 where "t1 = (if \<not> ob_acked ?b \<and> ob_send_counter ?b = 1 then
     let t1 = Transmitter_setOutBuffer t pos (?b\<lparr>ob_expiration := Uptime_Start L\<rparr>)
     in if upd then t1 else t1\<lparr>tx_next_to_send := pos\<rparr> else t)"
  have loop: "\<exists>upd' r''. Transmitter_rush L t pos la upd r = Transmitter_rush L t1 (pos + 1) la upd' r''"
    using ne by (subst Transmitter_rush.simps) (auto simp: t1_def OutBuffer_rush_def Let_def)
  have sp: "same_packet ?b (?b\<lparr>ob_expiration := Uptime_Start L\<rparr>)"
    by (simp add: same_packet_def)
  have same: "tx_same t t1"
    using tx_same_set [OF sp] by (auto simp: t1_def Let_def intro: tx_same_update)
  have ring1: "tx_out_ring t1 = ?ring"
    using same by (simp add: tx_same_def)
  have q1: "ob_acked (tx_queue t1 ! j) = ob_acked (tx_queue t ! j)" if "j < used ?ring" for j
    using that nth_tx_queue [of j t1] nth_tx_queue [of j t] ring1 ok(1)
    by (auto simp: t1_def Let_def Transmitter_setOutBuffer_def Transmitter_getOutBuffer_def nth_list_update
        tx_ok_def offset_for_less)
  have nx1: "tx_next_to_send t1 = tx_next_to_send t \<or>
      (\<exists>j < used ?ring. tx_next_to_send t1 = rb_begin ?ring + of_nat j)"
    using km Suc.prems(2) by (auto simp: t1_def Let_def Transmitter_setOutBuffer_def)
  have pos1: "pos + 1 = rb_begin (tx_out_ring t1) + of_nat (Suc k)"
    using Suc.prems(2) ring1 by simp
  have "\<exists>t' r'. Transmitter_rush L t1 (pos + 1) la u r'' = Some (t', r') \<and> tx_same t1 t'
    \<and> (tx_next_to_send t' = tx_next_to_send t1 \<or>
       (\<exists>j < used ?ring. tx_next_to_send t' = rb_begin ?ring + of_nat j))
    \<and> (\<forall>j < used ?ring. ob_acked (tx_queue t' ! j) = ob_acked (tx_queue t1 ! j))" for u r''
    using Suc.hyps(1) [OF n(1) tx_same_inv(1) [OF same Suc.prems(1)] pos1 n(2), of u r''] Suc.prems(4, 5)
    unfolding ring1 by simp
  then show ?case
    using loop tx_same_trans [OF same] nx1 q1 by (metis (no_types, lifting))
qed

section \<open>\<open>ack\<close>\<close>

definition tx_ahead :: "Transmitter \<Rightarrow> u16 \<Rightarrow> nat" where
  "tx_ahead t seq_id =
     unat (RingBuffer_restorePosHighBits (tx_out_ring t) seq_id 12 - rb_begin (tx_out_ring t))"

text \<open>The transmitter after an acknowledgement of \<open>d\<close> packets with the bitmap \<open>bm\<close>.\<close>

definition acked_to :: "lib \<Rightarrow> Transmitter \<Rightarrow> nat \<Rightarrow> byte list \<Rightarrow> Transmitter \<Rightarrow> bool" where
  "acked_to L t d bm t' \<longleftrightarrow>
     tx_inv L t' \<and> tx_frags L t' = after_release d (tx_has_pending_eof t) (tx_frags L t)
     \<and> rb_begin (tx_out_ring t') = rb_begin (tx_out_ring t) + of_nat d
     \<and> rb_capacity_log2 (tx_out_ring t') = rb_capacity_log2 (tx_out_ring t)
     \<and> tx_has_pending_eof t' = (tx_has_pending_eof t \<and> d = 0)
     \<and> (\<forall>k. d + k < used (tx_out_ring t) \<longrightarrow> ob_finished (tx_queue t ! (d + k)) \<longrightarrow> ob_finished (tx_queue t' ! k))
     \<and> (\<forall>k < used (tx_out_ring t'). ob_acked (tx_queue t' ! k) \<longleftrightarrow>
         d + k < used (tx_out_ring t) \<and> ob_acked (tx_queue t ! (d + k))
         \<or> 0 < k \<and> k - 1 < 8 * length bm \<and> bitmap_bits bm ! (k - 1))
     \<and> tx_state t' = tx_state t \<and> tx_end_of_stream t' = tx_end_of_stream t
     \<and> tx_control_bit t' = tx_control_bit t
     \<and> (tx_next_to_send t' = tx_next_to_send t
       \<or> (\<exists>j < used (tx_out_ring t'). tx_next_to_send t' = rb_begin (tx_out_ring t') + of_nat j))"

lemma ack_bitmap:
  assumes inv: "tx_inv L t" and u: "0 < used (tx_out_ring t)" and len: "length bm \<le> 248"
  shows "\<exists>t' rushed.
    (let (t1, _, la) = Transmitter_skipAcks bm (t, rb_begin (tx_out_ring t) + 1, rb_begin (tx_out_ring t) - 1)
     in if RingBuffer_contains (tx_out_ring t1) la
        then Transmitter_rush L t1 (rb_begin (tx_out_ring t)) la False False
        else Some (t1, False)) = Some (t', rushed)
    \<and> tx_same t t' \<and> (\<forall>k < used (tx_out_ring t). ob_acked (tx_queue t' ! k) \<longleftrightarrow>
        ob_acked (tx_queue t ! k) \<or> 0 < k \<and> k - 1 < 8 * length bm \<and> bitmap_bits bm ! (k - 1))
    \<and> (tx_next_to_send t' = tx_next_to_send t
      \<or> (\<exists>j < used (tx_out_ring t). tx_next_to_send t' = rb_begin (tx_out_ring t) + of_nat j))"
proof -
  let ?ring = "tx_out_ring t"
  have ring: "ring_ok ?ring"
    using inv by (simp add: tx_inv_def tx_ok_def)
  obtain t1 pos la where f: "fold skip1 (bitmap_bits bm) (t, rb_begin ?ring + of_nat 1, rb_begin ?ring - 1)
      = (t1, pos, la)"
    by (metis prod_cases3)
  have s: "tx_same t t1" "tx_next_to_send t1 = tx_next_to_send t"
    "\<And>k. k < used ?ring \<Longrightarrow> ob_acked (tx_queue t1 ! k) =
      (ob_acked (tx_queue t ! k) \<or> 0 < k \<and> k - 1 < 8 * length bm \<and> bitmap_bits bm ! (k - 1))"
    using skip_fold_spec [OF inv _ f] len by (auto simp: length_bitmap_bits Suc_le_eq)
  have ring1: "tx_out_ring t1 = ?ring"
    using s(1) by (simp add: tx_same_def)
  show ?thesis
  proof (cases "RingBuffer_contains ?ring la")
    case True
    obtain m where m: "m < used ?ring" "la = rb_begin ?ring + of_nat m"
      by (rule contains_index [OF ring True]) (use u in simp_all)
    have "\<exists>t' r'. Transmitter_rush L t1 (rb_begin ?ring) la False False = Some (t', r') \<and> tx_same t1 t'
      \<and> (tx_next_to_send t' = tx_next_to_send t1 \<or>
         (\<exists>j < used ?ring. tx_next_to_send t' = rb_begin ?ring + of_nat j))
      \<and> (\<forall>j < used ?ring. ob_acked (tx_queue t' ! j) = ob_acked (tx_queue t1 ! j))"
      using rush_spec [OF tx_same_inv(1) [OF s(1) inv], of "rb_begin ?ring" 0 m la False False] m ring1 by simp
    then obtain t' r' where r: "Transmitter_rush L t1 (rb_begin ?ring) la False False = Some (t', r')"
      "tx_same t1 t'" "tx_next_to_send t' = tx_next_to_send t1 \<or>
         (\<exists>j < used ?ring. tx_next_to_send t' = rb_begin ?ring + of_nat j)"
      "\<forall>j < used ?ring. ob_acked (tx_queue t' ! j) = ob_acked (tx_queue t1 ! j)"
      by blast
    then show ?thesis
      using True f s tx_same_trans [OF s(1) r(2)] ring1
      by (intro exI [of _ t'] exI [of _ r']) (simp add: skipAcks_eq)
  next
    case False
    then show ?thesis
      using f s ring1 by (auto simp: skipAcks_eq)
  qed
qed

lemma ack_spec:
  assumes lib: "roo_lib L" and inv: "tx_inv L t" and st: "tx_state t = T_kConnected"
    and cb: "control_bit \<noteq> tx_control_bit t" and d: "d = tx_ahead t seq_id" "d \<le> used (tx_out_ring t)"
    and fin: "\<And>k. k < d \<Longrightarrow> tx_end_of_stream t \<or> ob_finished (tx_queue t ! k)" and len: "length bm \<le> 248"
  shows "\<exists>t' rushed. Transmitter_ack L t control_bit seq_id bm = Some (t', rushed)
    \<and> (if tx_end_of_stream t \<and> after_release d (tx_has_pending_eof t) (tx_frags L t) = []
       then tx_ok t' \<and> tx_state t' = T_kIdle \<and> used (tx_out_ring t') = 0 \<and> \<not> tx_end_of_stream t'
       else acked_to L t d bm t')"
proof -
  let ?seq = "RingBuffer_restorePosHighBits (tx_out_ring t) seq_id 12" and ?ring = "tx_out_ring t"
  obtain t1 where t1: "Transmitter_release L t ?seq = Some t1" "tx_inv L t1" "released_to L t d t1"
    using release_spec [OF lib inv _ d(2) fin] d(1) by (auto simp: tx_ahead_def)
  have "used ?ring \<le> 1024"
    using inv used_le by (simp add: tx_inv_def tx_ok_def)
  have "unat (rb_end ?ring - ?seq) = used ?ring - d"
    using dist_split [of ?seq "rb_begin ?ring" "rb_end ?ring"] d by (simp add: used_def tx_ahead_def)
  then have gt: "\<not> SeqNum_gt ?seq (rb_end ?ring)"
    using \<open>used ?ring \<le> 1024\<close> unat_minus_u16 [of "rb_end ?ring - ?seq"] by (auto simp: SeqNum_gt_iff_dist)
  have emp: "used (tx_out_ring t1) = 0 \<longleftrightarrow> after_release d (tx_has_pending_eof t) (tx_frags L t) = []"
    using t1(3) by (auto simp: released_to_def tx_frags_def tx_queue_Nil simp flip: tx_queue_Nil)
  have ok1: "ring_ok (tx_out_ring t1)" "tx_ok t1" "tx_end_of_stream t1 = tx_end_of_stream t"
    using t1(2, 3) by (simp_all add: tx_inv_def tx_ok_def released_to_def)
  note unf = Transmitter_ack_def st Let_def t1(1) rb_simps
  show ?thesis
  proof (cases "used (tx_out_ring t1) = 0")
    case True
    let ?t2 = "t1\<lparr>tx_out_ring := (tx_out_ring t1)\<lparr>rb_begin := rb_end (tx_out_ring t1)\<rparr>,
      tx_end_of_stream := False, tx_my_stream_id := 0, tx_state := T_kIdle,
      tx_current_out_buffer := None, tx_has_pending_eof := False\<rparr>"
    have ack: "Transmitter_ack L t control_bit seq_id bm = Some (if tx_end_of_stream t then ?t2 else t1, False)"
      using cb gt True ok1(3) by (simp add: unf Transmitter_reset_def popAll_eq)
    have "tx_ok ?t2"
      using ok1(2) ring_ok_drain [OF ok1(1)] by (simp add: tx_ok_def tx_queue_def contents_empty)
    moreover have "acked_to L t d bm t1"
      using t1(2, 3) True by (auto simp: acked_to_def released_to_def)
    ultimately show ?thesis
      using ack emp True by auto
  next
    case False
    then have "0 < used (tx_out_ring t1)"
      by simp
    from ack_bitmap [OF t1(2) this len] obtain t2 rushed where t2: "tx_same t1 t2"
      "(let (t1', _, la) = Transmitter_skipAcks bm (t1, rb_begin (tx_out_ring t1) + 1, rb_begin (tx_out_ring t1) - 1)
       in if RingBuffer_contains (tx_out_ring t1') la
          then Transmitter_rush L t1' (rb_begin (tx_out_ring t1)) la False False
          else Some (t1', False)) = Some (t2, rushed)"
      "\<forall>k < used (tx_out_ring t1). ob_acked (tx_queue t2 ! k) \<longleftrightarrow>
        ob_acked (tx_queue t1 ! k) \<or> 0 < k \<and> k - 1 < 8 * length bm \<and> bitmap_bits bm ! (k - 1)"
      "tx_next_to_send t2 = tx_next_to_send t1
      \<or> (\<exists>j < used (tx_out_ring t1). tx_next_to_send t2 = rb_begin (tx_out_ring t1) + of_nat j)"
      by blast
    have ack: "Transmitter_ack L t control_bit seq_id bm = Some (t2, rushed)"
      using cb gt False t2(2) by (simp add: unf split: prod.splits)
    note inv2 = tx_same_inv [OF t2(1) t1(2)]
    have fin2: "ob_finished (tx_queue t2 ! k)" if "k < used (tx_out_ring t1)" "ob_finished (tx_queue t1 ! k)" for k
      using tx_same_queue [OF t2(1) ok1(2) that(1)] that(2) by (simp add: same_packet_def)
    have "length (tx_frags L t1) = length (after_release d (tx_has_pending_eof t) (tx_frags L t))"
      using t1(3) by (simp add: released_to_def)
    then have len1: "d + k < used ?ring \<Longrightarrow> k < used (tx_out_ring t1)" for k
      by (simp add: after_release_def tx_frags_def split: if_splits)
    have ring2: "tx_out_ring t2 = tx_out_ring t1"
      using t2(1) by (simp add: tx_same_def)
    have old: "tx_queue t1 ! k = tx_queue t ! (d + k)" if "d + k < used ?ring" for k
      using t1(3) that by (simp add: released_to_def)
    have new: "\<not> ob_acked (tx_queue t1 ! k)" if "k < used (tx_out_ring t1)" "\<not> d + k < used ?ring" for k
      using t1(3) that by (simp add: released_to_def)
    have 1: "\<forall>k. d + k < used ?ring \<longrightarrow> ob_finished (tx_queue t ! (d + k)) \<longrightarrow> ob_finished (tx_queue t2 ! k)"
      using fin2 len1 old by simp
    have 2: "\<forall>k < used (tx_out_ring t2). ob_acked (tx_queue t2 ! k) \<longleftrightarrow>
        d + k < used ?ring \<and> ob_acked (tx_queue t ! (d + k))
        \<or> 0 < k \<and> k - 1 < 8 * length bm \<and> bitmap_bits bm ! (k - 1)"
    proof (intro allI impI)
      fix k assume "k < used (tx_out_ring t2)"
      then show "ob_acked (tx_queue t2 ! k) \<longleftrightarrow> d + k < used ?ring \<and> ob_acked (tx_queue t ! (d + k))
          \<or> 0 < k \<and> k - 1 < 8 * length bm \<and> bitmap_bits bm ! (k - 1)"
        using t2(3) old [of k] new [of k] by (cases "d + k < used ?ring") (simp_all add: ring2)
    qed
    have "acked_to L t d bm t2"
      using t1(3) t2(1, 4) inv2(1, 2) 1 2 by (simp add: acked_to_def released_to_def tx_same_def)
    then show ?thesis
      using ack emp False by auto
  qed
qed

text \<open>An acknowledgement of a position beyond the queue is ignored.\<close>

lemma ack_bogus:
  assumes "tx_inv L t" "used (tx_out_ring t) < tx_ahead t seq_id" "tx_ahead t seq_id < 2048"
  shows "Transmitter_ack L t control_bit seq_id bm = Some (t, False)"
proof -
  let ?seq = "RingBuffer_restorePosHighBits (tx_out_ring t) seq_id 12" and ?ring = "tx_out_ring t"
  have "unat (?seq - rb_end ?ring) = tx_ahead t seq_id - used ?ring"
    using dist_split [of "rb_end ?ring" "rb_begin ?ring" ?seq] assms(2) by (simp add: used_def tx_ahead_def)
  then have "SeqNum_gt ?seq (rb_end ?ring)"
    using assms(2, 3) by (simp add: SeqNum_gt_iff_dist)
  then show ?thesis
    by (simp add: Transmitter_ack_def Let_def)
qed

section \<open>Flow control\<close>

text \<open>The peer's mark only moves forward, and never further than the peer has room.\<close>

lemma himark_spec:
  assumes inv: "tx_inv L t" and up: "Transmitter_updateRecvHimark t control_bit h = (t', changed)"
  shows "tx_inv L t'" "t' = t\<lparr>tx_recv_himark := tx_recv_himark t'\<rparr>"
    "\<not> tx_end_of_stream t \<Longrightarrow> unat (tx_recv_himark t - rb_end (tx_out_ring t))
      \<le> unat (tx_recv_himark t' - rb_end (tx_out_ring t))"
proof -
  let ?ring = "tx_out_ring t" and ?new = "RingBuffer_restorePosHighBits (tx_out_ring t) h 12"
  let ?e = "rb_end ?ring" and ?old = "tx_recv_himark t"
  let ?x = "unat (?new - ?e)" and ?a = "unat (?old - ?e)"
  have ok: "ring_ok ?ring" "unat (tx_peer_receive_buffer_size t) \<le> 1024" "used ?ring \<le> 1024"
    using inv used_le by (simp_all add: tx_inv_def tx_ok_def)
  have key: "?a \<le> ?x \<and> ?x \<le> 1024"
    if a: "?a \<le> 1024" and lt: "\<not> SeqNum_lt ?new ?old"
      and gt: "\<not> SeqNum_gt ?new (SeqNum_plus ?e (uint (tx_peer_receive_buffer_size t)))"
  proof -
    let ?p = "tx_peer_receive_buffer_size t"
    have "SeqNum_ge ?new ?old"
      using lt by (simp add: SeqNum_ge_def SeqNum_lt_def)
    then have y: "unat (?new - ?old) < 32768"
      by (simp add: SeqNum_ge_iff_dist)
    then have x: "?x = ?a + unat (?new - ?old)"
      using a by (intro dist_trans) simp
    have "SeqNum_le ?new (?e + ?p)"
      using gt by (simp add: SeqNum_gt_def SeqNum_le_def SeqNum_plus_def)
    then have le: "unat (?e + ?p - ?new) \<le> 32768"
      by (simp add: SeqNum_le_iff_dist)
    have p: "unat (?e + ?p - ?e) = unat ?p"
      by simp
    have "?x \<le> unat ?p"
    proof (rule ccontr)
      assume "\<not> ?x \<le> unat ?p"
      then have "unat (?new - (?e + ?p)) = ?x - unat ?p"
        using dist_split [of "?e + ?p" ?e ?new] p by simp
      moreover from this have "?new - (?e + ?p) \<noteq> 0"
        using \<open>\<not> ?x \<le> unat ?p\<close> by (metis diff_is_0_eq unat_0)
      then have "unat (?e + ?p - ?new) = 65536 - unat (?new - (?e + ?p))"
        using unat_minus_u16 [of "?new - (?e + ?p)"] by simp
      ultimately have "32768 \<le> ?x - unat ?p"
        using le by linarith
      then have x_range: "32768 \<le> ?x" "?x < 33792"
        using a x y by linarith+
      have n: "unat (?new - rb_begin ?ring) = used ?ring + ?x"
        using dist_trans [of ?e "rb_begin ?ring" ?new] x_range ok(3) by (simp add: used_def)
      then have "?new - rb_begin ?ring \<noteq> 0"
        using x_range by (metis add_is_0 not_numeral_le_zero unat_0)
      then have m: "unat (rb_begin ?ring - ?new) = 65536 - unat (?new - rb_begin ?ring)"
        using unat_minus_u16 [of "?new - rb_begin ?ring"] by simp
      have "unat (?new - rb_begin ?ring) < 2048
          \<or> 0 < unat (rb_begin ?ring - ?new) \<and> unat (rb_begin ?ring - ?new) \<le> 2048"
        by (rule near_ahead_behind [OF restorePosHighBits_range])
      then show False
        using n m x_range ok(3) by linarith
    qed
    then show ?thesis
      using x ok(2) by simp
  qed
  have "t' = t \<or> \<not> SeqNum_lt ?new ?old
      \<and> \<not> SeqNum_gt ?new (SeqNum_plus ?e (uint (tx_peer_receive_buffer_size t))) \<and> t' = t\<lparr>tx_recv_himark := ?new\<rparr>"
    using up by (simp add: Transmitter_updateRecvHimark_def Let_def split: if_splits)
  then consider "t' = t"
    | "\<not> SeqNum_lt ?new ?old" "\<not> SeqNum_gt ?new (SeqNum_plus ?e (uint (tx_peer_receive_buffer_size t)))"
      "t' = t\<lparr>tx_recv_himark := ?new\<rparr>"
    by blast
  then have "tx_inv L t' \<and> t' = t\<lparr>tx_recv_himark := tx_recv_himark t'\<rparr>
    \<and> (\<not> tx_end_of_stream t \<longrightarrow> ?a \<le> unat (tx_recv_himark t' - ?e))"
  proof cases
    case 2
    have q: "tx_queue t' = tx_queue t" "tx_type t' = tx_type t"
      by (auto simp: tx_queue_def tx_type_def 2(3))
    have "\<not> tx_end_of_stream t \<longrightarrow> ?a \<le> ?x \<and> ?x \<le> 1024"
      using key [OF _ 2(1, 2)] inv by (simp add: tx_inv_def tx_credit_def)
    then have "tx_credit t'" "\<not> tx_end_of_stream t \<longrightarrow> ?a \<le> unat (tx_recv_himark t' - ?e)"
      using inv by (simp_all add: tx_inv_def tx_credit_def 2(3))
    moreover have "tx_ok t'" "tx_headers L t'"
      using inv unfolding tx_inv_def tx_ok_def tx_headers_def q by (simp_all add: 2(3))
    moreover have "tx_current t'"
      using inv unfolding tx_inv_def tx_current_def q by (simp add: 2(3))
    ultimately show ?thesis
      using 2(3) by (simp add: tx_inv_def)
  qed (use inv in simp)
  then show "tx_inv L t'" "t' = t\<lparr>tx_recv_himark := tx_recv_himark t'\<rparr>"
    "\<not> tx_end_of_stream t \<Longrightarrow> ?a \<le> unat (tx_recv_himark t' - ?e)"
    by blast+
qed

section \<open>Starting and stopping\<close>

lemma Transmitter_new_ok:
  assumes "Transmitter_new L k sid = Some t"
  shows "tx_ok t" "tx_frags L t = []" "tx_state t = T_kIdle" "cap (tx_out_ring t) = 2 ^ k"
  using assms new_ok [of "int k" 0]
  by (auto simp: Transmitter_new_def bind_eq_Some_conv tx_ok_def tx_frags_def tx_queue_def contents_empty buf_simps)

lemma Transmitter_init_spec:
  assumes "tx_ok t"
  shows "\<exists>t'. Transmitter_init t sid s = Some t' \<and> tx_inv L t' \<and> tx_frags L t' = []
    \<and> tx_state t' = T_kConnecting \<and> rb_begin (tx_out_ring t') = s \<and> used (tx_out_ring t') = 0
    \<and> \<not> tx_end_of_stream t' \<and> \<not> tx_has_pending_eof t' \<and> tx_next_to_send t' = s
    \<and> cap (tx_out_ring t') = cap (tx_out_ring t)"
proof -
  let ?ring = "(tx_out_ring t)\<lparr>rb_begin := s, rb_end := s\<rparr>"
  let ?t' = "t\<lparr>tx_my_stream_id := sid, tx_state := T_kConnecting, tx_end_of_stream := False,
    tx_out_ring := ?ring, tx_recv_himark := s, tx_next_to_send := s,
    tx_current_out_buffer := None, tx_has_pending_eof := False\<rparr>"
  have "Transmitter_init t sid s = Some ?t'"
    by (simp add: Transmitter_init_def popAll_eq reset_eq)
  moreover have "tx_queue ?t' = []"
    by (simp add: tx_queue_def contents_empty)
  then have "tx_inv L ?t'"
    using assms by (simp add: tx_inv_def tx_ok_def tx_headers_def tx_current_def tx_credit_def ring_ok_reset)
  ultimately show ?thesis
    by (simp add: tx_frags_def tx_queue_def contents_empty)
qed

lemma Transmitter_setConnected_spec:
  assumes "tx_inv L t" "used (tx_out_ring t) = 0" "\<not> tx_end_of_stream t" "unat n \<le> 1024"
  shows "tx_inv L (Transmitter_setConnected t n c)"
proof -
  have q: "tx_queue (Transmitter_setConnected t n c) = []"
    using assms(2) by (simp add: Transmitter_setConnected_def tx_queue_def contents_empty)
  have "rb_end (tx_out_ring t) = rb_begin (tx_out_ring t)"
    using assms(2) by (simp add: used_zero_iff)
  then have "tx_credit (Transmitter_setConnected t n c)"
    using assms by (simp add: tx_inv_def tx_credit_def Transmitter_setConnected_def SeqNum_plus_def)
  then show ?thesis
    using assms unfolding tx_inv_def tx_ok_def tx_headers_def tx_current_def q
    by (auto simp: Transmitter_setConnected_def)
qed

lemma Transmitter_reset_spec:
  assumes "tx_ok t"
  shows "\<exists>t'. Transmitter_reset t = Some t' \<and> tx_ok t' \<and> tx_state t' = T_kIdle
    \<and> used (tx_out_ring t') = 0 \<and> tx_current_out_buffer t' = None \<and> \<not> tx_end_of_stream t'"
  using assms by (simp add: Transmitter_reset_def popAll_eq tx_ok_def tx_queue_def contents_empty ring_ok_drain)

lemma Transmitter_setBroken_spec:
  assumes "tx_ok t"
  shows "\<exists>t'. Transmitter_setBroken t = Some t' \<and> tx_ok t' \<and> tx_state t' = T_kBroken \<and> used (tx_out_ring t') = 0"
  using assms by (simp add: Transmitter_setBroken_def popAll_eq tx_ok_def tx_queue_def contents_empty ring_ok_drain)

end
