(* ===== verification/Thread_Safe_Link.thy ===== *)
theory Thread_Safe_Link
  imports Receiver_Read Transmitter_Ack
begin

text \<open>
  The monitors around the two halves of a link
  (\<^verbatim>\<open>link/internal/thread_safe/thread_safe_transmitter.{h,cpp}\<close>,
  \<^verbatim>\<open>link/internal/thread_safe/thread_safe_receiver.{h,cpp}\<close>,
  \<^verbatim>\<open>link/internal/thread_safe/outgoing_data_ready_notification.h\<close>). Every method body runs
  under a mutex, so it is one atomic step on the wrapped object. A wait on a condition variable
  splits a method: the step before it ends with \<open>Blocked\<close>, and the next pass of the loop is a
  step of its own. The condition variables a step notifies are part of its result.
\<close>

section \<open>Results\<close>

text \<open>The stream status codes of \<open>roo_io\<close> that the code names.\<close>

datatype io_status = io_kOk | io_kEndOfStream | io_kConnectionError | io_kClosed

datatype 'a blocking = Returned 'a | Blocked

datatype tx_cv = has_space | all_acked
datatype rx_cv = has_data

section \<open>ThreadSafeTransmitter\<close>

definition TST_checkConnectionStatus :: "Transmitter \<Rightarrow> u32 \<Rightarrow> io_status" where
  "TST_checkConnectionStatus t my_stream_id =
     (if (tx_state t = T_kConnected \<or> tx_state t = T_kConnecting) \<and> my_stream_id = tx_my_stream_id t
      then io_kOk else io_kConnectionError)"

text \<open>
  One pass of the loop of \<open>write\<close>. The result is the number of bytes, the status and
  \<open>outgoing_data_ready\<close>; the status is \<open>kOk\<close> when the pass starts.
\<close>

definition TST_write_pass ::
  "lib \<Rightarrow> Transmitter \<Rightarrow> byte list \<Rightarrow> u32 \<Rightarrow> (Transmitter \<times> (nat \<times> io_status \<times> bool) blocking) option" where
  "TST_write_pass L t buf my_stream_id = do {
     (t, total_written, ready) \<leftarrow> Transmitter_tryWrite L t buf;
     if total_written > 0 then Some (t, Returned (total_written, io_kOk, ready))
     else let status = TST_checkConnectionStatus t my_stream_id
          in if status \<noteq> io_kOk then Some (t, Returned (0, status, ready))
             else Some (t, Blocked)
   }"

definition TST_write ::
  "lib \<Rightarrow> Transmitter \<Rightarrow> byte list \<Rightarrow> u32 \<Rightarrow> (Transmitter \<times> (nat \<times> io_status \<times> bool) blocking) option" where
  "TST_write L t buf my_stream_id =
     (let status = TST_checkConnectionStatus t my_stream_id
      in if status \<noteq> io_kOk then Some (t, Returned (0, status, False))
         else TST_write_pass L t buf my_stream_id)"

definition TST_tryWrite ::
  "lib \<Rightarrow> Transmitter \<Rightarrow> byte list \<Rightarrow> u32 \<Rightarrow> (Transmitter \<times> nat \<times> io_status \<times> bool) option" where
  "TST_tryWrite L t buf my_stream_id =
     (let status = TST_checkConnectionStatus t my_stream_id
      in if status \<noteq> io_kOk then Some (t, 0, status, False)
         else do {
           (t, total_written, ready) \<leftarrow> Transmitter_tryWrite L t buf;
           Some (t, total_written, status, ready)
         })"

definition TST_flush :: "Transmitter \<Rightarrow> u32 \<Rightarrow> Transmitter \<times> io_status \<times> bool" where
  "TST_flush t my_stream_id =
     (let status = TST_checkConnectionStatus t my_stream_id
      in if status \<noteq> io_kOk then (t, status, False)
         else let (t, flushed) = Transmitter_flush t in (t, status, flushed))"

definition TST_hasPendingData :: "Transmitter \<Rightarrow> u32 \<Rightarrow> bool \<times> io_status" where
  "TST_hasPendingData t my_stream_id =
     (let status = TST_checkConnectionStatus t my_stream_id
      in if status \<noteq> io_kOk then (False, status) else (Transmitter_hasPendingData t, status))"

text \<open>\<open>close\<close> up to its first wait, and one pass of its loop after a wait.\<close>

definition TST_close ::
  "lib \<Rightarrow> Transmitter \<Rightarrow> u32 \<Rightarrow> (Transmitter \<times> bool \<times> io_status blocking) option" where
  "TST_close L t my_stream_id =
     (let status = TST_checkConnectionStatus t my_stream_id
      in if status \<noteq> io_kOk then Some (t, False, Returned status)
         else do {
           t \<leftarrow> Transmitter_close L t;
           Some (t, True, if \<not> Transmitter_hasPendingData t then Returned status else Blocked)
         })"

definition TST_close_pass :: "Transmitter \<Rightarrow> u32 \<Rightarrow> io_status blocking" where
  "TST_close_pass t my_stream_id =
     (if \<not> Transmitter_hasPendingData t then Returned io_kOk
      else let status = TST_checkConnectionStatus t my_stream_id
           in if status \<noteq> io_kOk then Returned status else Blocked)"

definition TST_availableForWrite :: "Transmitter \<Rightarrow> u32 \<Rightarrow> nat \<times> io_status" where
  "TST_availableForWrite t my_stream_id =
     (let status = TST_checkConnectionStatus t my_stream_id
      in if status \<noteq> io_kOk then (0, status) else (Transmitter_availableForWrite t, status))"

definition TST_send :: "lib \<Rightarrow> Transmitter \<Rightarrow> uptime \<Rightarrow> u32 \<Rightarrow> int \<Rightarrow> Transmitter \<times> byte list \<times> int" where
  "TST_send L t now draw next_send_micros =
     (case Transmitter_getBufferToSend L t now draw next_send_micros of
        (t, None, next_send_micros) \<Rightarrow> (t, [], next_send_micros)
      | (t, Some s, next_send_micros) \<Rightarrow> (t, ob_packet (Transmitter_getOutBuffer t s), next_send_micros))"

definition TST_reset :: "Transmitter \<Rightarrow> (Transmitter \<times> tx_cv list) option" where
  "TST_reset t = do { t \<leftarrow> Transmitter_reset t; Some (t, [all_acked]) }"

definition TST_init :: "Transmitter \<Rightarrow> u32 \<Rightarrow> SeqNum \<Rightarrow> (Transmitter \<times> tx_cv list) option" where
  "TST_init t my_stream_id new_start = do {
     t \<leftarrow> Transmitter_init t my_stream_id new_start;
     Some (t, [all_acked])
   }"

definition TST_ack ::
  "lib \<Rightarrow> Transmitter \<Rightarrow> bool \<Rightarrow> u16 \<Rightarrow> byte list \<Rightarrow> (Transmitter \<times> bool \<times> tx_cv list) option" where
  "TST_ack L t control_bit seq_id ack_bitmap = do {
     let writable_before = Transmitter_availableForWrite t;
     (t, rushed) \<leftarrow> Transmitter_ack L t control_bit seq_id ack_bitmap;
     let writable_after = Transmitter_availableForWrite t;
     Some (t, rushed,
       (if writable_after > writable_before then [has_space] else [])
       @ (if \<not> Transmitter_hasPendingData t then [all_acked] else []))
   }"

definition TST_setConnected :: "Transmitter \<Rightarrow> u16 \<Rightarrow> bool \<Rightarrow> Transmitter" where
  "TST_setConnected = Transmitter_setConnected"

definition TST_setBroken :: "Transmitter \<Rightarrow> (Transmitter \<times> tx_cv list) option" where
  "TST_setBroken t = do { t \<leftarrow> Transmitter_setBroken t; Some (t, [all_acked, has_space]) }"

definition TST_updateRecvHimark :: "Transmitter \<Rightarrow> bool \<Rightarrow> u16 \<Rightarrow> Transmitter \<times> tx_cv list" where
  "TST_updateRecvHimark t control_bit recv_himark =
     (let (t, updated) = Transmitter_updateRecvHimark t control_bit recv_himark
      in (t, if updated then [has_space] else []))"

section \<open>ThreadSafeReceiver\<close>

definition TSR_checkConnectionStatus :: "Receiver \<Rightarrow> u32 \<Rightarrow> io_status" where
  "TSR_checkConnectionStatus r my_stream_id =
     (if my_stream_id \<noteq> rcv_my_stream_id r then io_kConnectionError
      else if rcv_state r = R_kIdle then io_kConnectionError
      else if rcv_end_of_stream r then io_kEndOfStream
      else io_kOk)"

definition TSR_setBroken :: "Receiver \<Rightarrow> Receiver \<times> rx_cv list" where
  "TSR_setBroken r = (Receiver_setBroken r, [has_data])"

definition TSR_read_pass ::
  "lib \<Rightarrow> Receiver \<Rightarrow> nat \<Rightarrow> u32 \<Rightarrow> (Receiver \<times> (byte list \<times> io_status \<times> bool) blocking) option" where
  "TSR_read_pass L r count my_stream_id = do {
     (r, out, ready) \<leftarrow> Receiver_tryRead L r count;
     if length out > 0 then Some (r, Returned (out, io_kOk, ready))
     else let status = TSR_checkConnectionStatus r my_stream_id
          in if status \<noteq> io_kOk then Some (r, Returned ([], status, ready))
             else Some (r, Blocked)
   }"

text \<open>With \<open>count = 0\<close> the status is left alone; it is an argument.\<close>

definition TSR_read ::
  "lib \<Rightarrow> Receiver \<Rightarrow> nat \<Rightarrow> u32 \<Rightarrow> io_status \<Rightarrow> (Receiver \<times> (byte list \<times> io_status \<times> bool) blocking) option" where
  "TSR_read L r count my_stream_id status0 =
     (if count = 0 then Some (r, Returned ([], status0, False))
      else let status = TSR_checkConnectionStatus r my_stream_id
           in if status \<noteq> io_kOk then Some (r, Returned ([], status, False))
              else TSR_read_pass L r count my_stream_id)"

definition TSR_tryRead ::
  "lib \<Rightarrow> Receiver \<Rightarrow> nat \<Rightarrow> u32 \<Rightarrow> io_status \<Rightarrow> (Receiver \<times> byte list \<times> io_status \<times> bool) option" where
  "TSR_tryRead L r count my_stream_id status0 =
     (if count = 0 then Some (r, [], status0, False)
      else let status = TSR_checkConnectionStatus r my_stream_id
           in if status \<noteq> io_kOk then Some (r, [], status, False)
              else do {
                (r, out, ready) \<leftarrow> Receiver_tryRead L r count;
                Some (r, out, status, ready)
              })"

definition TSR_peek :: "Receiver \<Rightarrow> u32 \<Rightarrow> Receiver \<times> int \<times> io_status" where
  "TSR_peek r my_stream_id =
     (let status = TSR_checkConnectionStatus r my_stream_id
      in if status \<noteq> io_kOk then (r, - 1, status)
         else let (r, b) = Receiver_peek r in (r, b, status))"

definition TSR_availableForRead :: "Receiver \<Rightarrow> u32 \<Rightarrow> Receiver \<times> nat \<times> io_status" where
  "TSR_availableForRead r my_stream_id =
     (let status = TSR_checkConnectionStatus r my_stream_id
      in if status \<noteq> io_kOk then (r, 0, status)
         else let (r, n) = Receiver_availableForRead r in (r, n, status))"

definition TSR_markInputClosed :: "lib \<Rightarrow> Receiver \<Rightarrow> u32 \<Rightarrow> bool \<Rightarrow> (Receiver \<times> io_status \<times> bool) option" where
  "TSR_markInputClosed L r my_stream_id outgoing_data_ready =
     (let status = TSR_checkConnectionStatus r my_stream_id
      in if status \<noteq> io_kOk then Some (r, status, outgoing_data_ready)
         else do {
           (r, ready) \<leftarrow> Receiver_markInputClosed L r outgoing_data_ready;
           Some (r, status, ready)
         })"

definition TSR_reset :: "lib \<Rightarrow> Receiver \<Rightarrow> (Receiver \<times> rx_cv list) option" where
  "TSR_reset L r = do { r \<leftarrow> Receiver_reset L r; Some (r, [has_data]) }"

definition TSR_init :: "Receiver \<Rightarrow> u32 \<Rightarrow> (Receiver \<times> rx_cv list) option" where
  "TSR_init r my_stream_id = do { r \<leftarrow> Receiver_init r my_stream_id; Some (r, [has_data]) }"

definition TSR_handleDataPacket ::
  "Receiver \<Rightarrow> bool \<Rightarrow> u16 \<Rightarrow> byte list \<Rightarrow> bool \<Rightarrow> (Receiver \<times> bool \<times> rx_cv list) option" where
  "TSR_handleDataPacket r control_bit seq_id payload is_final = do {
     (r, has_ack_to_send, has_new_data_to_read) \<leftarrow>
       Receiver_handleDataPacket r control_bit seq_id payload is_final;
     Some (r, has_ack_to_send, if has_new_data_to_read then [has_data] else [])
   }"

section \<open>OutgoingDataReadyNotification\<close>

text \<open>
  The flag \<open>has_data_to_send_\<close>. \<open>notify\<close> wakes the sender only when the flag was clear;
  \<open>await\<close> returns whether the flag was set within the time, and clears it.
\<close>

definition Notification_notify :: "bool \<Rightarrow> bool \<times> bool" where
  "Notification_notify has_data_to_send = (True, \<not> has_data_to_send)"

definition Notification_await :: "bool \<Rightarrow> bool \<times> bool" where
  "Notification_await has_data_to_send = (False, has_data_to_send)"

section \<open>Properties\<close>

text \<open>The transmitter and the receiver of a previous connection are out of reach.\<close>

lemma TST_stale:
  assumes "sid \<noteq> tx_my_stream_id t"
  shows "TST_write L t buf sid = Some (t, Returned (0, io_kConnectionError, False))"
    "TST_tryWrite L t buf sid = Some (t, 0, io_kConnectionError, False)"
    "TST_flush t sid = (t, io_kConnectionError, False)"
    "TST_close L t sid = Some (t, False, Returned io_kConnectionError)"
    "TST_availableForWrite t sid = (0, io_kConnectionError)"
  using assms by (simp_all add: TST_write_def TST_tryWrite_def TST_flush_def TST_close_def
      TST_availableForWrite_def TST_checkConnectionStatus_def Let_def)

lemma TSR_stale:
  assumes "sid \<noteq> rcv_my_stream_id r" "0 < count"
  shows "TSR_read L r count sid st = Some (r, Returned ([], io_kConnectionError, False))"
    "TSR_tryRead L r count sid st = Some (r, [], io_kConnectionError, False)"
    "TSR_peek r sid = (r, - 1, io_kConnectionError)"
    "TSR_availableForRead r sid = (r, 0, io_kConnectionError)"
    "TSR_markInputClosed L r sid b = Some (r, io_kConnectionError, b)"
  using assms by (simp_all add: TSR_read_def TSR_tryRead_def TSR_peek_def TSR_availableForRead_def
      TSR_markInputClosed_def TSR_checkConnectionStatus_def Let_def)

text \<open>
  A blocking write on an open stream: it returns a positive number of bytes, which it has
  appended, or it waits, and then there is no credit or no free slot.
\<close>

lemma TST_write_spec:
  assumes "roo_lib L" "tx_inv L t" "\<not> tx_end_of_stream t" "buf \<noteq> []"
    and "TST_checkConnectionStatus t sid = io_kOk"
  shows "\<exists>t' n ready. tx_inv L t' \<and> tx_grows t t' (take n buf) \<and> n \<le> length buf
    \<and> (0 < n \<and> TST_write L t buf sid = Some (t', Returned (n, io_kOk, ready))
      \<or> n = 0 \<and> TST_write L t buf sid = Some (t', Blocked) \<and> tx_current_out_buffer t' = None
        \<and> (tx_recv_himark t' = rb_end (tx_out_ring t') \<or> used (tx_out_ring t') = cap (tx_out_ring t')))"
proof -
  obtain t' n ready where w: "Transmitter_tryWrite_loop L t buf 0 False = Some (t', n, ready)"
    "n \<le> length buf" "tx_inv L t'" "tx_grows t t' (take n buf)"
    "n < length buf \<longrightarrow> tx_current_out_buffer t' = None
      \<and> (tx_recv_himark t' = rb_end (tx_out_ring t') \<or> used (tx_out_ring t') = cap (tx_out_ring t'))"
    using tryWrite_loop_spec [OF assms(1-3), of buf 0 False] by auto
  have st: "tx_state t = T_kConnected \<or> tx_state t = T_kConnecting" and id: "sid = tx_my_stream_id t"
    using assms(5) by (auto simp: TST_checkConnectionStatus_def split: if_splits)
  then have "Transmitter_tryWrite L t buf = Some (t', n, ready)"
    using assms(3, 4) w(1) by (auto simp: Transmitter_tryWrite_def)
  moreover have "TST_checkConnectionStatus t' sid = io_kOk"
    using st id tx_growsD(7, 13) [OF w(4)] by (simp add: TST_checkConnectionStatus_def)
  ultimately have "TST_write L t buf sid = Some (t', if 0 < n then Returned (n, io_kOk, ready) else Blocked)"
    using assms(5) by (simp add: TST_write_def TST_write_pass_def)
  then show ?thesis
    using w assms(4) by (intro exI [of _ t'] exI [of _ n] exI [of _ ready]) (cases "0 < n"; simp)
qed

text \<open>
  \<open>setBroken\<close> wakes every waiting writer, and the woken call returns an error; \<open>reset\<close>
  makes the same call return an error but notifies only \<open>all_acked\<close>.
\<close>

lemma TST_setBroken_wakes:
  assumes "tx_ok t"
  shows "\<exists>t'. TST_setBroken t = Some (t', [all_acked, has_space])
    \<and> TST_write_pass L t' buf sid = Some (t', Returned (0, io_kConnectionError, False))"
  using Transmitter_setBroken_spec [OF assms]
  by (auto simp: TST_setBroken_def TST_write_pass_def Transmitter_tryWrite_def TST_checkConnectionStatus_def Let_def)

lemma TST_reset_silent:
  assumes "tx_ok t"
  shows "\<exists>t'. TST_reset t = Some (t', [all_acked])
    \<and> TST_write_pass L t' buf sid = Some (t', Returned (0, io_kConnectionError, False))"
  using Transmitter_reset_spec [OF assms]
  by (auto simp: TST_reset_def TST_write_pass_def Transmitter_tryWrite_def TST_checkConnectionStatus_def Let_def)

text \<open>A notification is never lost: after \<open>notify\<close>, the next \<open>await\<close> returns at once.\<close>

lemma notify_await: "snd (Notification_await (fst (Notification_notify b)))"
  by (simp add: Notification_await_def Notification_notify_def)

end
