(* ===== verification/Ack_Bitmap.thy ===== *)
theory Ack_Bitmap
  imports Receiver_Read Transmitter_Ack
begin

text \<open>
  The acknowledgement packet, from the receiver that writes it to the transmitter that reads
  it: bit \<open>i\<close> of the bitmap, counted from the most significant bit of the first byte,
  is set exactly when the slot \<open>i + 1\<close> after the first gap is filled.
\<close>

section \<open>Bits and bytes\<close>

lemma and_push_bit_iff: "val AND push_bit i 1 \<noteq> 0 \<longleftrightarrow> bit val i" for val :: u8
  by (simp add: push_bit_eq_mult and_exp_eq_0_iff_not_bit)

lemma nth_bitmap_bits:
  "i < 8 * length bm \<Longrightarrow> bitmap_bits bm ! i \<longleftrightarrow> bit (bm ! (i div 8)) (7 - i mod 8)"
proof (induction bm arbitrary: i)
  case (Cons v bm)
  have c: "bitmap_bits (v # bm) = map (\<lambda>i. bit v i) [7, 6, 5, 4, 3, 2, 1, 0] @ bitmap_bits bm"
    unfolding bitmap_bits_def and_push_bit_iff by simp
  show ?case
  proof (cases "i < 8")
    case True
    then have "i \<in> {0, 1, 2, 3, 4, 5, 6, 7}"
      by auto
    then show ?thesis
      unfolding c by auto
  next
    case False
    then obtain j where j: "i = j + 8"
      by (metis add.commute le_add_diff_inverse not_less)
    then have "bitmap_bits (v # bm) ! i = bitmap_bits bm ! j"
      unfolding c by (simp add: nth_append)
    moreover have "i div 8 = Suc (j div 8)" "i mod 8 = j mod 8" "j < 8 * length bm"
      using j Cons.prems by simp_all
    ultimately show ?thesis
      using Cons.IH [of j] by simp
  qed
qed simp

lemma nth_bitmap_be_bytes:
  assumes "i < 64"
  shows "bitmap_bits (be_bytes 8 (z :: u64)) ! i \<longleftrightarrow> bit z (63 - i)"
proof -
  have q: "i div 8 < 8" "8 * (7 - i div 8) + (7 - i mod 8) = 63 - i" "7 - i mod 8 < 8"
    using assms by presburger+
  then show ?thesis
    using assms nth_bitmap_bits [of i "be_bytes 8 z"]
    by (simp add: be_bytes_def bit_ucast_iff bit_drop_bit_eq)
qed

lemma nth_bitmap_take:
  assumes "i < 8 * n" "n \<le> length bm"
  shows "bitmap_bits (take n bm) ! i = bitmap_bits bm ! i"
  using assms by (simp add: nth_bitmap_bits less_mult_imp_div_less mult.commute)

text \<open>Dropping trailing zero bytes leaves a prefix.\<close>

lemma strip_prefix: "\<exists>n. strip_trailing_zeros bs = take n bs"
proof -
  have "\<exists>n. dropWhile P (rev bs) = drop n (rev bs)" for P :: "byte \<Rightarrow> bool"
    by (metis dropWhile_eq_drop)
  then show ?thesis
    unfolding strip_trailing_zeros_def by (metis rev_drop rev_rev_ident)
qed

lemma strip_append:
  assumes "\<exists>b \<in> set bs. b \<noteq> 0"
  shows "strip_trailing_zeros (h @ bs) = h @ strip_trailing_zeros bs"
  using assms by (auto simp: strip_trailing_zeros_def dropWhile_append)

lemma be_bytes_nonzero:
  assumes "z \<noteq> (0 :: u64)"
  shows "\<exists>b \<in> set (be_bytes 8 z). b \<noteq> 0"
proof -
  obtain n where "bit z n"
    using assms by (metis bit_eq_iff bit_0_eq bot_apply bot_bool_def)
  then have n: "bit z n" "n < 64"
    using bit_imp_le_length [of z n] by simp_all
  let ?i = "63 - n"
  have "bitmap_bits (be_bytes 8 z) ! ?i"
    using nth_bitmap_be_bytes [of ?i z] n by simp
  then have "bit (be_bytes 8 z ! (?i div 8)) (7 - ?i mod 8)"
    using nth_bitmap_bits [of ?i "be_bytes 8 z"] by simp
  moreover have "?i div 8 < 8"
    by simp
  ultimately show ?thesis
    by (metis bit_0_eq bot_apply bot_bool_def length_be_bytes nth_mem)
qed

section \<open>The receiver's bitmap\<close>

lemma ack_loop_bit:
  assumes "rcv_ok r" "p + n < 32768" "n \<le> 64"
  shows "bit (Receiver_ack_loop n r (rb_begin (rcv_in_ring r) + of_nat p) m) j \<longleftrightarrow>
    bit m j \<or> j < n \<and> p + (n - 1 - j) < used (rcv_in_ring r) \<and> rcv_slots r ! (p + (n - 1 - j)) \<noteq> None"
  using assms
proof (induction n arbitrary: p m)
  case (Suc n)
  let ?ring = "rcv_in_ring r"
  have ring: "ring_ok ?ring"
    using Suc.prems by (simp add: rcv_ok_def)
  have c: "RingBuffer_contains ?ring (rb_begin ?ring + of_nat p) \<longleftrightarrow> p < used ?ring"
    using contains_pos [OF ring] Suc.prems(2) by simp
  have nx: "SeqNum_inc (rb_begin ?ring + of_nat p) = rb_begin ?ring + of_nat (Suc p)"
    by (simp add: SeqNum_inc_def)
  have bitn: "bit (m OR push_bit n 1) j \<longleftrightarrow> bit m j \<or> j = n" for m :: u64
    using Suc.prems(3) by (auto simp: bit_or_iff bit_exp_iff)
  show ?case
  proof (cases "p < used ?ring")
    case True
    have ty: "ib_type (Receiver_getInBuffer r (rb_begin ?ring + of_nat p)) \<noteq> kUnset \<longleftrightarrow> rcv_slots r ! p \<noteq> None"
      using nth_rcv_slots [OF True] by (simp add: Receiver_getInBuffer_def)
    let ?m' = "if rcv_slots r ! p \<noteq> None then m OR push_bit n 1 else m"
    have "Receiver_ack_loop (Suc n) r (rb_begin ?ring + of_nat p) m
        = Receiver_ack_loop n r (rb_begin ?ring + of_nat (Suc p)) ?m'"
      using True ty unfolding Receiver_ack_loop.simps(2) c nx by simp
    then have "bit (Receiver_ack_loop (Suc n) r (rb_begin ?ring + of_nat p) m) j \<longleftrightarrow> bit ?m' j
        \<or> j < n \<and> Suc p + (n - 1 - j) < used ?ring \<and> rcv_slots r ! (Suc p + (n - 1 - j)) \<noteq> None"
      using Suc.IH [of "Suc p" ?m'] Suc.prems by simp
    moreover have "j < n \<Longrightarrow> Suc p + (n - 1 - j) = p + (Suc n - 1 - j)"
      by simp
    moreover have "bit ?m' j \<longleftrightarrow> bit m j \<or> j = n \<and> rcv_slots r ! p \<noteq> None"
      using bitn by simp
    ultimately show ?thesis
      using True by (cases "j = n") auto
  next
    case False
    then show ?thesis
      by (simp add: c)
  qed
qed simp

text \<open>The acknowledgement packet: the first gap, and the slots after it.\<close>

lemma ack_packet:
  assumes lib: "roo_lib L" and inv: "rcv_inv r" and ack: "Receiver_ack L r = (r', pkt)" and ne: "pkt \<noteq> []"
  obtains bm where
    "pkt = StoreBeU16 L (FormatPacketHeader (rcv_unack_seq r) kDataAckPacket (rcv_control_bit r)) @ bm"
    "length bm \<le> 8" "r' = r\<lparr>rcv_needs_ack := False\<rparr>"
    "\<And>i. i < 8 * length bm \<Longrightarrow> bitmap_bits bm ! i \<longleftrightarrow>
      filled (rcv_slots r) + 1 + i < used (rcv_in_ring r) \<and> rcv_slots r ! (filled (rcv_slots r) + 1 + i) \<noteq> None"
proof -
  let ?h = "StoreBeU16 L (FormatPacketHeader (rcv_unack_seq r) kDataAckPacket (rcv_control_bit r))"
  let ?mask = "Receiver_ack_loop 64 r (rcv_unack_seq r + 1) 0" and ?m = "filled (rcv_slots r)"
  have ok: "rcv_ok r" "used (rcv_in_ring r) \<le> 1024"
    using inv used_le by (simp_all add: rcv_inv_def rcv_ok_def)
  have pos: "rcv_unack_seq r + 1 = rb_begin (rcv_in_ring r) + of_nat (?m + 1)"
    using inv by (simp add: rcv_inv_def unack_ok_def)
  have bits: "bit ?mask (63 - i) \<longleftrightarrow> ?m + 1 + i < used (rcv_in_ring r) \<and> rcv_slots r ! (?m + 1 + i) \<noteq> None"
    if "i < 64" for i
  proof -
    have "63 - i < 64" "64 - 1 - (63 - i) = i"
      using that by simp_all
    then show ?thesis
      using ack_loop_bit [OF ok(1), of "?m + 1" 64 0 "63 - i"] ok(2) filled_le [of "rcv_slots r"]
      unfolding pos by simp
  qed
  obtain n where n: "strip_trailing_zeros (be_bytes 8 ?mask) = take n (be_bytes 8 ?mask)"
    using strip_prefix by blast
  let ?n = "min n 8"
  have tk: "take n (be_bytes 8 ?mask) = take ?n (be_bytes 8 ?mask)"
    by (simp add: min_def)
  have pkt: "r' = r\<lparr>rcv_needs_ack := False\<rparr>
      \<and> pkt = (if ?mask = 0 then ?h else ?h @ take ?n (be_bytes 8 ?mask))"
    using ack ne roo_lib.StoreBeU64_be [OF lib] be_bytes_nonzero [of ?mask] n tk
    by (auto simp: Receiver_ack_def Let_def strip_append split: if_splits)
  show ?thesis
  proof (cases "?mask = 0")
    case True
    then show ?thesis
      using that [of "[]"] pkt by simp
  next
    case False
    show ?thesis
    proof (rule that [of "take ?n (be_bytes 8 ?mask)"])
      fix i assume "i < 8 * length (take ?n (be_bytes 8 ?mask))"
      then have "i < 8 * ?n" "i < 64"
        by simp_all
      then show "bitmap_bits (take ?n (be_bytes 8 ?mask)) ! i \<longleftrightarrow>
          ?m + 1 + i < used (rcv_in_ring r) \<and> rcv_slots r ! (?m + 1 + i) \<noteq> None"
        using nth_bitmap_take [of i ?n "be_bytes 8 ?mask"] nth_bitmap_be_bytes [of i ?mask] bits by simp
    qed (use pkt False in simp_all)
  qed
qed

end
