(* ===== verification/Link_Delivery.thy ===== *)
theory Link_Delivery
  imports Ack_Bitmap "HOL-Library.Sublist"
begin

text \<open>
  One direction of a connected link, end to end: the transmitter of one side, the receiver of
  the other, and two queues of packets between them (data one way, acknowledgements and flow
  control the other) that may lose packets but keep their order. The dispatch of received
  packets is that of \<open>Channel::packetReceived\<close> (\<^verbatim>\<open>link/internal/thread_safe/channel.cpp\<close>).
  Every interleaving of writing, flushing, closing, sending, losing, delivering, reading and
  acknowledging is a sequence of steps of \<open>link_step\<close>.
\<close>

section \<open>Dispatch\<close>

definition kMaxPacketSize :: nat where
  "kMaxPacketSize = 250"

text \<open>The data cases of the dispatch, on the receiver.\<close>

definition Channel_dataReceived :: "lib \<Rightarrow> Receiver \<Rightarrow> byte list \<Rightarrow> (Receiver \<times> bool \<times> bool) option" where
  "Channel_dataReceived L r buf =
     (let header = LoadBeU16 L buf; ty = GetPacketType header
      in if ty = kDataPacket \<and> length buf = 2 then Some (r, False, False)
         else Receiver_handleDataPacket r (GetPacketControlBit header) (header AND 0x0FFF) (drop 2 buf)
                (ty = kFinPacket))"

text \<open>The acknowledgement and flow-control cases, on the transmitter.\<close>

definition Channel_controlReceived :: "lib \<Rightarrow> Transmitter \<Rightarrow> byte list \<Rightarrow> (Transmitter \<times> bool) option" where
  "Channel_controlReceived L t buf =
     (let header = LoadBeU16 L buf
      in case GetPacketType header of
           kDataAckPacket \<Rightarrow>
             Transmitter_ack L t (GetPacketControlBit header) (header AND 0x0FFF) (drop 2 buf)
         | kFlowControlPacket \<Rightarrow>
             if length buf \<noteq> 2 then Some (t, False)
             else Some (fst (Transmitter_updateRecvHimark t (GetPacketControlBit header) (header AND 0x0FFF)),
                        False)
         | _ \<Rightarrow> Some (t, False))"

section \<open>The link\<close>

record link =
  lk_tx :: Transmitter
  lk_rx :: Receiver
  lk_data :: "byte list list"
  lk_ctl :: "byte list list"
  lk_written :: "byte list"
  lk_read :: "byte list"

text \<open>\<open>lk_written\<close> and \<open>lk_read\<close> record what the two applications have exchanged so far.\<close>

inductive link_step :: "lib \<Rightarrow> link \<Rightarrow> link \<Rightarrow> bool" for L :: lib where
  st_write: "Transmitter_tryWrite L (lk_tx s) buf = Some (t, n, ready) \<Longrightarrow>
    link_step L s (s\<lparr>lk_tx := t, lk_written := lk_written s @ take n buf\<rparr>)"
| st_flush: "link_step L s (s\<lparr>lk_tx := fst (Transmitter_flush (lk_tx s))\<rparr>)"
| st_close: "Transmitter_close L (lk_tx s) = Some t \<Longrightarrow> link_step L s (s\<lparr>lk_tx := t\<rparr>)"
| st_send: "Transmitter_send L (lk_tx s) now draw n = (t, pkt, n') \<Longrightarrow>
    link_step L s (s\<lparr>lk_tx := t, lk_data := lk_data s @ (if pkt = [] then [] else [pkt])\<rparr>)"
| st_lose_data: "lk_data s = ps @ p # qs \<Longrightarrow> link_step L s (s\<lparr>lk_data := ps @ qs\<rparr>)"
| st_deliver_data: "lk_data s = p # ps \<Longrightarrow> Channel_dataReceived L (lk_rx s) p = Some (r, a, b) \<Longrightarrow>
    link_step L s (s\<lparr>lk_rx := r, lk_data := ps\<rparr>)"
| st_read: "Receiver_tryRead L (lk_rx s) count = Some (r, out, ready) \<Longrightarrow>
    link_step L s (s\<lparr>lk_rx := r, lk_read := lk_read s @ out\<rparr>)"
| st_ack: "Receiver_ack L (lk_rx s) = (r, pkt) \<Longrightarrow>
    link_step L s (s\<lparr>lk_rx := r, lk_ctl := lk_ctl s @ (if pkt = [] then [] else [pkt])\<rparr>)"
| st_himark: "Receiver_updateRecvHimark L (lk_rx s) now n = (r, pkt, n') \<Longrightarrow>
    link_step L s (s\<lparr>lk_rx := r, lk_ctl := lk_ctl s @ (if pkt = [] then [] else [pkt])\<rparr>)"
| st_lose_ctl: "lk_ctl s = ps @ p # qs \<Longrightarrow> link_step L s (s\<lparr>lk_ctl := ps @ qs\<rparr>)"
| st_deliver_ctl: "lk_ctl s = p # ps \<Longrightarrow> Channel_controlReceived L (lk_tx s) p = Some (t, b) \<Longrightarrow>
    link_step L s (s\<lparr>lk_tx := t, lk_ctl := ps\<rparr>)"

text \<open>A link as the handshake leaves it: both ends agree on the first sequence number.\<close>

definition link_start :: "lib \<Rightarrow> link \<Rightarrow> bool" where
  "link_start L s \<longleftrightarrow>
     tx_inv L (lk_tx s) \<and> tx_state (lk_tx s) = T_kConnected \<and> used (tx_out_ring (lk_tx s)) = 0
     \<and> \<not> tx_end_of_stream (lk_tx s) \<and> tx_next_to_send (lk_tx s) = rb_begin (tx_out_ring (lk_tx s))
     \<and> rcv_inv (lk_rx s) \<and> rcv_state (lk_rx s) = R_kConnected \<and> used (rcv_in_ring (lk_rx s)) = 0
     \<and> \<not> rcv_self_closed (lk_rx s) \<and> \<not> rcv_end_of_stream (lk_rx s)
     \<and> rb_begin (rcv_in_ring (lk_rx s)) = rb_begin (tx_out_ring (lk_tx s))
     \<and> rcv_control_bit (lk_rx s) \<noteq> tx_control_bit (lk_tx s)
     \<and> lk_data s = [] \<and> lk_ctl s = [] \<and> lk_written s = [] \<and> lk_read s = []"

inductive link_reachable :: "lib \<Rightarrow> link \<Rightarrow> bool" for L :: lib where
  lr_start: "link_start L s \<Longrightarrow> link_reachable L s"
| lr_step: "link_reachable L s \<Longrightarrow> link_step L s s' \<Longrightarrow> link_reachable L s'"

section \<open>The invariant\<close>

text \<open>
  The invariant is stated over ghost values: \<open>hist\<close>, all fragments ever queued;
  \<open>a\<close>, how many of them the transmitter has released; \<open>b\<close>, how many the reader
  has consumed; \<open>sent\<close>, a bound below which every fragment may have been sent; \<open>c\<close>,
  the control bit and \<open>s0\<close> the first sequence number.
\<close>

definition hist_ok :: "fragment list \<Rightarrow> bool" where
  "hist_ok hist \<longleftrightarrow> (\<forall>j < length hist. length (fst (hist ! j)) \<le> 248
     \<and> (snd (hist ! j) \<longrightarrow> Suc j = length hist) \<and> (\<not> snd (hist ! j) \<longrightarrow> fst (hist ! j) \<noteq> []))"

definition enc :: "lib \<Rightarrow> bool \<Rightarrow> SeqNum \<Rightarrow> fragment list \<Rightarrow> nat \<Rightarrow> byte list" where
  "enc L c s0 hist k = StoreBeU16 L (FormatPacketHeader (s0 + of_nat k)
     (if snd (hist ! k) then kFinPacket else kDataPacket) c) @ fst (hist ! k)"

definition tx_live :: "lib \<Rightarrow> bool \<Rightarrow> SeqNum \<Rightarrow> fragment list \<Rightarrow> nat \<Rightarrow> nat \<Rightarrow> Transmitter \<Rightarrow> bool" where
  "tx_live L c s0 hist a sent t \<longleftrightarrow>
     tx_state t = T_kConnected \<and> tx_inv L t \<and> tx_control_bit t = c
     \<and> rb_begin (tx_out_ring t) = s0 + of_nat a \<and> drop a hist = tx_frags L t
     \<and> (\<forall>k. a + k < sent \<longrightarrow> ob_finished (tx_queue t ! k) \<or> tx_end_of_stream t)
     \<and> (\<exists>nx. tx_next_to_send t = s0 + of_nat nx \<and> nx \<le> length hist \<and> sent \<le> nx + 1024)
     \<and> (hist \<noteq> [] \<and> snd (last hist) \<longleftrightarrow> tx_end_of_stream t \<and> \<not> tx_has_pending_eof t)
     \<and> (tx_has_pending_eof t \<longrightarrow> 0 < used (tx_out_ring t))"

definition tx_part :: "lib \<Rightarrow> bool \<Rightarrow> SeqNum \<Rightarrow> fragment list \<Rightarrow> nat \<Rightarrow> nat \<Rightarrow> Transmitter \<Rightarrow> bool" where
  "tx_part L c s0 hist a sent t \<longleftrightarrow> hist_ok hist \<and> a \<le> length hist \<and> sent \<le> length hist \<and>
     (if tx_state t = T_kIdle then a = length hist \<and> hist \<noteq> [] \<and> snd (last hist)
      else tx_live L c s0 hist a sent t)"

definition rx_part :: "bool \<Rightarrow> SeqNum \<Rightarrow> fragment list \<Rightarrow> nat \<Rightarrow> nat \<Rightarrow> Receiver \<Rightarrow> byte list \<Rightarrow> bool" where
  "rx_part c s0 hist b sent r out \<longleftrightarrow> rcv_inv r \<and> rcv_state r = R_kConnected
     \<and> rcv_control_bit r = (\<not> c) \<and> \<not> rcv_self_closed r
     \<and> rb_begin (rcv_in_ring r) = s0 + of_nat b \<and> b + used (rcv_in_ring r) \<le> sent
     \<and> (\<forall>i < used (rcv_in_ring r). rcv_slots r ! i \<noteq> None \<longrightarrow> rcv_slots r ! i = Some (hist ! (b + i)))
     \<and> out = frag_bytes (take b hist) @ take (rcv_pos r) (front (rcv_slots r))
     \<and> (rcv_end_of_stream r \<longrightarrow> b = length hist \<and> hist \<noteq> [] \<and> snd (last hist))"

definition data_part :: "lib \<Rightarrow> bool \<Rightarrow> SeqNum \<Rightarrow> fragment list \<Rightarrow> nat \<Rightarrow> nat \<Rightarrow> byte list list \<Rightarrow> bool" where
  "data_part L c s0 hist sent rend ps \<longleftrightarrow> (\<exists>ks. ps = map (enc L c s0 hist) ks
     \<and> (\<forall>k \<in> set ks. k < sent \<and> rend \<le> k + 1024) \<and> sorted_wrt (\<lambda>i j. Suc i \<le> j + 1024) ks)"

text \<open>Fragment \<open>j\<close> has reached the receiver.\<close>

definition has_received :: "nat \<Rightarrow> Receiver \<Rightarrow> nat \<Rightarrow> bool" where
  "has_received b r j \<longleftrightarrow> j < b \<or> j - b < used (rcv_in_ring r) \<and> rcv_slots r ! (j - b) \<noteq> None"

text \<open>
  The control packets in flight: flow-control packets, and acknowledgements of the first
  \<open>m\<close> fragments, in increasing order, all received, whose bitmaps name only fragments
  that were received.
\<close>

definition ack_ok :: "lib \<Rightarrow> bool \<Rightarrow> SeqNum \<Rightarrow> (nat \<Rightarrow> bool) \<Rightarrow> nat \<Rightarrow> byte list \<Rightarrow> bool" where
  "ack_ok L c s0 rec m p \<longleftrightarrow> (\<forall>j < m. rec j) \<and> (\<exists>bm. length bm \<le> 8
     \<and> p = StoreBeU16 L (FormatPacketHeader (s0 + of_nat m) kDataAckPacket (\<not> c)) @ bm
     \<and> (\<forall>i < 8 * length bm. bitmap_bits bm ! i \<longrightarrow> rec (m + 1 + i)))"

definition flow_ok :: "lib \<Rightarrow> bool \<Rightarrow> byte list \<Rightarrow> bool" where
  "flow_ok L c p \<longleftrightarrow> (\<exists>h. p = StoreBeU16 L (FormatPacketHeader h kFlowControlPacket (\<not> c)))"

primrec ctl_part :: "lib \<Rightarrow> bool \<Rightarrow> SeqNum \<Rightarrow> (nat \<Rightarrow> bool) \<Rightarrow> nat \<Rightarrow> byte list list \<Rightarrow> bool" where
  "ctl_part L c s0 rec a [] = True"
| "ctl_part L c s0 rec a (p # ps) = (flow_ok L c p \<and> ctl_part L c s0 rec a ps
     \<or> (\<exists>m \<ge> a. ack_ok L c s0 rec m p \<and> ctl_part L c s0 rec m ps))"

text \<open>What the transmitter has released or marked was received.\<close>

definition acked_part :: "(nat \<Rightarrow> bool) \<Rightarrow> nat \<Rightarrow> Transmitter \<Rightarrow> bool" where
  "acked_part rec a t \<longleftrightarrow> (\<forall>j < a. rec j)
     \<and> (tx_state t = T_kConnected \<longrightarrow>
         (\<forall>k < used (tx_out_ring t). ob_acked (tx_queue t ! k) \<longrightarrow> rec (a + k)))"

definition link_inv_at ::
  "lib \<Rightarrow> bool \<Rightarrow> SeqNum \<Rightarrow> fragment list \<Rightarrow> nat \<Rightarrow> nat \<Rightarrow> nat \<Rightarrow> link \<Rightarrow> bool" where
  "link_inv_at L c s0 hist a b sent s \<longleftrightarrow>
     tx_part L c s0 hist a sent (lk_tx s) \<and> rx_part c s0 hist b sent (lk_rx s) (lk_read s)
     \<and> data_part L c s0 hist sent (b + used (rcv_in_ring (lk_rx s))) (lk_data s)
     \<and> ctl_part L c s0 (has_received b (lk_rx s)) a (lk_ctl s)
     \<and> acked_part (has_received b (lk_rx s)) a (lk_tx s)
     \<and> lk_written s = frag_bytes hist"

definition link_inv :: "lib \<Rightarrow> link \<Rightarrow> bool" where
  "link_inv L s \<longleftrightarrow> (\<exists>c s0 hist a b sent. link_inv_at L c s0 hist a b sent s)"

section \<open>Basic facts\<close>

lemma frag_bytes_append [simp]: "frag_bytes (xs @ ys) = frag_bytes xs @ frag_bytes ys"
  by (simp add: frag_bytes_def)

lemma frag_bytes_Nil [simp]: "frag_bytes [] = []"
  by (simp add: frag_bytes_def)

lemma ctl_part_mono:
  assumes "ctl_part L c s0 rec a ps" "a' \<le> a" "\<And>j. rec j \<Longrightarrow> rec' j"
  shows "ctl_part L c s0 rec' a' ps"
  using assms(1, 2)
proof (induction ps arbitrary: a a')
  case (Cons p ps)
  have "ack_ok L c s0 rec m p \<Longrightarrow> ack_ok L c s0 rec' m p" for m
    unfolding ack_ok_def using assms(3) by blast
  then show ?case
    using Cons by (auto intro: order.trans)
qed simp

lemma ctl_part_lose: "ctl_part L c s0 rec a (ps @ p # qs) \<Longrightarrow> ctl_part L c s0 rec a (ps @ qs)"
  by (induction ps arbitrary: a) (auto intro: ctl_part_mono)

lemma ctl_part_flow:
  "ctl_part L c s0 rec a ps \<Longrightarrow> flow_ok L c p \<Longrightarrow> ctl_part L c s0 rec a (ps @ [p])"
  by (induction ps arbitrary: a) auto

lemma ctl_part_ack:
  assumes "ctl_part L c s0 rec a ps" "ack_ok L c s0 rec m p" "a \<le> m" "\<not> rec m"
  shows "ctl_part L c s0 rec a (ps @ [p])"
  using assms(1, 3)
proof (induction ps arbitrary: a)
  case (Cons q ps)
  have "m' \<le> m" if "ack_ok L c s0 rec m' q" for m'
    using that assms(4) by (auto simp: ack_ok_def not_le [symmetric])
  then show ?case
    using Cons by auto
qed (use assms(2) in auto)

lemma data_part_lose:
  assumes "data_part L c s0 hist sent rend (ps @ p # qs)"
  shows "data_part L c s0 hist sent rend (ps @ qs)"
proof -
  obtain ks where ks: "ps @ p # qs = map (enc L c s0 hist) ks"
    "\<forall>k \<in> set ks. k < sent \<and> rend \<le> k + 1024" "sorted_wrt (\<lambda>i j. Suc i \<le> j + 1024) ks"
    using assms by (auto simp: data_part_def)
  obtain k1 k k2 where "ks = k1 @ k # k2" "ps = map (enc L c s0 hist) k1" "qs = map (enc L c s0 hist) k2"
    using ks(1) by (auto simp: map_eq_append_conv map_eq_Cons_conv append_eq_map_conv Cons_eq_map_conv)
  then show ?thesis
    using ks(2, 3) unfolding data_part_def
    by (intro exI [of _ "k1 @ k2"]) (auto simp: sorted_wrt_append)
qed

lemma enc_cong: "k < sent \<Longrightarrow> \<forall>j < sent. hist' ! j = hist ! j \<Longrightarrow> enc L c s0 hist' k = enc L c s0 hist k"
  by (simp add: enc_def)

lemma data_part_cong:
  assumes "data_part L c s0 hist sent rend ps" "\<forall>j < sent. hist' ! j = hist ! j" "sent \<le> sent'"
  shows "data_part L c s0 hist' sent' rend ps"
proof -
  obtain ks where ks: "ps = map (enc L c s0 hist) ks"
    "\<forall>k \<in> set ks. k < sent \<and> rend \<le> k + 1024" "sorted_wrt (\<lambda>i j. Suc i \<le> j + 1024) ks"
    using assms by (auto simp: data_part_def)
  then show ?thesis
    using assms(2, 3) enc_cong unfolding data_part_def by (intro exI [of _ ks]) force
qed

text \<open>The history when fragments are only added or extended beyond \<open>sent\<close>.\<close>

definition hist_grows :: "nat \<Rightarrow> fragment list \<Rightarrow> fragment list \<Rightarrow> bool" where
  "hist_grows sent hist hist' \<longleftrightarrow> (\<forall>j < sent. hist' ! j = hist ! j) \<and> length hist \<le> length hist'
     \<and> (hist \<noteq> [] \<and> snd (last hist) \<longrightarrow> hist' = hist)"

lemma hist_grows_refl [simp]: "hist_grows sent hist hist"
  by (simp add: hist_grows_def)

lemma take_cong_nth:
  assumes "\<forall>j < n. ys ! j = xs ! j" "n \<le> length xs" "n \<le> length ys"
  shows "take n ys = take n xs"
  using assms by (intro nth_equalityI) simp_all

lemma rx_part_cong:
  assumes rx: "rx_part c s0 hist b sent r out" and len: "sent \<le> length hist"
    and grows: "hist_grows sent hist hist'"
  shows "rx_part c s0 hist' b sent r out"
proof -
  have same: "\<forall>j < sent. hist' ! j = hist ! j" and fin: "hist \<noteq> [] \<Longrightarrow> snd (last hist) \<Longrightarrow> hist' = hist"
    and le: "length hist \<le> length hist'"
    using grows by (simp_all add: hist_grows_def)
  have b: "b \<le> sent"
    using rx by (simp add: rx_part_def)
  then have "take b hist' = take b hist"
    using same len le by (intro take_cong_nth) auto
  then show ?thesis
    using rx same fin unfolding rx_part_def by auto
qed

end
