(* ===== verification/Channel.thy ===== *)
theory Channel
  imports Thread_Safe_Link Link_Delivery Retry_Backoff
begin

text \<open>
  \<open>Channel\<close> (\<^verbatim>\<open>link/internal/thread_safe/channel.{h,cpp}\<close>): the connection state machine
  around the two halves of a link: the handshake, the dispatch of received packets, and the
  sender loop. Random draws and the readings of the clock are arguments. What a method does
  outside the channel (notifying \<open>connected_cv_\<close>, invoking a disconnect callback) is a list of
  effects; a callback is identified by a number. The packets handed to the \<open>PacketSender\<close> are
  returned in order.
\<close>

section \<open>State\<close>

datatype LinkStatus = Link_kIdle | Link_kConnecting | Link_kConnected | Link_kBroken

type_synonym callback = nat

datatype ch_effect = connected_cv | invoke callback

record Channel =
  ch_transmitter :: Transmitter
  ch_receiver :: Receiver
  ch_my_stream_id :: u32
  ch_my_stream_id_acked_by_peer :: bool
  ch_peer_stream_id :: u32
  ch_needs_handshake_ack :: bool
  ch_successive_handshake_retries :: u32
  ch_next_scheduled_handshake_update :: uptime
  ch_disconnect_fn :: "callback option"
  ch_outgoing_data_ready :: bool
  ch_active :: bool

text \<open>The buffer sizes are enumerators, cast to \<open>unsigned int\<close>.\<close>

definition ValidateBufferSizes :: "u32 \<Rightarrow> u32 \<Rightarrow> u32 option" where
  "ValidateBufferSizes sendbuf recvbuf = do {
     CHECK (unat sendbuf \<le> kMaxLinkBufferSizeLog2);
     CHECK (unat recvbuf \<le> kMaxLinkBufferSizeLog2);
     CHECK (sendbuf \<le> recvbuf);
     Some sendbuf
   }"

definition Channel_Backoff :: "lib \<Rightarrow> u32 \<Rightarrow> u32 \<Rightarrow> int" where
  "Channel_Backoff L draw retry_count =
     uint (RetryBackoffMicros (RANDOM_INTEGER_MAX L) 1000 1000000 retry_count draw)"

text \<open>The last two arguments are the initial values of fields that the constructors leave open.\<close>

definition Channel_new :: "lib \<Rightarrow> u32 \<Rightarrow> u32 \<Rightarrow> u32 \<Rightarrow> bool \<Rightarrow> Channel option" where
  "Channel_new L sendbuf recvbuf tx_id0 rx_bit0 = do {
     n \<leftarrow> ValidateBufferSizes sendbuf recvbuf;
     t \<leftarrow> Transmitter_new L (unat n) tx_id0;
     r \<leftarrow> Receiver_new L (unat recvbuf) rx_bit0;
     Some \<lparr>ch_transmitter = t, ch_receiver = r, ch_my_stream_id = 0,
       ch_my_stream_id_acked_by_peer = False, ch_peer_stream_id = 0, ch_needs_handshake_ack = False,
       ch_successive_handshake_retries = 0, ch_next_scheduled_handshake_update = Uptime_Start L,
       ch_disconnect_fn = None, ch_outgoing_data_ready = False, ch_active = True\<rparr>
   }"

definition my_control_bit :: "Channel \<Rightarrow> bool" where
  "my_control_bit ch \<longleftrightarrow> ch_my_stream_id ch > ch_peer_stream_id ch"

text \<open>\<open>outgoing_data_ready_.notify()\<close>\<close>

definition Channel_notify :: "Channel \<Rightarrow> bool \<Rightarrow> Channel" where
  "Channel_notify ch ready =
     (if ready then ch\<lparr>ch_outgoing_data_ready := fst (Notification_notify (ch_outgoing_data_ready ch))\<rparr> else ch)"

section \<open>Stream operations\<close>

text \<open>The blocking calls are given by one pass, as in the monitors.\<close>

definition Channel_write ::
  "lib \<Rightarrow> Channel \<Rightarrow> byte list \<Rightarrow> u32 \<Rightarrow> (Channel \<times> (nat \<times> io_status) blocking) option" where
  "Channel_write L ch buf my_stream_id = do {
     (t, res) \<leftarrow> TST_write L (ch_transmitter ch) buf my_stream_id;
     let ch = ch\<lparr>ch_transmitter := t\<rparr>
     in case res of
          Blocked \<Rightarrow> Some (ch, Blocked)
        | Returned (n, status, ready) \<Rightarrow> Some (Channel_notify ch ready, Returned (n, status))
   }"

definition Channel_tryWrite :: "lib \<Rightarrow> Channel \<Rightarrow> byte list \<Rightarrow> u32 \<Rightarrow> (Channel \<times> nat \<times> io_status) option" where
  "Channel_tryWrite L ch buf my_stream_id = do {
     (t, n, status, ready) \<leftarrow> TST_tryWrite L (ch_transmitter ch) buf my_stream_id;
     Some (Channel_notify (ch\<lparr>ch_transmitter := t\<rparr>) ready, n, status)
   }"

definition Channel_read ::
  "lib \<Rightarrow> Channel \<Rightarrow> nat \<Rightarrow> u32 \<Rightarrow> io_status \<Rightarrow> (Channel \<times> (byte list \<times> io_status) blocking) option" where
  "Channel_read L ch count my_stream_id status0 = do {
     (r, res) \<leftarrow> TSR_read L (ch_receiver ch) count my_stream_id status0;
     let ch = ch\<lparr>ch_receiver := r\<rparr>
     in case res of
          Blocked \<Rightarrow> Some (ch, Blocked)
        | Returned (out, status, ready) \<Rightarrow> Some (Channel_notify ch ready, Returned (out, status))
   }"

definition Channel_tryRead ::
  "lib \<Rightarrow> Channel \<Rightarrow> nat \<Rightarrow> u32 \<Rightarrow> io_status \<Rightarrow> (Channel \<times> byte list \<times> io_status) option" where
  "Channel_tryRead L ch count my_stream_id status0 = do {
     (r, out, status, ready) \<leftarrow> TSR_tryRead L (ch_receiver ch) count my_stream_id status0;
     Some (Channel_notify (ch\<lparr>ch_receiver := r\<rparr>) ready, out, status)
   }"

definition Channel_peek :: "Channel \<Rightarrow> u32 \<Rightarrow> Channel \<times> int \<times> io_status" where
  "Channel_peek ch my_stream_id =
     (let (r, b, status) = TSR_peek (ch_receiver ch) my_stream_id in (ch\<lparr>ch_receiver := r\<rparr>, b, status))"

definition Channel_availableForRead :: "Channel \<Rightarrow> u32 \<Rightarrow> Channel \<times> nat \<times> io_status" where
  "Channel_availableForRead ch my_stream_id =
     (let (r, n, status) = TSR_availableForRead (ch_receiver ch) my_stream_id
      in (ch\<lparr>ch_receiver := r\<rparr>, n, status))"

definition Channel_flush :: "Channel \<Rightarrow> u32 \<Rightarrow> Channel \<times> io_status" where
  "Channel_flush ch my_stream_id =
     (let (t, status, ready) = TST_flush (ch_transmitter ch) my_stream_id
      in (Channel_notify (ch\<lparr>ch_transmitter := t\<rparr>) ready, status))"

text \<open>
  \<open>close\<close> notifies the sender after the monitor's \<open>close\<close> has returned, that is, not before
  the wait for the acknowledgements is over.
\<close>

definition Channel_close :: "lib \<Rightarrow> Channel \<Rightarrow> u32 \<Rightarrow> (Channel \<times> io_status blocking) option" where
  "Channel_close L ch my_stream_id = do {
     (t, ready, res) \<leftarrow> TST_close L (ch_transmitter ch) my_stream_id;
     let ch = ch\<lparr>ch_transmitter := t\<rparr>
     in Some (case res of Blocked \<Rightarrow> (ch, Blocked) | Returned s \<Rightarrow> (Channel_notify ch ready, Returned s))
   }"

definition Channel_closeInput :: "lib \<Rightarrow> Channel \<Rightarrow> u32 \<Rightarrow> (Channel \<times> io_status) option" where
  "Channel_closeInput L ch my_stream_id = do {
     (r, status, ready) \<leftarrow> TSR_markInputClosed L (ch_receiver ch) my_stream_id False;
     Some (Channel_notify (ch\<lparr>ch_receiver := r\<rparr>) ready, status)
   }"

definition Channel_availableForWrite :: "Channel \<Rightarrow> u32 \<Rightarrow> nat \<times> io_status" where
  "Channel_availableForWrite ch = TST_availableForWrite (ch_transmitter ch)"

section \<open>Connecting and disconnecting\<close>

text \<open>
  \<open>while (my_stream_id_ == 0) my_stream_id_ = RANDOM_INTEGER();\<close> on a list of draws; \<open>None\<close>
  when the loop is still running at the end of the list.
\<close>

fun pick_stream_id :: "u32 list \<Rightarrow> (u32 \<times> u32 list) option" where
  "pick_stream_id [] = None"
| "pick_stream_id (d # draws) = (if d = 0 then pick_stream_id draws else Some (d, draws))"

definition Channel_connect ::
  "lib \<Rightarrow> Channel \<Rightarrow> callback option \<Rightarrow> u32 list \<Rightarrow> (Channel \<times> u32 \<times> ch_effect list) option" where
  "Channel_connect L ch disconnect_fn draws = do {
     let old_disconnect_fn = ch_disconnect_fn ch;
     (my_stream_id, draws) \<leftarrow> pick_stream_id draws;
     draw \<leftarrow> (case draws of [] \<Rightarrow> None | d # _ \<Rightarrow> Some d);
     (t, _) \<leftarrow> TST_init (ch_transmitter ch) my_stream_id (ucast (draw mod 0x0FFF));
     (r, _) \<leftarrow> TSR_init (ch_receiver ch) my_stream_id;
     let ch = ch\<lparr>ch_disconnect_fn := disconnect_fn, ch_my_stream_id := my_stream_id,
       ch_my_stream_id_acked_by_peer := False, ch_peer_stream_id := 0, ch_transmitter := t,
       ch_receiver := r, ch_needs_handshake_ack := False, ch_successive_handshake_retries := 0,
       ch_next_scheduled_handshake_update := Uptime_Start L\<rparr>;
     Some (Channel_notify ch True, my_stream_id,
       connected_cv # (case old_disconnect_fn of None \<Rightarrow> [] | Some f \<Rightarrow> [invoke f]))
   }"

definition Channel_disconnect :: "lib \<Rightarrow> Channel \<Rightarrow> u32 \<Rightarrow> (Channel \<times> ch_effect list) option" where
  "Channel_disconnect L ch my_stream_id =
     (if ch_my_stream_id ch \<noteq> my_stream_id then Some (ch, [])
      else do {
        (t, _) \<leftarrow> TST_reset (ch_transmitter ch);
        (r, _) \<leftarrow> TSR_reset L (ch_receiver ch);
        let disconnect_fn = ch_disconnect_fn ch;
        let ch = ch\<lparr>ch_my_stream_id := 0, ch_my_stream_id_acked_by_peer := False, ch_peer_stream_id := 0,
          ch_transmitter := t, ch_receiver := r, ch_disconnect_fn := None\<rparr>;
        Some (Channel_notify ch True,
          connected_cv # (case disconnect_fn of None \<Rightarrow> [] | Some f \<Rightarrow> [invoke f]))
      })"

definition Channel_getLinkStatusInternal :: "Channel \<Rightarrow> u32 \<Rightarrow> LinkStatus" where
  "Channel_getLinkStatusInternal ch stream_id =
     (if stream_id = 0 then Link_kIdle
      else if ch_my_stream_id ch \<noteq> stream_id then Link_kBroken
      else if ch_peer_stream_id ch = 0 \<or> \<not> ch_my_stream_id_acked_by_peer ch then Link_kConnecting
      else Link_kConnected)"

text \<open>
  One pass of the loops of the two \<open>awaitConnected\<close>. The flag of the second one says whether
  \<open>wait_until\<close> timed out.
\<close>

definition Channel_awaitConnected_pass :: "Channel \<Rightarrow> u32 \<Rightarrow> unit blocking" where
  "Channel_awaitConnected_pass ch stream_id =
     (if Channel_getLinkStatusInternal ch stream_id = Link_kConnecting then Blocked else Returned ())"

definition Channel_awaitConnected_timed_pass :: "Channel \<Rightarrow> u32 \<Rightarrow> bool \<Rightarrow> bool blocking" where
  "Channel_awaitConnected_timed_pass ch stream_id timed_out =
     (if timed_out then Returned False
      else if Channel_getLinkStatusInternal ch stream_id = Link_kConnecting then Blocked
      else Returned True)"

section \<open>Sending\<close>

definition Channel_conn ::
  "lib \<Rightarrow> Channel \<Rightarrow> uptime \<Rightarrow> u32 \<Rightarrow> int \<Rightarrow> Channel \<times> byte list \<times> int" where
  "Channel_conn L ch now draw next_send_micros =
     (let state = tx_state (ch_transmitter ch)
      in if state = T_kIdle \<or> state = T_kBroken then (ch, [], next_send_micros)
         else if state = T_kConnected \<and> \<not> ch_needs_handshake_ack ch then (ch, [], next_send_micros)
         else if state = T_kConnecting \<and> now < ch_next_scheduled_handshake_update ch
           then (ch, [], min next_send_micros (ch_next_scheduled_handshake_update ch - now))
         else
           (let delay = (if state = T_kConnecting
                         then Channel_Backoff L draw (ch_successive_handshake_retries ch) else LONG_MAX L);
                ch = (if state = T_kConnecting
                      then ch\<lparr>ch_successive_handshake_retries := ch_successive_handshake_retries ch + 1,
                              ch_next_scheduled_handshake_update := now + delay\<rparr>
                      else ch);
                ch = ch\<lparr>ch_needs_handshake_ack := False\<rparr>;
                we_need_ack = (state \<noteq> T_kConnected);
                header = FormatPacketHeader (Transmitter_front (ch_transmitter ch)) kHandshakePacket False;
                last_byte = (if we_need_ack then 0x80 else 0x00)
                  OR of_nat (rb_capacity_log2 (rcv_in_ring (ch_receiver ch)))
            in (ch,
                StoreBeU16 L header @ StoreBeU32 L (ch_my_stream_id ch)
                  @ StoreBeU32 L (ch_peer_stream_id ch) @ [last_byte],
                min next_send_micros delay)))"

definition kMaxDataPacketsPerBurst :: nat where
  "kMaxDataPacketsPerBurst = 8"

text \<open>The burst; \<open>env\<close> gives the clock and the random draw of each iteration.\<close>

primrec Channel_burst ::
  "nat \<Rightarrow> lib \<Rightarrow> Transmitter \<Rightarrow> (nat \<Rightarrow> uptime \<times> u32) \<Rightarrow> int \<Rightarrow> Transmitter \<times> byte list list \<times> int" where
  "Channel_burst 0 L t env next_send_micros = (t, [], next_send_micros)"
| "Channel_burst (Suc n) L t env next_send_micros =
     (let (t, pkt, next_send_micros) = TST_send L t (fst (env n)) (snd (env n)) next_send_micros
      in if pkt = [] then (t, [], next_send_micros)
         else let (t, pkts, next_send_micros) = Channel_burst n L t env next_send_micros
              in (t, pkt # pkts, next_send_micros))"

definition sent_packet :: "byte list \<Rightarrow> byte list list" where
  "sent_packet pkt = (if pkt = [] then [] else [pkt])"

definition Channel_trySend ::
  "lib \<Rightarrow> Channel \<Rightarrow> (nat \<Rightarrow> uptime \<times> u32) \<Rightarrow> Channel \<times> byte list list \<times> int" where
  "Channel_trySend L ch env =
     (let (ch, pkt1, next_send_micros) = Channel_conn L ch (fst (env 0)) (snd (env 0)) (LONG_MAX L)
      in if tx_state (ch_transmitter ch) = T_kConnecting then (ch, sent_packet pkt1, next_send_micros)
         else
           (let (r, pkt2) = Receiver_ack L (ch_receiver ch);
                (r, pkt3, next_send_micros) = Receiver_updateRecvHimark L r (fst (env 1)) next_send_micros;
                (t, pkts, next_send_micros) =
                  Channel_burst kMaxDataPacketsPerBurst L (ch_transmitter ch) (\<lambda>i. env (i + 2)) next_send_micros
            in (ch\<lparr>ch_receiver := r, ch_transmitter := t\<rparr>,
                sent_packet pkt1 @ sent_packet pkt2 @ sent_packet pkt3 @ pkts, next_send_micros)))"

text \<open>
  One iteration of the sender thread: whether it waits, and the flag after a wait that has
  returned.
\<close>

definition Channel_sendLoop_pass ::
  "lib \<Rightarrow> Channel \<Rightarrow> (nat \<Rightarrow> uptime \<times> u32) \<Rightarrow> Channel \<times> byte list list \<times> int option" where
  "Channel_sendLoop_pass L ch env =
     (if \<not> ch_active ch then (ch, [], None)
      else
        (let (ch, pkts, delay_micros) = Channel_trySend L ch env
         in if delay_micros > 0
            then (ch\<lparr>ch_outgoing_data_ready := fst (Notification_await (ch_outgoing_data_ready ch))\<rparr>,
                  pkts, Some delay_micros)
            else (ch, pkts, None)))"

definition Channel_end :: "Channel \<Rightarrow> Channel" where
  "Channel_end ch = Channel_notify (ch\<lparr>ch_active := False\<rparr>) True"

section \<open>Receiving\<close>

text \<open>The two cases of \<open>handleHandshakePacket\<close> that depend on the receiver's state.\<close>

definition Channel_handshake_connecting ::
  "Channel \<Rightarrow> u16 \<Rightarrow> u32 \<Rightarrow> u32 \<Rightarrow> bool \<Rightarrow> u16 \<Rightarrow> (Channel \<times> bool \<times> ch_effect list) option" where
  "Channel_handshake_connecting ch peer_seq_num peer_stream_id ack_stream_id want_ack
     peer_receive_buffer_size =
     (if ack_stream_id \<noteq> 0 \<and> ack_stream_id \<noteq> ch_my_stream_id ch then Some (ch, False, [])
      else if peer_stream_id = ch_my_stream_id ch then do {
        let disconnect_fn = ch_disconnect_fn ch;
        let (r, _) = TSR_setBroken (ch_receiver ch);
        (t, _) \<leftarrow> TST_setBroken (ch_transmitter ch);
        Some (ch\<lparr>ch_disconnect_fn := None, ch_receiver := r, ch_transmitter := t, ch_my_stream_id := 0\<rparr>,
          False, connected_cv # (case disconnect_fn of None \<Rightarrow> [] | Some f \<Rightarrow> [invoke f]))
      } else do {
        let ch = ch\<lparr>ch_peer_stream_id := peer_stream_id\<rparr>;
        CHECK (Receiver_empty (ch_receiver ch));
        r \<leftarrow> Receiver_setConnected (ch_receiver ch) peer_seq_num (my_control_bit ch);
        let ch = ch\<lparr>ch_receiver := r\<rparr>;
        let ch = (if ack_stream_id = ch_my_stream_id ch
          then ch\<lparr>ch_my_stream_id_acked_by_peer := True,
                  ch_transmitter := TST_setConnected (ch_transmitter ch) peer_receive_buffer_size
                    (my_control_bit ch)\<rparr>
          else ch);
        Some (ch\<lparr>ch_needs_handshake_ack := want_ack\<rparr>, True, [connected_cv])
      })"

definition Channel_handshake_connected ::
  "lib \<Rightarrow> Channel \<Rightarrow> u32 \<Rightarrow> u32 \<Rightarrow> bool \<Rightarrow> u16 \<Rightarrow> (Channel \<times> bool \<times> ch_effect list) option" where
  "Channel_handshake_connected L ch peer_stream_id ack_stream_id want_ack peer_receive_buffer_size =
     (if want_ack \<and> ch_peer_stream_id ch \<noteq> peer_stream_id \<and> ack_stream_id = 0 then do {
        let disconnect_fn = ch_disconnect_fn ch;
        let effects = connected_cv # (case disconnect_fn of None \<Rightarrow> [] | Some f \<Rightarrow> [invoke f]);
        let ch = ch\<lparr>ch_disconnect_fn := None\<rparr>;
        if \<not> Receiver_done (ch_receiver ch) then do {
          (t, _) \<leftarrow> (if tx_state (ch_transmitter ch) = T_kConnected
                    then TST_setBroken (ch_transmitter ch) else TST_reset (ch_transmitter ch));
          let (r, _) = TSR_setBroken (ch_receiver ch);
          Some (ch\<lparr>ch_transmitter := t, ch_my_stream_id := 0, ch_receiver := r\<rparr>, False, effects)
        } else do {
          (t, _) \<leftarrow> TST_reset (ch_transmitter ch);
          (r, _) \<leftarrow> TSR_reset L (ch_receiver ch);
          Some (ch\<lparr>ch_transmitter := t, ch_my_stream_id := 0, ch_receiver := r\<rparr>, False, effects)
        }
      } else if ack_stream_id = ch_my_stream_id ch \<and> \<not> ch_my_stream_id_acked_by_peer ch then do {
        CHECK (ch_my_stream_id ch \<noteq> 0);
        Some (ch\<lparr>ch_my_stream_id_acked_by_peer := True,
                 ch_transmitter := TST_setConnected (ch_transmitter ch) peer_receive_buffer_size
                   (my_control_bit ch),
                 ch_needs_handshake_ack := want_ack\<rparr>, True, [connected_cv])
      } else Some (ch\<lparr>ch_needs_handshake_ack := want_ack\<rparr>, False, []))"

definition Channel_handleHandshakePacket ::
  "lib \<Rightarrow> Channel \<Rightarrow> u16 \<Rightarrow> u32 \<Rightarrow> u32 \<Rightarrow> bool \<Rightarrow> u16 \<Rightarrow> (Channel \<times> bool \<times> ch_effect list) option" where
  "Channel_handleHandshakePacket L ch peer_seq_num peer_stream_id ack_stream_id want_ack
     peer_receive_buffer_size =
     (if peer_stream_id = ch_my_stream_id ch \<and> peer_seq_num = Transmitter_front (ch_transmitter ch)
      then Some (ch, False, [])
      else case rcv_state (ch_receiver ch) of
        R_kConnecting \<Rightarrow> Channel_handshake_connecting ch peer_seq_num peer_stream_id ack_stream_id
          want_ack peer_receive_buffer_size
      | R_kConnected \<Rightarrow> Channel_handshake_connected L ch peer_stream_id ack_stream_id want_ack
          peer_receive_buffer_size
      | R_kIdle \<Rightarrow> Some (ch, False, [])
      | R_kBroken \<Rightarrow> Some (ch, False, []))"

text \<open>The 11-byte handshake packet: \<open>None\<close> if it is malformed.\<close>

definition parse_handshake :: "lib \<Rightarrow> byte list \<Rightarrow> (u16 \<times> u32 \<times> u32 \<times> bool \<times> u16) option" where
  "parse_handshake L buf =
     (if length buf \<noteq> 11 then None
      else
        (let header = LoadBeU16 L buf;
             peer_stream_id = LoadBeU32 L (drop 2 buf);
             ack_stream_id = LoadBeU32 L (drop 6 buf);
             last_byte = buf ! 10;
             log2 = last_byte AND 0x0F
         in if last_byte AND 0x70 \<noteq> 0 then None
            else if unat log2 > kMaxLinkBufferSizeLog2 then None
            else Some (header AND 0x0FFF, peer_stream_id, ack_stream_id, last_byte AND 0x80 \<noteq> 0,
                       push_bit (unat log2) 1)))"

definition Channel_packetReceived :: "lib \<Rightarrow> Channel \<Rightarrow> byte list \<Rightarrow> (Channel \<times> ch_effect list) option" where
  "Channel_packetReceived L ch buf =
     (if length buf < 2 \<or> length buf > kMaxPacketSize then Some (ch, [])
      else
        (let header = LoadBeU16 L buf;
             control_bit = GetPacketControlBit header;
             ty = GetPacketType header
         in case ty of
              kDataAckPacket \<Rightarrow> do {
                (t, ready, _) \<leftarrow> TST_ack L (ch_transmitter ch) control_bit (header AND 0x0FFF) (drop 2 buf);
                Some (Channel_notify (ch\<lparr>ch_transmitter := t\<rparr>) ready, [])
              }
            | kFlowControlPacket \<Rightarrow>
                if length buf \<noteq> 2 then Some (ch, [])
                else let (t, _) = TST_updateRecvHimark (ch_transmitter ch) control_bit (header AND 0x0FFF)
                     in Some (ch\<lparr>ch_transmitter := t\<rparr>, [])
            | kHandshakePacket \<Rightarrow>
                (case parse_handshake L buf of
                   None \<Rightarrow> Some (ch, [])
                 | Some (peer_seq_num, peer_stream_id, ack_stream_id, want_ack, recv_size) \<Rightarrow> do {
                     (ch, ready, effects) \<leftarrow> Channel_handleHandshakePacket L ch peer_seq_num peer_stream_id
                       ack_stream_id want_ack recv_size;
                     Some (Channel_notify ch ready, effects)
                   })
            | kUnknownPacket n \<Rightarrow> Some (ch, [])
            | _ \<Rightarrow>
                if ty = kDataPacket \<and> length buf = 2 then Some (ch, [])
                else do {
                  (r, ready, _) \<leftarrow> TSR_handleDataPacket (ch_receiver ch) control_bit (header AND 0x0FFF)
                    (drop 2 buf) (ty = kFinPacket);
                  Some (Channel_notify (ch\<lparr>ch_receiver := r\<rparr>) ready, [])
                }))"

end
