(* ===== verification/Link_Transmit.thy ===== *)
theory Link_Transmit
  imports Link_Delivery
begin

text \<open>
  The transmitter's side of the end-to-end invariant: writing, flushing, closing, sending and
  processing control packets succeed and keep it, with what each does to the history.
\<close>

section \<open>Facts about the queue\<close>

lemma tx_frags_nth:
  assumes "roo_lib L" "tx_inv L t" "k < used (tx_out_ring t)"
  shows "fst (tx_frags L t ! k) = ob_bytes (tx_queue t ! k)"
    "snd (tx_frags L t ! k) \<longleftrightarrow> tx_type t k = kFinPacket"
    "length (fst (tx_frags L t ! k)) \<le> 248"
    "\<not> snd (tx_frags L t ! k) \<Longrightarrow> fst (tx_frags L t ! k) \<noteq> []"
proof -
  have k: "tx_frags L t ! k = ob_frag L (tx_queue t ! k)"
    using assms(3) by (simp add: tx_frags_def)
  have h: "ob_header (tx_queue t ! k) = StoreBeU16 L
      (FormatPacketHeader (rb_begin (tx_out_ring t) + of_nat k) (tx_type t k) (tx_control_bit t))"
    using assms by (simp add: tx_inv_def tx_headers_def)
  have w: "wire_type (tx_type t k)"
    by (simp add: tx_type_def)
  show 1: "fst (tx_frags L t ! k) = ob_bytes (tx_queue t ! k)"
    by (simp add: k ob_frag_def)
  show 2: "snd (tx_frags L t ! k) \<longleftrightarrow> tx_type t k = kFinPacket"
    by (simp add: k ob_frag_def h roo_lib.load_store_16_nil [OF assms(1)] header_type [OF w])
  have "ob_ok (tx_queue t ! k)"
    using assms(2, 3) by (simp add: tx_inv_def tx_ok_def)
  then show "length (fst (tx_frags L t ! k)) \<le> 248"
    by (simp add: 1 length_ob_bytes) (simp add: ob_ok_def)
  show "fst (tx_frags L t ! k) \<noteq> []" if "\<not> snd (tx_frags L t ! k)"
  proof -
    have "tx_type t k = kDataPacket"
      using that 2 by (auto simp: tx_type_def split: if_splits)
    then show ?thesis
      using assms(2, 3) by (simp add: 1 tx_inv_def tx_current_def)
  qed
qed

lemma length_tx_frags [simp]: "length (tx_frags L t) = used (tx_out_ring t)"
  by (simp add: tx_frags_def)

lemma no_final:
  "hist_ok hist \<Longrightarrow> \<not> (hist \<noteq> [] \<and> snd (last hist)) \<Longrightarrow> j < length hist \<Longrightarrow> \<not> snd (hist ! j)"
  by (cases hist rule: rev_cases) (fastforce simp: hist_ok_def nth_append)+

lemma last_no_final: "(\<And>j. j < length xs \<Longrightarrow> \<not> snd (xs ! j)) \<Longrightarrow> \<not> (xs \<noteq> [] \<and> snd (last xs))"
  by (auto simp: last_conv_nth)

lemma hist_ok_snoc:
  assumes "hist_ok hist" "\<not> (hist \<noteq> [] \<and> snd (last hist))"
  shows "hist_ok (hist @ [([], True)])"
  using no_final [OF assms] assms(1) by (auto simp: hist_ok_def nth_append less_Suc_eq)

lemma tx_live_used:
  assumes "tx_live L c s0 hist a sent t" "a \<le> length hist"
  shows "length hist = a + used (tx_out_ring t)" "used (tx_out_ring t) \<le> 1024"
    "k < used (tx_out_ring t) \<Longrightarrow> hist ! (a + k) = tx_frags L t ! k"
proof -
  have d: "drop a hist = tx_frags L t" and ring: "ring_ok (tx_out_ring t)"
    using assms(1) by (simp_all add: tx_live_def tx_inv_def tx_ok_def)
  from d have "length hist - a = used (tx_out_ring t)"
    by (metis length_drop length_tx_frags)
  then show "length hist = a + used (tx_out_ring t)"
    using assms(2) by simp
  show "used (tx_out_ring t) \<le> 1024"
    using ring by (rule used_le)
  show "hist ! (a + k) = tx_frags L t ! k" if "k < used (tx_out_ring t)"
    using that d [symmetric] assms(2) by simp
qed

section \<open>Writing\<close>

lemma write_part:
  assumes lib: "roo_lib L" and tx: "tx_part L c s0 hist a sent t" and acked: "acked_part rec a t"
  shows "\<exists>t' n ready hist'. Transmitter_tryWrite L t buf = Some (t', n, ready) \<and> n \<le> length buf
    \<and> tx_part L c s0 hist' a sent t' \<and> acked_part rec a t' \<and> hist_grows sent hist hist'
    \<and> frag_bytes hist' = frag_bytes hist @ take n buf"
proof (cases "buf = [] \<or> tx_end_of_stream t \<or> tx_state t = T_kIdle")
  case True
  then have "Transmitter_tryWrite L t buf = Some (t, 0, False)"
    by (auto simp: Transmitter_tryWrite_def)
  then show ?thesis
    using tx acked by (intro exI [of _ t] exI [of _ 0] exI [of _ False] exI [of _ hist]) simp
next
  case False
  then have live: "tx_live L c s0 hist a sent t" and a: "a \<le> length hist" and ok: "hist_ok hist"
    and sent: "sent \<le> length hist"
    using tx by (simp_all add: tx_part_def)
  then have st: "tx_state t = T_kConnected" and inv: "tx_inv L t" and opn: "\<not> tx_end_of_stream t"
    and fr: "drop a hist = tx_frags L t" and fin: "\<forall>k. a + k < sent \<longrightarrow> ob_finished (tx_queue t ! k)"
    and nofin: "\<not> (hist \<noteq> [] \<and> snd (last hist))"
    using False by (auto simp: tx_live_def)
  obtain t' n ready where w: "Transmitter_tryWrite_loop L t buf 0 False = Some (t', n, ready)"
    "n \<le> length buf" "tx_inv L t'" "tx_grows t t' (take n buf)"
    using tryWrite_loop_spec [OF lib inv opn, of buf 0 False] by auto
  note g = tx_growsD [OF w(4)]
  let ?hist = "take a hist @ tx_frags L t'"
  note u = tx_live_used [OF live a]
  have opn': "\<not> tx_end_of_stream t'"
    using g(8) opn by simp
  have same: "?hist ! j = hist ! j" if "j < sent" for j
  proof (cases "j < a")
    case False
    then obtain k where k: "j = a + k"
      using le_Suc_ex not_less by blast
    then have "k < used (tx_out_ring t)" "ob_finished (tx_queue t ! k)"
      using that sent u(1) fin by simp_all
    then show ?thesis
      using g(4) [of k] g(1) u(3) [of k] a by (simp add: k nth_append tx_frags_def)
  qed (use a in \<open>simp add: nth_append\<close>)
  have nf: "\<not> snd (?hist ! j)" if "j < length ?hist" for j
    using that no_final [OF ok nofin] tx_frags_nth(2) [OF lib w(3)] opn' a by (auto simp: nth_append)
  have "length (fst (?hist ! j)) \<le> 248 \<and> fst (?hist ! j) \<noteq> []" if j: "j < length ?hist" for j
  proof (cases "j < a")
    case True
    then show ?thesis
      using ok a nf [OF j] by (simp add: hist_ok_def nth_append)
  next
    case False
    then show ?thesis
      using tx_frags_nth(3, 4) [OF lib w(3), of "j - a"] nf [OF j] j a by (simp add: nth_append)
  qed
  then have ok': "hist_ok ?hist"
    unfolding hist_ok_def using nf by blast
  have "frag_bytes ?hist = frag_bytes (take a hist) @ queue_bytes (tx_queue t) @ take n buf"
    using g(3) by (simp add: frag_bytes_tx_frags)
  also have "\<dots> = frag_bytes (take a hist @ drop a hist) @ take n buf"
    by (simp only: fr frag_bytes_append frag_bytes_tx_frags append_assoc)
  finally have bytes: "frag_bytes ?hist = frag_bytes hist @ take n buf"
    by simp
  have len: "length hist \<le> length ?hist"
    using u(1) g(1) a by simp
  have grows: "hist_grows sent hist ?hist"
    unfolding hist_grows_def using same len nofin by blast
  have "tx_live L c s0 ?hist a sent t'"
  proof -
    have "ob_finished (tx_queue t' ! k)" if "a + k < sent" for k
      using g(4) [of k] fin that sent u(1) by simp
    moreover obtain nx where "tx_next_to_send t = s0 + of_nat nx" "nx \<le> length hist" "sent \<le> nx + 1024"
      using live by (auto simp: tx_live_def)
    moreover have "\<not> (?hist \<noteq> [] \<and> snd (last ?hist))"
      using nf by (rule last_no_final)
    moreover have "tx_has_pending_eof t' \<longrightarrow> 0 < used (tx_out_ring t')"
      using opn' w(3) by (simp add: tx_inv_def tx_credit_def)
    ultimately show ?thesis
      using live a w(3) len opn' unfolding tx_live_def by (auto simp: g(2, 6-10))
  qed
  then have "tx_part L c s0 ?hist a sent t'"
    using ok' len sent a st g(7) by (simp add: tx_part_def)
  moreover have "acked_part rec a t'"
    using acked g(5) unfolding acked_part_def by (auto simp: g(7))
  moreover have "Transmitter_tryWrite L t buf = Some (t', n, ready)"
    using False w(1) st by (simp add: Transmitter_tryWrite_def)
  ultimately show ?thesis
    using w(2) grows bytes by blast
qed

section \<open>Flushing and closing\<close>

lemma same_part:
  assumes tx: "tx_part L c s0 hist a sent t" and acked: "acked_part rec a t"
    and same: "tx_same t t'" "same_acks t t'" and nx: "tx_next_to_send t' = tx_next_to_send t"
  shows "tx_part L c s0 hist a sent t'" "acked_part rec a t'"
proof -
  have st: "tx_state t' = tx_state t" and f: "tx_out_ring t' = tx_out_ring t" "tx_control_bit t' = tx_control_bit t"
    "tx_end_of_stream t' = tx_end_of_stream t" "tx_has_pending_eof t' = tx_has_pending_eof t"
    using same(1) by (simp_all add: tx_same_def)
  show "tx_part L c s0 hist a sent t'"
  proof (cases "tx_state t = T_kIdle")
    case False
    then have live: "tx_live L c s0 hist a sent t" and a: "a \<le> length hist" "sent \<le> length hist"
      using tx by (simp_all add: tx_part_def)
    then have inv: "tx_inv L t"
      by (simp add: tx_live_def)
    then have ok: "tx_ok t"
      by (simp add: tx_inv_def)
    have "ob_finished (tx_queue t' ! k) \<or> tx_end_of_stream t'" if "a + k < sent" for k
      using tx_same_queue [OF same(1) ok, of k] that tx_live_used(1) [OF live a(1)] a(2) live f(3)
      by (auto simp: tx_live_def same_packet_def)
    then have "tx_live L c s0 hist a sent t'"
      using live tx_same_inv(1, 2) [OF same(1) inv] unfolding tx_live_def by (simp add: st f nx)
    then show ?thesis
      using tx False by (simp add: tx_part_def st)
  qed (use tx in \<open>simp add: tx_part_def st\<close>)
  show "acked_part rec a t'"
  proof (cases "tx_state t = T_kConnected")
    case True
    then have "tx_ok t"
      using tx by (simp add: tx_part_def tx_live_def tx_inv_def)
    then have "ob_acked (tx_queue t' ! k) = ob_acked (tx_queue t ! k)" if "k < used (tx_out_ring t)" for k
      using same_acks_queue [OF same(2) _ f(1)] that by simp
    then show ?thesis
      using acked by (simp add: acked_part_def st f(1))
  qed (use acked in \<open>simp add: acked_part_def st\<close>)
qed

lemma flush_part:
  assumes "tx_part L c s0 hist a sent t" "acked_part rec a t"
  shows "tx_part L c s0 hist a sent (fst (Transmitter_flush t))" "acked_part rec a (fst (Transmitter_flush t))"
  using same_part [OF assms flush_same flush_acks flush_next] by simp_all

lemma close_part:
  assumes lib: "roo_lib L" and tx: "tx_part L c s0 hist a sent t" and acked: "acked_part rec a t"
  shows "\<exists>t' hist'. Transmitter_close L t = Some t' \<and> tx_part L c s0 hist' a sent t' \<and> acked_part rec a t'
    \<and> hist_grows sent hist hist' \<and> frag_bytes hist' = frag_bytes hist"
proof (cases "tx_end_of_stream t \<or> tx_state t = T_kIdle")
  case True
  have "tx_state t \<noteq> T_kBroken"
    using tx by (auto simp: tx_part_def tx_live_def split: if_splits)
  then have "Transmitter_close L t = Some t"
    using True by (simp add: Transmitter_close_def Let_def)
  then show ?thesis
    using tx acked by (intro exI [of _ t] exI [of _ hist]) simp
next
  case False
  then have live: "tx_live L c s0 hist a sent t" and len: "a \<le> length hist" "sent \<le> length hist"
    and ok: "hist_ok hist"
    using tx by (simp_all add: tx_part_def)
  then have st: "tx_state t = T_kConnected" and inv: "tx_inv L t" and fr: "drop a hist = tx_frags L t"
    and nofin: "\<not> (hist \<noteq> [] \<and> snd (last hist))"
    using False by (auto simp: tx_live_def)
  obtain t' where c: "Transmitter_close L t = Some t'" "tx_inv L t'" "tx_end_of_stream t'" "tx_state t' = T_kConnected"
    "rb_begin (tx_out_ring t') = rb_begin (tx_out_ring t)"
    "if used (tx_out_ring t) = cap (tx_out_ring t)
       then tx_has_pending_eof t' \<and> tx_frags L t' = tx_frags L t
       else \<not> tx_has_pending_eof t' \<and> tx_frags L t' = tx_frags L t @ [([], True)]"
    "\<forall>k < used (tx_out_ring t'). ob_acked (tx_queue t' ! k) \<longrightarrow>
        k < used (tx_out_ring t) \<and> ob_acked (tx_queue t ! k)"
    "tx_next_to_send t' = tx_next_to_send t" "tx_control_bit t' = tx_control_bit t"
    using roo_lib.close_spec [OF lib inv st] False by blast
  define hist' where "hist' = hist @ (if tx_has_pending_eof t' then [] else [([], True)])"
  have fr': "drop a hist' = tx_frags L t'"
    using c(6) fr len(1) by (auto simp: hist'_def split: if_splits)
  have ok': "hist_ok hist'"
    using hist_ok_snoc [OF ok nofin] ok by (simp add: hist'_def)
  have grows: "hist_grows sent hist hist'"
    using nofin len(2) by (auto simp: hist_grows_def hist'_def nth_append)
  have pend: "0 < used (tx_out_ring t')" if "tx_has_pending_eof t'"
  proof -
    have "used (tx_out_ring t) = cap (tx_out_ring t)" "tx_frags L t' = tx_frags L t"
      using c(6) that by (auto split: if_splits)
    then show ?thesis
      by (metis cap_pos length_tx_frags)
  qed
  have "tx_live L c s0 hist' a sent t'"
  proof -
    obtain nx where "tx_next_to_send t = s0 + of_nat nx" "nx \<le> length hist" "sent \<le> nx + 1024"
      using live by (auto simp: tx_live_def)
    moreover have "length hist \<le> length hist'" "hist' \<noteq> [] \<and> snd (last hist') \<longleftrightarrow> \<not> tx_has_pending_eof t'"
      using nofin by (auto simp: hist'_def)
    ultimately show ?thesis
      using live c(2-4, 9) pend fr' unfolding tx_live_def by (auto simp: c(5, 8))
  qed
  then have "tx_part L c s0 hist' a sent t'"
    using ok' len c(4) by (simp add: tx_part_def hist'_def)
  moreover have "acked_part rec a t'"
    using acked c(7) by (simp add: acked_part_def st)
  moreover have "frag_bytes hist' = frag_bytes hist"
    by (simp add: hist'_def frag_bytes_def)
  ultimately show ?thesis
    using c(1) grows by blast
qed

section \<open>Sending\<close>

lemma send_part:
  assumes lib: "roo_lib L" and tx: "tx_part L c s0 hist a sent t" and acked: "acked_part rec a t"
    and rec: "\<And>j. rec j \<Longrightarrow> j < sent" and send: "Transmitter_send L t now draw n = (t', pkt, n')"
  shows "\<exists>sent' \<ge> sent. tx_part L c s0 hist a sent' t' \<and> acked_part rec a t'
    \<and> (pkt = [] \<or> (\<exists>k < sent'. pkt = enc L c s0 hist k \<and> sent' \<le> k + 1024))"
proof (cases "tx_state t = T_kIdle")
  case True
  then have "t' = t" "pkt = []"
    using send by (auto simp: Transmitter_send_def Transmitter_getBufferToSend_def)
  then show ?thesis
    using tx acked by auto
next
  case False
  then have live: "tx_live L c s0 hist a sent t" and len: "a \<le> length hist" "sent \<le> length hist"
    using tx by (simp_all add: tx_part_def)
  then have inv: "tx_inv L t" and beg: "rb_begin (tx_out_ring t) = s0 + of_nat a" and cb: "tx_control_bit t = c"
    and st: "tx_state t = T_kConnected"
    by (simp_all add: tx_live_def)
  obtain nx where nx: "tx_next_to_send t = s0 + of_nat nx" "nx \<le> length hist" "sent \<le> nx + 1024"
    using live by (auto simp: tx_live_def)
  note u = tx_live_used [OF live len(1)]
  have "a \<le> sent"
    using acked rec by (cases a) (auto simp: acked_part_def Suc_le_eq)
  have far: "tx_next_to_send t \<noteq> rb_begin (tx_out_ring t) + 32768" if e: "used (tx_out_ring t) = 0"
  proof
    assume "tx_next_to_send t = rb_begin (tx_out_ring t) + 32768"
    moreover obtain i where i: "a = nx + i" "i \<le> 1024"
      using e u(1) nx(2, 3) \<open>a \<le> sent\<close> le_Suc_ex [of nx a] by auto
    ultimately have "(of_nat (i + 32768) :: u16) = 0"
      by (simp add: nx(1) beg add.assoc)
    then have "unat (of_nat (i + 32768) :: u16) = 0"
      by (simp only: unat_0)
    then show False
      using unat_of_nat_u16 [of "i + 32768"] i(2) by linarith
  qed
  note sp = send_spec [OF inv far send]
  show ?thesis
  proof (cases "pkt = []")
    case True
    then show ?thesis
      using same_part [OF tx acked sp(1, 2)] sp(4) by auto
  next
    case False
    then obtain k where k: "k < used (tx_out_ring t)" "ob_finished (tx_queue t' ! k)"
      "tx_next_to_send t' = rb_begin (tx_out_ring t) + of_nat (Suc k)"
      "pkt = StoreBeU16 L (FormatPacketHeader (rb_begin (tx_out_ring t) + of_nat k) (tx_type t k)
          (tx_control_bit t)) @ fst (tx_frags L t ! k)"
      using sp(5) by blast
    let ?sent = "max sent (Suc (a + k))"
    have pkt: "pkt = enc L c s0 hist (a + k)"
      using tx_frags_nth(2) [OF lib inv k(1)] u(3) [OF k(1)]
      by (auto simp: k(4) enc_def beg cb tx_type_def add.assoc)
    have f: "tx_out_ring t' = tx_out_ring t" "tx_end_of_stream t' = tx_end_of_stream t"
      "tx_has_pending_eof t' = tx_has_pending_eof t" "tx_state t' = tx_state t" "tx_control_bit t' = tx_control_bit t"
      using sp(1) by (simp_all add: tx_same_def)
    have fin: "ob_finished (tx_queue t' ! i) \<or> tx_end_of_stream t'" if i: "a + i < ?sent" for i
    proof (cases "Suc i = used (tx_out_ring t) \<and> i \<noteq> k")
      case True
      then have "a + i < sent" "i < used (tx_out_ring t)"
        using i k(1) by auto
      then show ?thesis
        using live tx_same_queue [OF sp(1), of i] inv f(2)
        by (auto simp: tx_live_def tx_inv_def same_packet_def)
    next
      case False
      have "i < used (tx_out_ring t')"
        using i k(1) len(2) u(1) f(1) by auto
      then show ?thesis
        using sp(3) k(2) False by (auto simp: tx_inv_def tx_current_def f(1))
    qed
    have le: "?sent \<le> length hist" "?sent \<le> a + k + 1024"
      using len u k(1) by auto
    have "tx_live L c s0 hist a ?sent t'"
    proof -
      have "\<exists>nx. tx_next_to_send t' = s0 + of_nat nx \<and> nx \<le> length hist \<and> ?sent \<le> nx + 1024"
        using k(1, 3) u len le by (intro exI [of _ "Suc (a + k)"]) (simp add: beg add_ac)
      then show ?thesis
        using live sp(3) fin tx_same_inv(2) [OF sp(1) inv] unfolding tx_live_def f by simp
    qed
    then have "tx_part L c s0 hist a ?sent t'"
      using tx le st by (simp add: tx_part_def f)
    moreover have "acked_part rec a t'"
      using acked same_acks_queue [OF sp(2) _ f(1)] inv by (simp add: acked_part_def f tx_inv_def)
    moreover have "\<exists>i < ?sent. pkt = enc L c s0 hist i \<and> ?sent \<le> i + 1024"
      using pkt le(2) by (intro exI [of _ "a + k"]) simp
    ultimately show ?thesis
      by (intro exI [of _ ?sent]) simp
  qed
qed

section \<open>Control packets\<close>

lemma flow_part:
  assumes lib: "roo_lib L" and tx: "tx_part L c s0 hist a sent t" and acked: "acked_part rec a t"
    and p: "flow_ok L c p"
  shows "\<exists>t'. Channel_controlReceived L t p = Some (t', False)
    \<and> tx_part L c s0 hist a sent t' \<and> acked_part rec a t'"
proof -
  obtain h where h: "p = StoreBeU16 L (FormatPacketHeader h kFlowControlPacket (\<not> c))"
    using p by (auto simp: flow_ok_def)
  let ?h = "FormatPacketHeader h kFlowControlPacket (\<not> c)"
  obtain t' ch where up: "Transmitter_updateRecvHimark t (GetPacketControlBit ?h) (?h AND 0x0FFF) = (t', ch)"
    by fastforce
  have "length p = 2" "LoadBeU16 L p = ?h"
    using roo_lib.length_StoreBeU16 [OF lib] roo_lib.load_store_16_nil [OF lib] by (simp_all add: h)
  then have r: "Channel_controlReceived L t p = Some (t', False)"
    using up by (simp add: Channel_controlReceived_def header_type Let_def)
  have "tx_part L c s0 hist a sent t' \<and> acked_part rec a t'"
  proof (cases "tx_state t = T_kIdle")
    case True
    then have "t' = t"
      using up by (simp add: Transmitter_updateRecvHimark_def)
    then show ?thesis
      using tx acked by simp
  next
    case False
    then have live: "tx_live L c s0 hist a sent t"
      using tx by (simp add: tx_part_def)
    then have inv: "tx_inv L t"
      by (simp add: tx_live_def)
    note hm = himark_spec [OF inv up]
    have f: "tx_state t' = tx_state t" "tx_out_ring t' = tx_out_ring t" "tx_out_buffers t' = tx_out_buffers t"
      "tx_control_bit t' = tx_control_bit t" "tx_end_of_stream t' = tx_end_of_stream t"
      "tx_has_pending_eof t' = tx_has_pending_eof t" "tx_next_to_send t' = tx_next_to_send t"
      by (subst hm(2), simp)+
    have q: "tx_queue t' = tx_queue t" "tx_frags L t' = tx_frags L t"
      by (simp_all add: tx_frags_def tx_queue_def f)
    have "tx_live L c s0 hist a sent t'"
      using live hm(1) unfolding tx_live_def by (simp add: f q)
    then show ?thesis
      using tx acked False by (simp add: tx_part_def acked_part_def f q)
  qed
  with r show ?thesis
    by blast
qed

lemma ack_seq:
  assumes "tx_live L c s0 hist a sent t" "m \<le> a + 1024" "a \<le> m"
  shows "tx_ahead t ((s0 + of_nat m) AND 0x0FFF) = m - a"
proof -
  have b: "rb_begin (tx_out_ring t) = s0 + of_nat a"
    using assms(1) by (simp add: tx_live_def)
  obtain i where i: "m = a + i" "i \<le> 1024"
    using assms(2, 3) le_Suc_ex by force
  have "unat (s0 + of_nat m - (rb_begin (tx_out_ring t) - 2048)) = unat (of_nat (i + 2048) :: u16)"
    by (simp add: b i(1))
  also have "\<dots> < 4096"
    using i(2) by (subst unat_of_nat_u16) simp_all
  finally have "RingBuffer_restorePosHighBits (tx_out_ring t) ((s0 + of_nat m) AND 0x0FFF) 12 = s0 + of_nat m"
    by (rule restorePosHighBits_12)
  then show ?thesis
    using i dist_of_nat [of i "s0 + of_nat a"] by (simp add: tx_ahead_def b add.assoc)
qed

lemma ack_live:
  assumes live: "tx_live L c s0 hist a sent t" and len: "a \<le> length hist" "sent \<le> length hist"
    and d: "m = a + d" "d \<le> used (tx_out_ring t)" and ms: "m \<le> sent" and to: "acked_to L t d bm t'"
    and hist': "hist' = hist @ (if tx_has_pending_eof t \<and> 0 < d then [([], True)] else [])"
  shows "tx_live L c s0 hist' m sent t'"
proof -
  note u = tx_live_used [OF live len(1)]
  have inv': "tx_inv L t'" and beg': "rb_begin (tx_out_ring t') = s0 + of_nat m"
    and frags': "tx_frags L t' = after_release d (tx_has_pending_eof t) (tx_frags L t)"
    and pend': "tx_has_pending_eof t' = (tx_has_pending_eof t \<and> d = 0)"
    and f: "tx_state t' = tx_state t" "tx_end_of_stream t' = tx_end_of_stream t" "tx_control_bit t' = tx_control_bit t"
    using to live by (simp_all add: acked_to_def tx_live_def d(1) add.assoc)
  have fr': "drop m hist' = tx_frags L t'"
  proof -
    have "drop m hist = drop d (tx_frags L t)"
      using live by (simp add: tx_live_def d(1) add.commute [of a] flip: drop_drop)
    then show ?thesis
      using d u(1) by (simp add: hist' frags' after_release_def)
  qed
  have used': "used (tx_out_ring t') \<le> 1024" "length hist' = m + used (tx_out_ring t')"
    using inv' used_le [of "tx_out_ring t'"] arg_cong [OF fr', of length] ms len(2) hist'
    by (simp_all add: tx_inv_def tx_ok_def)
  have fin: "ob_finished (tx_queue t' ! k) \<or> tx_end_of_stream t'" if "m + k < sent" for k
  proof -
    have "d + k < used (tx_out_ring t)" "ob_finished (tx_queue t ! (d + k)) \<or> tx_end_of_stream t"
      using live that u(1) len(2) by (auto simp: tx_live_def d(1) add.assoc)
    then show ?thesis
      using to f(2) by (auto simp: acked_to_def)
  qed
  have "\<exists>nx. tx_next_to_send t' = s0 + of_nat nx \<and> nx \<le> length hist' \<and> sent \<le> nx + 1024"
  proof -
    obtain nx where nx: "tx_next_to_send t = s0 + of_nat nx" "nx \<le> length hist" "sent \<le> nx + 1024"
      using live by (auto simp: tx_live_def)
    have "tx_next_to_send t' = tx_next_to_send t
        \<or> (\<exists>j < used (tx_out_ring t'). tx_next_to_send t' = rb_begin (tx_out_ring t') + of_nat j)"
      using to unfolding acked_to_def by blast
    then consider "tx_next_to_send t' = tx_next_to_send t"
      | j where "j < used (tx_out_ring t')" "tx_next_to_send t' = rb_begin (tx_out_ring t') + of_nat j"
      by blast
    then show ?thesis
    proof cases
      case 1
      then show ?thesis
        using nx by (intro exI [of _ nx]) (simp add: hist')
    next
      case 2
      then show ?thesis
        using used' len(2) hist' by (intro exI [of _ "m + j"]) (simp add: beg' add.assoc)
    qed
  qed
  moreover have "hist' \<noteq> [] \<and> snd (last hist') \<longleftrightarrow> tx_end_of_stream t' \<and> \<not> tx_has_pending_eof t'"
    using live unfolding hist' pend' f(2) by (auto simp: tx_live_def tx_inv_def tx_credit_def)
  moreover have "0 < used (tx_out_ring t')" if "tx_has_pending_eof t'"
    using that live d(1) used'(2) u(1) by (simp add: pend' tx_live_def hist')
  ultimately show ?thesis
    using live inv' beg' fr' fin unfolding tx_live_def by (simp add: f)
qed

lemma ack_acked:
  assumes acked: "acked_part rec a t" and st: "tx_state t = T_kConnected" and to: "acked_to L t d bm t'"
    and m: "m = a + d" and below: "\<forall>j < m. rec j"
    and bm: "\<forall>i < 8 * length bm. bitmap_bits bm ! i \<longrightarrow> rec (m + 1 + i)"
  shows "acked_part rec m t'"
proof -
  have "rec (m + k)" if k: "k < used (tx_out_ring t')" "ob_acked (tx_queue t' ! k)" for k
  proof -
    have "d + k < used (tx_out_ring t) \<and> ob_acked (tx_queue t ! (d + k))
        \<or> 0 < k \<and> k - 1 < 8 * length bm \<and> bitmap_bits bm ! (k - 1)"
      using to k by (simp add: acked_to_def)
    then show ?thesis
    proof
      assume "d + k < used (tx_out_ring t) \<and> ob_acked (tx_queue t ! (d + k))"
      then show ?thesis
        using acked st by (simp add: acked_part_def m add.assoc)
    next
      assume b: "0 < k \<and> k - 1 < 8 * length bm \<and> bitmap_bits bm ! (k - 1)"
      then have "rec (m + 1 + (k - 1))"
        using bm by blast
      then show ?thesis
        using b by simp
    qed
  qed
  then show ?thesis
    using below by (simp add: acked_part_def)
qed

lemma ack_part:
  assumes lib: "roo_lib L" and tx: "tx_part L c s0 hist a sent t" and acked: "acked_part rec a t"
    and rec: "\<And>j. rec j \<Longrightarrow> j < sent" and m: "a \<le> m" "ack_ok L c s0 rec m p"
  shows "\<exists>t' rushed hist' a'. Channel_controlReceived L t p = Some (t', rushed)
    \<and> tx_part L c s0 hist' a' sent t' \<and> acked_part rec a' t' \<and> a' \<le> m
    \<and> hist_grows sent hist hist' \<and> frag_bytes hist' = frag_bytes hist"
proof -
  obtain bm where bm: "length bm \<le> 8"
    "p = StoreBeU16 L (FormatPacketHeader (s0 + of_nat m) kDataAckPacket (\<not> c)) @ bm"
    "\<forall>i < 8 * length bm. bitmap_bits bm ! i \<longrightarrow> rec (m + 1 + i)" and below: "\<forall>j < m. rec j"
    using m(2) by (auto simp: ack_ok_def)
  let ?h = "FormatPacketHeader (s0 + of_nat m) kDataAckPacket (\<not> c)" and ?s = "(s0 + of_nat m) AND 0x0FFF"
  have "length (StoreBeU16 L ?h) = 2"
    using lib by (rule roo_lib.length_StoreBeU16)
  then have rcv: "Channel_controlReceived L t p = Transmitter_ack L t (\<not> c) ?s bm"
    using roo_lib.load_store_16 [OF lib, of ?h bm]
    by (simp add: Channel_controlReceived_def bm(2) header_type header_control_bit header_seq Let_def)
  show ?thesis
  proof (cases "tx_state t = T_kIdle")
    case True
    then have "Transmitter_ack L t (\<not> c) ?s bm = Some (t, False)"
      by (simp add: Transmitter_ack_def)
    then show ?thesis
      using tx acked m(1) rcv by (intro exI [of _ t] exI [of _ False] exI [of _ hist] exI [of _ a]) simp
  next
    case False
    then have live: "tx_live L c s0 hist a sent t" and len: "a \<le> length hist" "sent \<le> length hist"
      and ok: "hist_ok hist"
      using tx by (simp_all add: tx_part_def)
    then have inv: "tx_inv L t" and st: "tx_state t = T_kConnected" and cb: "tx_control_bit t = c"
      and fr: "drop a hist = tx_frags L t" and beg: "rb_begin (tx_out_ring t) = s0 + of_nat a"
      and final: "hist \<noteq> [] \<and> snd (last hist) \<longleftrightarrow> tx_end_of_stream t \<and> \<not> tx_has_pending_eof t"
      by (simp_all add: tx_live_def)
    note u = tx_live_used [OF live len(1)]
    have ms: "m \<le> sent"
      using below rec by (cases m) (auto simp: Suc_le_eq)
    define d where "d = m - a"
    have d: "m = a + d" "d \<le> used (tx_out_ring t)"
      using m(1) ms len(2) u(1) by (simp_all add: d_def)
    have ahead: "d = tx_ahead t ?s"
      using ack_seq [OF live _ m(1)] d u(2) by simp
    have fin: "tx_end_of_stream t \<or> ob_finished (tx_queue t ! k)" if "k < d" for k
      using live that d(1) ms by (auto simp: tx_live_def)
    obtain t' rushed where t': "Transmitter_ack L t (\<not> c) ?s bm = Some (t', rushed)"
      "if tx_end_of_stream t \<and> after_release d (tx_has_pending_eof t) (tx_frags L t) = []
       then tx_ok t' \<and> tx_state t' = T_kIdle \<and> used (tx_out_ring t') = 0 \<and> \<not> tx_end_of_stream t'
       else acked_to L t d bm t'"
      using ack_spec [OF lib inv st _ ahead d(2) fin, of "\<not> c" bm] bm(1) cb by auto
    show ?thesis
    proof (cases "tx_end_of_stream t \<and> after_release d (tx_has_pending_eof t) (tx_frags L t) = []")
      case True
      then have idle: "tx_state t' = T_kIdle"
        using t'(2) by simp
      have all: "d = used (tx_out_ring t)"
        using True d(2) by (simp add: after_release_def)
      have "tx_has_pending_eof t \<longrightarrow> 0 < used (tx_out_ring t)"
        using live by (simp add: tx_live_def)
      then have "\<not> tx_has_pending_eof t"
        using True all by (auto simp: after_release_def split: if_splits)
      then have "tx_part L c s0 hist m sent t'"
        using tx idle final True all u(1) d(1) by (simp add: tx_part_def)
      moreover have "acked_part rec m t'"
        using below idle by (simp add: acked_part_def)
      ultimately show ?thesis
        using rcv t'(1) by (intro exI [of _ t'] exI [of _ rushed] exI [of _ hist] exI [of _ m]) simp
    next
      case False
      then have to: "acked_to L t d bm t'"
        using t'(2) by auto
      then have st': "tx_state t' = T_kConnected"
        by (simp add: acked_to_def st)
      define hist' where "hist' = hist @ (if tx_has_pending_eof t \<and> 0 < d then [([], True)] else [])"
      have nofin: "\<not> (hist \<noteq> [] \<and> snd (last hist))" if "tx_has_pending_eof t"
        using that final by blast
      have ok': "hist_ok hist'"
        using ok hist_ok_snoc [OF ok nofin] by (simp add: hist'_def)
      have grows: "hist_grows sent hist hist'"
        using nofin len(2) by (auto simp: hist_grows_def hist'_def nth_append)
      have bytes: "frag_bytes hist' = frag_bytes hist"
        by (simp add: hist'_def frag_bytes_def)
      have live': "tx_live L c s0 hist' m sent t'"
        by (rule ack_live [OF live len d ms to hist'_def])
      have "acked_part rec m t'"
        by (rule ack_acked [OF acked st to d(1) below bm(3)])
      moreover have "tx_part L c s0 hist' m sent t'"
        using ok' live' len ms st' by (simp add: tx_part_def hist'_def)
      ultimately show ?thesis
        using rcv t'(1) grows bytes
        by (intro exI [of _ t'] exI [of _ rushed] exI [of _ hist'] exI [of _ m]) simp
    qed
  qed
qed

end
