(* ===== verification/Link_Receive.thy ===== *)
theory Link_Receive
  imports Link_Delivery
begin

text \<open>
  The receiver's side of the end-to-end invariant: incoming data packets, reading, and the
  production of acknowledgements and flow-control packets.
\<close>

section \<open>Fragments at the front of the window\<close>

declare not_None_eq [iff del]

lemma front_eq: "front xs = bytes_of (take (filled xs) xs)"
  unfolding front_def filled_def by (subst takeWhile_eq_take) (rule refl)

lemma front_split:
  assumes "k \<le> filled xs"
  shows "front xs = bytes_of (take k xs) @ front (drop k xs)"
  using assms
proof (induction xs arbitrary: k)
  case (Cons x xs)
  then show ?case
    by (cases k; cases x) (auto simp: bytes_of_def)
qed simp

lemma front_accept:
  assumes "n \<le> length (front xs)"
  shows "take n (front (accept d p xs)) = take n (front xs)"
proof -
  have same: "i < filled xs \<Longrightarrow> i < length (accept d p xs) \<and> accept d p xs ! i = xs ! i" for i
    using filled_nth [of i xs] filled_le [of xs] by (simp add: length_accept nth_accept)
  then have 1: "take (filled xs) (accept d p xs) = take (filled xs) xs"
    using filled_le [of xs] by (intro take_cong_nth) (auto simp: length_accept)
  have 2: "filled xs \<le> filled (accept d p xs)"
  proof (rule ccontr)
    let ?f = "filled (accept d p xs)"
    assume "\<not> filled xs \<le> ?f"
    then have "accept d p xs ! ?f \<noteq> None" "?f < length (accept d p xs)"
      using same [of ?f] filled_nth [of ?f xs] by auto
    then show False
      using filled_at by blast
  qed
  have "front (accept d p xs) = front xs @ front (drop (filled xs) (accept d p xs))"
    using front_split [OF 2] by (simp only: 1 front_eq [of xs, symmetric])
  then show ?thesis
    using assms by simp
qed

lemma rcv_pos_le:
  assumes "rcv_inv r"
  shows "rcv_pos r \<le> length (front (rcv_slots r))"
proof (cases "rcv_slots r")
  case Nil
  then have "used (rcv_in_ring r) = 0"
    by (metis length_rcv_slots list.size(3))
  then have "rcv_current_in_buffer r = None"
    using assms by (cases "rcv_current_in_buffer r") (auto simp: rcv_inv_def cur_ok_def)
  then show ?thesis
    by (simp add: rcv_pos_def)
next
  case (Cons x xs)
  show ?thesis
  proof (cases x)
    case None
    let ?i = "slot (rcv_in_ring r) (rb_begin (rcv_in_ring r))"
    have "ib_type (rcv_in_buffers r ! ?i) = kUnset"
      using head_slot(2) [OF Cons] None by simp
    moreover have "ib_ok (rcv_in_buffers r ! ?i)"
      using assms by (simp add: rcv_inv_def rcv_ok_def offset_for_less)
    ultimately have "ib_size (rcv_in_buffers r ! ?i) = 0"
      by (simp add: ib_ok_def)
    then show ?thesis
      using assms by (cases "rcv_current_in_buffer r") (auto simp: rcv_pos_def rcv_inv_def cur_ok_def)
  next
    case (Some p)
    then show ?thesis
      using head_filled(4) [OF assms, of "fst p" "snd p" xs] Cons by (cases p) simp
  qed
qed

lemma slots_bytes:
  assumes "k \<le> filled xs" "b + k \<le> length hist"
    and "\<forall>i < length xs. xs ! i \<noteq> None \<longrightarrow> xs ! i = Some (hist ! (b + i))"
  shows "bytes_of (take k xs) = frag_bytes (take k (drop b hist))"
proof -
  have "take k xs ! i = map Some (take k (drop b hist)) ! i" if "i < k" for i
  proof -
    have "xs ! i = Some (hist ! (b + i))"
      using that assms(1, 3) filled_nth [of i xs] filled_le [of xs] by simp
    then show ?thesis
      using that assms(2) by simp
  qed
  moreover have "length (take k xs) = k" "length (take k (drop b hist)) = k"
    using assms(1, 2) filled_le [of xs] by simp_all
  ultimately have "take k xs = map Some (take k (drop b hist))"
    by (intro nth_equalityI) simp_all
  then show ?thesis
    by (simp add: bytes_of_def frag_bytes_def comp_def case_prod_beta')
qed

section \<open>Incoming data\<close>

lemma rx_part_fields:
  assumes "rcv_in_ring r' = rcv_in_ring r" "rcv_in_buffers r' = rcv_in_buffers r"
    "rcv_current_in_buffer r' = rcv_current_in_buffer r" "rcv_current_in_buffer_pos r' = rcv_current_in_buffer_pos r"
    "rcv_unack_seq r' = rcv_unack_seq r" "rcv_state r' = rcv_state r" "rcv_control_bit r' = rcv_control_bit r"
    "rcv_self_closed r' = rcv_self_closed r" "rcv_end_of_stream r' = rcv_end_of_stream r"
  shows "rx_part c s0 hist b sent r' out = rx_part c s0 hist b sent r out" "has_received b r' = has_received b r"
proof -
  note cong = rcv_ok_cong [OF assms(1, 2)] cur_ok_cong [OF assms(1-4)] rcv_slots_cong [OF assms(1, 2)]
  have "rcv_inv r' = rcv_inv r" "rcv_pos r' = rcv_pos r"
    by (simp_all add: rcv_inv_def unack_ok_def rcv_pos_def cong assms)
  then show "rx_part c s0 hist b sent r' out = rx_part c s0 hist b sent r out" "has_received b r' = has_received b r"
    by (simp_all add: rx_part_def has_received_def fun_eq_iff cong assms)
qed

lemma rx_part_ack:
  "rx_part c s0 hist b sent (r\<lparr>rcv_needs_ack := v\<rparr>) out = rx_part c s0 hist b sent r out"
  "has_received b (r\<lparr>rcv_needs_ack := v\<rparr>) = has_received b r"
  by (rule rx_part_fields; simp)+

lemma rx_slot:
  "rx_part c s0 hist b sent r out \<Longrightarrow> i < used (rcv_in_ring r) \<Longrightarrow> rcv_slots r ! i = Some p \<Longrightarrow> hist ! (b + i) = p"
  by (auto simp: rx_part_def)

lemma data_seq:
  assumes "rx_part c s0 hist b sent r out" "b \<le> k + 1024" "k < b + 2048"
  shows "k < b \<Longrightarrow> 2048 \<le> rcv_ahead r ((s0 + of_nat k) AND 0x0FFF)"
    "b \<le> k \<Longrightarrow> rcv_ahead r ((s0 + of_nat k) AND 0x0FFF) = k - b"
proof -
  have beg: "rb_begin (rcv_in_ring r) = s0 + of_nat b"
    using assms(1) by (simp add: rx_part_def)
  have "unat (s0 + of_nat k - (rb_begin (rcv_in_ring r) - 2048)) = unat (of_nat (k + 2048 - b) :: u16)"
    using assms(2) by (simp add: beg of_nat_diff add_diff_eq)
  also have "\<dots> < 4096"
    using assms(2, 3) by (subst unat_of_nat_u16) auto
  finally have "rcv_seq r ((s0 + of_nat k) AND 0x0FFF) = s0 + of_nat k"
    unfolding rcv_seq_def by (rule restorePosHighBits_12)
  then have ah: "rcv_ahead r ((s0 + of_nat k) AND 0x0FFF) = unat (of_nat k - of_nat b :: u16)"
    by (simp add: rcv_ahead_def beg)
  show "2048 \<le> rcv_ahead r ((s0 + of_nat k) AND 0x0FFF)" if lt: "k < b"
  proof -
    from less_imp_add_positive [OF lt] obtain i where i: "b = k + i" "i \<le> 1024" "0 < i"
      using assms(2) by auto
    then have "unat (of_nat i :: u16) = i"
      by simp
    moreover from this i(3) have "(of_nat i :: u16) \<noteq> 0"
      by (metis less_irrefl unat_0)
    ultimately show ?thesis
      using ah i by (simp add: i(1) unat_minus_u16)
  qed
  show "rcv_ahead r ((s0 + of_nat k) AND 0x0FFF) = k - b" if "b \<le> k"
    using that ah assms(3) unat_of_nat_u16 [of "k - b"] by (simp add: of_nat_diff)
qed

lemma enc_received:
  assumes lib: "roo_lib L" and ok: "hist_ok hist" "k < length hist"
  shows "Channel_dataReceived L r (enc L c s0 hist k) =
    Receiver_handleDataPacket r c ((s0 + of_nat k) AND 0x0FFF) (fst (hist ! k)) (snd (hist ! k))"
proof -
  let ?ty = "if snd (hist ! k) then kFinPacket else kDataPacket"
  let ?h = "FormatPacketHeader (s0 + of_nat k) ?ty c"
  have "wire_type ?ty"
    by simp
  then have h: "GetPacketType ?h = ?ty" "GetPacketControlBit ?h = c" "?h AND 0x0FFF = (s0 + of_nat k) AND 0x0FFF"
    by (rule header_type header_control_bit header_seq)+
  have "length (StoreBeU16 L ?h) = 2"
    using lib by (rule roo_lib.length_StoreBeU16)
  moreover have "LoadBeU16 L (enc L c s0 hist k) = ?h"
    using roo_lib.load_store_16 [OF lib] by (simp add: enc_def)
  moreover have "\<not> snd (hist ! k) \<Longrightarrow> fst (hist ! k) \<noteq> []"
    using ok by (simp add: hist_ok_def)
  ultimately show ?thesis
    unfolding Channel_dataReceived_def Let_def
    by (simp only: h) (auto simp: enc_def)
qed

lemma deliver_part:
  assumes lib: "roo_lib L" and ok: "hist_ok hist" "sent \<le> length hist" and rx: "rx_part c s0 hist b sent r out"
    and k: "k < sent" "b + used (rcv_in_ring r) \<le> k + 1024" "k < b + 2048"
  shows "\<exists>r' x y. Channel_dataReceived L r (enc L c s0 hist k) = Some (r', x, y)
    \<and> rx_part c s0 hist b sent r' out \<and> (\<forall>j. has_received b r j \<longrightarrow> has_received b r' j)
    \<and> used (rcv_in_ring r') \<le> max (used (rcv_in_ring r)) (Suc k - b)"
proof -
  let ?s = "(s0 + of_nat k) AND 0x0FFF"
  have e: "Channel_dataReceived L r (enc L c s0 hist k)
      = Receiver_handleDataPacket r c ?s (fst (hist ! k)) (snd (hist ! k))"
    using enc_received [OF lib ok(1)] k(1) ok(2) by simp
  have inv: "rcv_inv r" and act: "rcv_active r" and cb: "c \<noteq> rcv_control_bit r" and opn: "\<not> rcv_self_closed r"
    using rx by (auto simp: rx_part_def rcv_active_def)
  then have rok: "rcv_ok r"
    by (simp add: rcv_inv_def)
  have bk: "b \<le> k + 1024"
    using k(2) by simp
  note seq = data_seq [OF rx bk k(3)]
  show ?thesis
  proof (cases "b \<le> k")
    case False
    then have "Channel_dataReceived L r (enc L c s0 hist k) = Some (r\<lparr>rcv_needs_ack := True\<rparr>, True, False)"
      using handle_stale [OF rok act cb seq(1)] e by simp
    then show ?thesis
      using rx by (intro exI [of _ "r\<lparr>rcv_needs_ack := True\<rparr>"] exI [of _ True] exI [of _ False])
        (simp add: rx_part_ack)
  next
    case True
    then have d: "k - b = rcv_ahead r ?s" "k - b < 2048"
      using seq(2) k(3) by auto
    show ?thesis
    proof (cases "acceptable r (k - b)")
      case False
      then have "Channel_dataReceived L r (enc L c s0 hist k) = Some (r, False, False)"
        using handle_rejected [OF rok act cb] e d by simp
      then show ?thesis
        using rx by auto
    next
      case acc: True
      have len: "length (fst (hist ! k)) \<le> 248"
        using ok k(1) by (simp add: hist_ok_def)
      obtain r' y where r': "Channel_dataReceived L r (enc L c s0 hist k) = Some (r', True, y)"
        "rcv_inv r'" "rcv_slots r' = accept (k - b) (hist ! k) (rcv_slots r)"
        "rb_begin (rcv_in_ring r') = rb_begin (rcv_in_ring r)" "rcv_pos r' = rcv_pos r"
        "rcv_end_of_stream r' = rcv_end_of_stream r" "rcv_frame r r'"
        using handle_accepted [OF inv act cb opn d acc len, of "snd (hist ! k)"] e by auto
      have u: "used (rcv_in_ring r') = max (Suc (k - b)) (used (rcv_in_ring r))"
        using arg_cong [OF r'(3), of length] by (simp add: length_accept)
      have nth: "rcv_slots r' ! i = (if i < used (rcv_in_ring r) \<and> (i \<noteq> k - b \<or> rcv_slots r ! i \<noteq> None)
          then rcv_slots r ! i else if i = k - b then Some (hist ! k) else None)"
        if "i < used (rcv_in_ring r')" for i
        using nth_accept [of i "k - b" "hist ! k" "rcv_slots r"] that u r'(3) by (simp add: length_accept)
      have "rcv_slots r' ! i = Some (hist ! (b + i))" if "i < used (rcv_in_ring r')" "rcv_slots r' ! i \<noteq> None" for i
      proof (cases "i < used (rcv_in_ring r) \<and> (i \<noteq> k - b \<or> rcv_slots r ! i \<noteq> None)")
        case old: True
        then have "rcv_slots r' ! i = rcv_slots r ! i"
          using nth [OF that(1)] by simp
        then show ?thesis
          using rx_slot [OF rx, of i] old that(2) by (cases "rcv_slots r ! i") simp_all
      next
        case False
        then have "rcv_slots r' ! i = (if i = k - b then Some (hist ! k) else None)"
          using nth [OF that(1)] by (simp only: if_False)
        then show ?thesis
          using True that(2) by (cases "i = k - b") simp_all
      qed
      moreover have "take (rcv_pos r') (front (rcv_slots r')) = take (rcv_pos r) (front (rcv_slots r))"
        unfolding r'(3, 5) using rcv_pos_le [OF inv] by (rule front_accept)
      ultimately have "rx_part c s0 hist b sent r' out"
        using rx r'(2, 4, 6, 7) u k(1) True unfolding rx_part_def rcv_frame_def by auto
      moreover have "has_received b r' j" if "has_received b r j" for j
      proof (cases "j < b")
        case False
        then have j: "j - b < used (rcv_in_ring r)" "rcv_slots r ! (j - b) \<noteq> None"
          using that by (simp_all add: has_received_def)
        then have "j - b < used (rcv_in_ring r')"
          using u by simp
        then show ?thesis
          using nth [of "j - b"] j by (simp add: has_received_def)
      qed (simp add: has_received_def)
      ultimately show ?thesis
        using r'(1) u True by auto
    qed
  qed
qed

section \<open>Reading\<close>

lemma rx_fin_last:
  assumes "rx_part c s0 hist b sent r out" "hist_ok hist" "sent \<le> length hist"
  shows "fin_last (rcv_slots r)"
  unfolding fin_last_def
proof (intro allI impI notI)
  fix i bs assume i: "Suc i < length (rcv_slots r)" "rcv_slots r ! i = Some (bs, True)"
  then have "snd (hist ! (b + i))"
    using rx_slot [OF assms(1), of i] by simp
  moreover have "Suc (b + i) < length hist"
    using i(1) assms by (simp add: rx_part_def)
  ultimately have "Suc (b + i) = length hist"
    using assms(2) by (simp add: hist_ok_def)
  with \<open>Suc (b + i) < length hist\<close> show False
    by simp
qed

lemma read_part:
  assumes rx: "rx_part c s0 hist b sent r out" and ok: "hist_ok hist" "sent \<le> length hist"
  shows "\<exists>r' bs ready b'. Receiver_tryRead L r count = Some (r', bs, ready) \<and> length bs \<le> count
    \<and> rx_part c s0 hist b' sent r' (out @ bs) \<and> (\<forall>j. has_received b r j \<longrightarrow> has_received b' r' j)
    \<and> b' + used (rcv_in_ring r') = b + used (rcv_in_ring r)"
proof -
  have inv: "rcv_inv r" and st: "rcv_state r = R_kConnected" and le: "b + used (rcv_in_ring r) \<le> sent"
    and slots: "\<forall>i < used (rcv_in_ring r). rcv_slots r ! i \<noteq> None \<longrightarrow> rcv_slots r ! i = Some (hist ! (b + i))"
    and out: "out = frag_bytes (take b hist) @ take (rcv_pos r) (front (rcv_slots r))"
    using rx by (simp_all add: rx_part_def)
  obtain r' bs k where r': "Receiver_tryRead L r count = Some (r', bs, 0 < k)" "read_outcome r count r' bs k"
    using tryRead_spec [OF inv rx_fin_last [OF rx ok] st] by blast
  have bs: "bs = take count (drop (rcv_pos r) (front (rcv_slots r)))" and k: "k \<le> filled (rcv_slots r)"
    and slots': "rcv_slots r' = drop k (rcv_slots r)" and beg': "rb_begin (rcv_in_ring r') = rb_begin (rcv_in_ring r) + of_nat k"
    and pos: "rcv_pos r + length bs = length (bytes_of (take k (rcv_slots r))) + rcv_pos r'"
    and eos: "rcv_end_of_stream r' = (rcv_end_of_stream r \<or> (\<exists>bs. Some (bs, True) \<in> set (take k (rcv_slots r))))"
    and inv': "rcv_inv r'" and fr: "read_frame r r'"
    using r'(2) by (auto simp: read_outcome_def)
  have ku: "k \<le> used (rcv_in_ring r)"
    using k filled_le [of "rcv_slots r"] by simp
  have u': "used (rcv_in_ring r') = used (rcv_in_ring r) - k"
    using arg_cong [OF slots', of length] by simp
  have bytes: "bytes_of (take k (rcv_slots r)) = frag_bytes (take k (drop b hist))"
    using k slots le ok(2) ku by (intro slots_bytes) auto
  have "take (rcv_pos r) (front (rcv_slots r)) @ bs = take (rcv_pos r + length bs) (front (rcv_slots r))"
    unfolding bs by (simp add: take_add [of "rcv_pos r"]) (simp add: take_drop min_def)
  also have "\<dots> = frag_bytes (take k (drop b hist)) @ take (rcv_pos r') (front (rcv_slots r'))"
    unfolding pos front_split [OF k] slots' bytes by simp
  finally have out': "out @ bs = frag_bytes (take (b + k) hist) @ take (rcv_pos r') (front (rcv_slots r'))"
    by (simp add: out take_add)
  have "rcv_slots r' ! i = Some (hist ! (b + k + i))" if "i < used (rcv_in_ring r')" "rcv_slots r' ! i \<noteq> None" for i
    using that slots u' ku by (simp add: slots' add.assoc)
  moreover have "b + k = length hist \<and> hist \<noteq> [] \<and> snd (last hist)" if fin: "rcv_end_of_stream r'"
  proof (cases "rcv_end_of_stream r")
    case True
    then show ?thesis
      using rx le ok(2) ku by (auto simp: rx_part_def)
  next
    case False
    then obtain x i where i: "i < k" "rcv_slots r ! i = Some (x, True)"
      using fin ku unfolding eos by (auto simp: in_set_conv_nth)
    then have "snd (hist ! (b + i))" "b + i < length hist"
      using rx_slot [OF rx, of i] ku le ok(2) by auto
    then have "Suc (b + i) = length hist"
      using ok(1) by (simp add: hist_ok_def)
    moreover from this have "hist \<noteq> []" "last hist = hist ! (b + i)"
      using last_conv_nth [of hist] by (metis list.size(3) nat.distinct(1), metis diff_Suc_1 list.size(3) nat.distinct(1))
    ultimately show ?thesis
      using i(1) ku le ok(2) \<open>snd (hist ! (b + i))\<close> by simp
  qed
  ultimately have "rx_part c s0 hist (b + k) sent r' (out @ bs)"
    using rx inv' beg' u' ku le out' fr unfolding rx_part_def read_frame_def rcv_frame_def by (simp add: add.assoc)
  moreover have "has_received (b + k) r' j" if "has_received b r j" for j
    using that u' by (auto simp: has_received_def slots' add.commute [of b k])
  moreover have "length bs \<le> count"
    by (simp add: bs)
  ultimately show ?thesis
    using r'(1) u' ku by (intro exI [of _ r'] exI [of _ bs] exI [of _ "0 < k"] exI [of _ "b + k"]) simp
qed

section \<open>Control packets\<close>

lemma received_below: "rx_part c s0 hist b sent r out \<Longrightarrow> has_received b r j \<Longrightarrow> j < sent"
  by (auto simp: rx_part_def has_received_def)

lemma rx_ack_part:
  assumes lib: "roo_lib L" and rx: "rx_part c s0 hist b sent r out" and ack: "Receiver_ack L r = (r', pkt)"
    and ctl: "ctl_part L c s0 (has_received b r) a ps" and a: "\<forall>j < a. has_received b r j"
  shows "rx_part c s0 hist b sent r' out" "has_received b r' = has_received b r" "rcv_in_ring r' = rcv_in_ring r"
    "ctl_part L c s0 (has_received b r) a (ps @ (if pkt = [] then [] else [pkt]))"
proof -
  have "r' = r \<or> r' = r\<lparr>rcv_needs_ack := False\<rparr>"
    using ack by (auto simp: Receiver_ack_def Let_def split: if_splits)
  then show "rx_part c s0 hist b sent r' out" "has_received b r' = has_received b r" "rcv_in_ring r' = rcv_in_ring r"
    using rx by (auto simp: rx_part_ack)
  show "ctl_part L c s0 (has_received b r) a (ps @ (if pkt = [] then [] else [pkt]))"
  proof (cases "pkt = []")
    case False
    have inv: "rcv_inv r" and cb: "rcv_control_bit r = (\<not> c)" and beg: "rb_begin (rcv_in_ring r) = s0 + of_nat b"
      using rx by (simp_all add: rx_part_def)
    let ?m = "b + filled (rcv_slots r)"
    have un: "rcv_unack_seq r = s0 + of_nat ?m"
      using inv by (simp add: rcv_inv_def unack_ok_def beg add.assoc)
    obtain bm where bm: "pkt = StoreBeU16 L (FormatPacketHeader (s0 + of_nat ?m) kDataAckPacket (\<not> c)) @ bm"
      "length bm \<le> 8" "\<And>i. i < 8 * length bm \<Longrightarrow> bitmap_bits bm ! i \<longleftrightarrow>
        filled (rcv_slots r) + 1 + i < used (rcv_in_ring r) \<and> rcv_slots r ! (filled (rcv_slots r) + 1 + i) \<noteq> None"
      using ack_packet [OF lib inv ack False] unfolding un cb by blast
    have below: "has_received b r j" if "j < ?m" for j
      using that filled_nth [of "j - b" "rcv_slots r"] filled_le [of "rcv_slots r"]
      by (cases "j < b") (simp_all add: has_received_def)
    have "has_received b r (?m + 1 + i)" if "i < 8 * length bm" "bitmap_bits bm ! i" for i
    proof -
      have "?m + 1 + i - b = filled (rcv_slots r) + 1 + i"
        by simp
      then show ?thesis
        using bm(3) [OF that(1)] that(2) unfolding has_received_def by metis
    qed
    then have "ack_ok L c s0 (has_received b r) ?m pkt"
      unfolding ack_ok_def using bm(1, 2) below by blast
    moreover have not: "\<not> has_received b r ?m"
      using filled_at [of "rcv_slots r"] by (auto simp: has_received_def)
    moreover have "a \<le> ?m"
      using a not by (metis not_le)
    ultimately show ?thesis
      using ctl_part_ack [OF ctl] False by simp
  qed (use ctl in simp)
qed

lemma rx_himark_part:
  assumes rx: "rx_part c s0 hist b sent r out" and up: "Receiver_updateRecvHimark L r now n = (r', pkt, n')"
  shows "rx_part c s0 hist b sent r' out" "has_received b r' = has_received b r" "rcv_in_ring r' = rcv_in_ring r"
    "pkt \<noteq> [] \<Longrightarrow> flow_ok L c pkt"
proof -
  have cb: "rcv_control_bit r = (\<not> c)"
    using rx by (simp add: rx_part_def)
  have "r' = r\<lparr>rcv_recv_himark := rcv_recv_himark r',
      rcv_recv_himark_update_expiration := rcv_recv_himark_update_expiration r'\<rparr>"
    using up by (auto simp: Receiver_updateRecvHimark_def Let_def split: if_splits)
  then obtain h e where r': "r' = r\<lparr>rcv_recv_himark := h, rcv_recv_himark_update_expiration := e\<rparr>"
    by blast
  show "rx_part c s0 hist b sent r' out" "has_received b r' = has_received b r" "rcv_in_ring r' = rcv_in_ring r"
    using rx rx_part_fields [of r' r] by (simp_all add: r')
  show "flow_ok L c pkt" if "pkt \<noteq> []"
    using up that cb by (auto simp: Receiver_updateRecvHimark_def Let_def flow_ok_def split: if_splits)
qed

end
