(* ===== verification/Link_Proof.thy ===== *)
theory Link_Proof
  imports Link_Transmit Link_Receive
begin

text \<open>
  The end-to-end invariant of the link: it holds initially and every step keeps it, and no
  step aborts. From it follow the delivery guarantees: what has been read is always a prefix of
  what has been written, the end of the stream is reported only after everything was read, and
  what the transmitter considers delivered is in the receiver's hands.
\<close>

section \<open>Consequences of the invariant\<close>

lemma acked_le_received:
  assumes "acked_part (has_received b r) a t"
  shows "a \<le> b + used (rcv_in_ring r)"
proof (cases a)
  case (Suc i)
  then have "has_received b r i"
    using assms by (simp add: acked_part_def)
  then show ?thesis
    using Suc by (auto simp: has_received_def)
qed simp

lemma sent_bound:
  assumes "link_inv_at L c s0 hist a b sent s"
  shows "sent \<le> b + 2048"
proof -
  have tx: "tx_part L c s0 hist a sent (lk_tx s)" and rx: "rx_part c s0 hist b sent (lk_rx s) (lk_read s)"
    and "acked_part (has_received b (lk_rx s)) a (lk_tx s)"
    using assms by (simp_all add: link_inv_at_def)
  then have a: "a \<le> b + used (rcv_in_ring (lk_rx s))"
    by (intro acked_le_received)
  have "used (rcv_in_ring (lk_rx s)) \<le> 1024"
    using rx by (auto simp: rx_part_def rcv_inv_def rcv_ok_def intro: used_le)
  moreover have "sent \<le> a + 1024"
  proof (cases "tx_state (lk_tx s) = T_kIdle")
    case False
    then have live: "tx_live L c s0 hist a sent (lk_tx s)" "a \<le> length hist" "sent \<le> length hist"
      using tx by (simp_all add: tx_part_def)
    then show ?thesis
      using tx_live_used(1, 2) [OF live(1, 2)] by simp
  qed (use tx in \<open>simp add: tx_part_def\<close>)
  ultimately show ?thesis
    using a by simp
qed

lemma received_split:
  assumes "rx_part c s0 hist b sent r out" "sent \<le> length hist"
  shows "front (rcv_slots r) = frag_bytes (take (filled (rcv_slots r)) (drop b hist))"
    "b + filled (rcv_slots r) \<le> length hist"
proof -
  have le: "b + filled (rcv_slots r) \<le> length hist"
    using assms filled_le [of "rcv_slots r"] by (simp add: rx_part_def)
  then show "b + filled (rcv_slots r) \<le> length hist" .
  show "front (rcv_slots r) = frag_bytes (take (filled (rcv_slots r)) (drop b hist))"
    unfolding front_eq using le assms(1) by (intro slots_bytes) (simp_all add: rx_part_def)
qed

lemma link_inv_prefix:
  assumes "link_inv L s"
  shows "prefix (lk_read s @ drop (rcv_pos (lk_rx s)) (front (rcv_slots (lk_rx s)))) (lk_written s)"
proof -
  obtain c s0 hist a b sent where inv: "link_inv_at L c s0 hist a b sent s"
    using assms by (auto simp: link_inv_def)
  then have rx: "rx_part c s0 hist b sent (lk_rx s) (lk_read s)" and le: "sent \<le> length hist"
    and w: "lk_written s = frag_bytes hist"
    by (simp_all add: link_inv_at_def tx_part_def)
  let ?n = "filled (rcv_slots (lk_rx s))"
  have "lk_read s @ drop (rcv_pos (lk_rx s)) (front (rcv_slots (lk_rx s))) = frag_bytes (take (b + ?n) hist)"
    using rx received_split(1) [OF rx le] by (simp add: rx_part_def take_add)
  then show ?thesis
    unfolding w using frag_bytes_append [of "take (b + ?n) hist" "drop (b + ?n) hist"] by (metis append_take_drop_id prefixI)
qed

lemma link_inv_eos:
  assumes "link_inv L s" "rcv_end_of_stream (lk_rx s)"
  shows "lk_read s = lk_written s"
proof -
  obtain c s0 hist a b sent where inv: "link_inv_at L c s0 hist a b sent s"
    using assms by (auto simp: link_inv_def)
  then have rx: "rx_part c s0 hist b sent (lk_rx s) (lk_read s)" and le: "sent \<le> length hist"
    and w: "lk_written s = frag_bytes hist"
    by (simp_all add: link_inv_at_def tx_part_def)
  have b: "b = length hist"
    using rx assms(2) by (simp add: rx_part_def)
  then have "front (rcv_slots (lk_rx s)) = []"
    using received_split(1) [OF rx le] by simp
  then show ?thesis
    using rx b w by (simp add: rx_part_def)
qed

lemma link_inv_delivered:
  assumes "link_inv L s" "tx_state (lk_tx s) = T_kIdle"
  shows "lk_read s @ drop (rcv_pos (lk_rx s)) (front (rcv_slots (lk_rx s))) = lk_written s"
proof -
  obtain c s0 hist a b sent where inv: "link_inv_at L c s0 hist a b sent s"
    using assms by (auto simp: link_inv_def)
  then have rx: "rx_part c s0 hist b sent (lk_rx s) (lk_read s)" and le: "sent \<le> length hist"
    and w: "lk_written s = frag_bytes hist" and ack: "acked_part (has_received b (lk_rx s)) a (lk_tx s)"
    and tx: "tx_part L c s0 hist a sent (lk_tx s)"
    by (simp_all add: link_inv_at_def tx_part_def)
  have a: "a = length hist"
    using tx assms(2) by (simp add: tx_part_def)
  let ?n = "filled (rcv_slots (lk_rx s))"
  have n: "b + ?n = length hist"
  proof (rule ccontr)
    assume "b + ?n \<noteq> length hist"
    then have "has_received b (lk_rx s) (b + ?n)"
      using received_split(2) [OF rx le] ack a by (simp add: acked_part_def)
    then show False
      using filled_at [of "rcv_slots (lk_rx s)"] by (simp add: has_received_def)
  qed
  have "lk_read s @ drop (rcv_pos (lk_rx s)) (front (rcv_slots (lk_rx s))) = frag_bytes (take (b + ?n) hist)"
    using rx received_split(1) [OF rx le] by (simp add: rx_part_def take_add)
  then show ?thesis
    using w n by simp
qed

section \<open>Steps\<close>

text \<open>
  A step of one end leaves the other end's part alone. The two rules below rebuild the
  invariant from the part that changed.
\<close>

lemma link_inv_tx:
  assumes inv: "link_inv_at L c s0 hist a b sent s"
    and tx: "tx_part L c s0 hist' a' sent t'" "acked_part (has_received b (lk_rx s)) a' t'"
    and ctl: "ctl_part L c s0 (has_received b (lk_rx s)) a' ctl'"
    and grows: "hist_grows sent hist hist'" and w: "w' = frag_bytes hist'"
  shows "link_inv L (s\<lparr>lk_tx := t', lk_ctl := ctl', lk_written := w'\<rparr>)"
proof -
  have rx: "rx_part c s0 hist b sent (lk_rx s) (lk_read s)" and le: "sent \<le> length hist"
    and data: "data_part L c s0 hist sent (b + used (rcv_in_ring (lk_rx s))) (lk_data s)"
    using inv by (simp_all add: link_inv_at_def tx_part_def)
  have "\<forall>j < sent. hist' ! j = hist ! j"
    using grows by (simp add: hist_grows_def)
  then have "data_part L c s0 hist' sent (b + used (rcv_in_ring (lk_rx s))) (lk_data s)"
    by (rule data_part_cong [OF data]) simp
  moreover have "rx_part c s0 hist' b sent (lk_rx s) (lk_read s)"
    by (rule rx_part_cong [OF rx le grows])
  ultimately have "link_inv_at L c s0 hist' a' b sent (s\<lparr>lk_tx := t', lk_ctl := ctl', lk_written := w'\<rparr>)"
    using tx ctl w by (simp add: link_inv_at_def)
  then show ?thesis
    unfolding link_inv_def by blast
qed

lemma link_inv_rx:
  assumes inv: "link_inv_at L c s0 hist a b sent s"
    and rx: "rx_part c s0 hist b' sent r' out'"
    and mono: "\<And>j. has_received b (lk_rx s) j \<Longrightarrow> has_received b' r' j"
    and data: "data_part L c s0 hist sent (b' + used (rcv_in_ring r')) data'"
    and ctl: "ctl_part L c s0 (has_received b' r') a ctl'"
  shows "link_inv L (s\<lparr>lk_rx := r', lk_data := data', lk_ctl := ctl', lk_read := out'\<rparr>)"
proof -
  have "acked_part (has_received b' r') a (lk_tx s)"
    using inv mono by (simp add: link_inv_at_def acked_part_def)
  then have "link_inv_at L c s0 hist a b' sent (s\<lparr>lk_rx := r', lk_data := data', lk_ctl := ctl', lk_read := out'\<rparr>)"
    using inv rx data ctl by (simp add: link_inv_at_def)
  then show ?thesis
    unfolding link_inv_def by blast
qed

lemma link_inv_parts:
  assumes "link_inv_at L c s0 hist a b sent s"
  shows "tx_part L c s0 hist a sent (lk_tx s)" "rx_part c s0 hist b sent (lk_rx s) (lk_read s)"
    "data_part L c s0 hist sent (b + used (rcv_in_ring (lk_rx s))) (lk_data s)"
    "ctl_part L c s0 (has_received b (lk_rx s)) a (lk_ctl s)"
    "acked_part (has_received b (lk_rx s)) a (lk_tx s)" "lk_written s = frag_bytes hist"
    "hist_ok hist" "sent \<le> length hist"
  using assms by (simp_all add: link_inv_at_def tx_part_def)

lemma inv_write:
  assumes lib: "roo_lib L" and inv: "link_inv L s"
  shows "\<exists>t n ready. Transmitter_tryWrite L (lk_tx s) buf = Some (t, n, ready) \<and> n \<le> length buf
    \<and> link_inv L (s\<lparr>lk_tx := t, lk_written := lk_written s @ take n buf\<rparr>)"
proof -
  obtain c s0 hist a b sent where at: "link_inv_at L c s0 hist a b sent s"
    using inv by (auto simp: link_inv_def)
  note p = link_inv_parts [OF at]
  obtain t' n ready hist' where w: "Transmitter_tryWrite L (lk_tx s) buf = Some (t', n, ready)" "n \<le> length buf"
    "tx_part L c s0 hist' a sent t'" "acked_part (has_received b (lk_rx s)) a t'" "hist_grows sent hist hist'"
    "frag_bytes hist' = frag_bytes hist @ take n buf"
    using write_part [OF lib p(1, 5)] by blast
  have "link_inv L (s\<lparr>lk_tx := t', lk_ctl := lk_ctl s, lk_written := lk_written s @ take n buf\<rparr>)"
    using w(6) p(6) by (intro link_inv_tx [OF at w(3, 4) p(4) w(5)]) simp
  then show ?thesis
    using w(1, 2) by simp
qed

lemma inv_close:
  assumes lib: "roo_lib L" and inv: "link_inv L s"
  shows "\<exists>t. Transmitter_close L (lk_tx s) = Some t \<and> link_inv L (s\<lparr>lk_tx := t\<rparr>)"
proof -
  obtain c s0 hist a b sent where at: "link_inv_at L c s0 hist a b sent s"
    using inv by (auto simp: link_inv_def)
  note p = link_inv_parts [OF at]
  obtain t' hist' where w: "Transmitter_close L (lk_tx s) = Some t'" "tx_part L c s0 hist' a sent t'"
    "acked_part (has_received b (lk_rx s)) a t'" "hist_grows sent hist hist'" "frag_bytes hist' = frag_bytes hist"
    using close_part [OF lib p(1, 5)] by blast
  have "link_inv L (s\<lparr>lk_tx := t', lk_ctl := lk_ctl s, lk_written := lk_written s\<rparr>)"
    using w(5) p(6) by (intro link_inv_tx [OF at w(2, 3) p(4) w(4)]) simp
  then show ?thesis
    using w(1) by simp
qed

lemma inv_flush:
  assumes "link_inv L s"
  shows "link_inv L (s\<lparr>lk_tx := fst (Transmitter_flush (lk_tx s))\<rparr>)"
proof -
  obtain c s0 hist a b sent where at: "link_inv_at L c s0 hist a b sent s"
    using assms by (auto simp: link_inv_def)
  note p = link_inv_parts [OF at]
  show ?thesis
    using link_inv_tx [OF at flush_part [OF p(1, 5)] p(4) hist_grows_refl p(6)] by simp
qed

lemma inv_send:
  assumes lib: "roo_lib L" and inv: "link_inv L s" and send: "Transmitter_send L (lk_tx s) now draw n = (t, pkt, n')"
  shows "link_inv L (s\<lparr>lk_tx := t, lk_data := lk_data s @ (if pkt = [] then [] else [pkt])\<rparr>)"
proof -
  obtain c s0 hist a b sent where at: "link_inv_at L c s0 hist a b sent s"
    using inv by (auto simp: link_inv_def)
  note p = link_inv_parts [OF at]
  obtain sent' where s': "sent \<le> sent'" "tx_part L c s0 hist a sent' t" "acked_part (has_received b (lk_rx s)) a t"
    "pkt = [] \<or> (\<exists>k < sent'. pkt = enc L c s0 hist k \<and> sent' \<le> k + 1024)"
    using send_part [OF lib p(1, 5) received_below [OF p(2)] send] by blast
  let ?rend = "b + used (rcv_in_ring (lk_rx s))"
  have rend: "?rend \<le> sent"
    using p(2) by (simp add: rx_part_def)
  have "data_part L c s0 hist sent' ?rend (lk_data s @ (if pkt = [] then [] else [pkt]))"
  proof (cases "pkt = []")
    case True
    then show ?thesis
      using data_part_cong [OF p(3) _ s'(1)] by simp
  next
    case False
    then obtain k where k: "k < sent'" "pkt = enc L c s0 hist k" "sent' \<le> k + 1024"
      using s'(4) by blast
    obtain ks where ks: "lk_data s = map (enc L c s0 hist) ks" "\<forall>k \<in> set ks. k < sent \<and> ?rend \<le> k + 1024"
      "sorted_wrt (\<lambda>i j. Suc i \<le> j + 1024) ks"
      using p(3) by (auto simp: data_part_def)
    have "\<forall>i \<in> set (ks @ [k]). i < sent' \<and> ?rend \<le> i + 1024" "sorted_wrt (\<lambda>i j. Suc i \<le> j + 1024) (ks @ [k])"
      using ks(2, 3) k(1, 3) s'(1) rend by (fastforce simp: sorted_wrt_append)+
    then show ?thesis
      unfolding data_part_def using ks(1) k(2) False by (intro exI [of _ "ks @ [k]"]) simp
  qed
  moreover have "rx_part c s0 hist b sent' (lk_rx s) (lk_read s)"
    using p(2) s'(1) by (auto simp: rx_part_def)
  ultimately have "link_inv_at L c s0 hist a b sent'
      (s\<lparr>lk_tx := t, lk_data := lk_data s @ (if pkt = [] then [] else [pkt])\<rparr>)"
    using s'(2, 3) p(4, 6) by (simp add: link_inv_at_def)
  then show ?thesis
    unfolding link_inv_def by blast
qed

lemma inv_lose_data:
  assumes "link_inv L s" "lk_data s = ps @ p # qs"
  shows "link_inv L (s\<lparr>lk_data := ps @ qs\<rparr>)"
proof -
  obtain c s0 hist a b sent where at: "link_inv_at L c s0 hist a b sent s"
    using assms by (auto simp: link_inv_def)
  note p = link_inv_parts [OF at]
  have "data_part L c s0 hist sent (b + used (rcv_in_ring (lk_rx s))) (ps @ qs)"
    using p(3) unfolding assms(2) by (rule data_part_lose)
  then show ?thesis
    using link_inv_rx [OF at p(2) _ _ p(4)] by simp
qed

lemma inv_deliver_data:
  assumes lib: "roo_lib L" and inv: "link_inv L s" and data: "lk_data s = p # ps"
  shows "\<exists>r x y. Channel_dataReceived L (lk_rx s) p = Some (r, x, y) \<and> link_inv L (s\<lparr>lk_rx := r, lk_data := ps\<rparr>)"
proof -
  obtain c s0 hist a b sent where at: "link_inv_at L c s0 hist a b sent s"
    using inv by (auto simp: link_inv_def)
  note pt = link_inv_parts [OF at]
  let ?u = "used (rcv_in_ring (lk_rx s))"
  obtain k ks where ks: "p = enc L c s0 hist k" "ps = map (enc L c s0 hist) ks" "k < sent" "b + ?u \<le> k + 1024"
    "\<forall>i \<in> set ks. i < sent \<and> b + ?u \<le> i + 1024 \<and> Suc k \<le> i + 1024" "sorted_wrt (\<lambda>i j. Suc i \<le> j + 1024) ks"
    using pt(3) unfolding data_part_def data by (auto simp: Cons_eq_map_conv)
  have "k < b + 2048"
    using sent_bound [OF at] ks(3) by simp
  then obtain r x y where r: "Channel_dataReceived L (lk_rx s) p = Some (r, x, y)" "rx_part c s0 hist b sent r (lk_read s)"
    "\<And>j. has_received b (lk_rx s) j \<Longrightarrow> has_received b r j" "used (rcv_in_ring r) \<le> max ?u (Suc k - b)"
    using deliver_part [OF lib pt(7, 8, 2) ks(3, 4)] ks(1) by blast
  have "b + used (rcv_in_ring r) \<le> max (b + ?u) (Suc k) \<or> used (rcv_in_ring r) = 0"
    using r(4) by linarith
  then have "data_part L c s0 hist sent (b + used (rcv_in_ring r)) ps"
    unfolding data_part_def using ks(2, 5, 6) by (intro exI [of _ ks]) fastforce
  then have "link_inv L (s\<lparr>lk_rx := r, lk_data := ps, lk_ctl := lk_ctl s, lk_read := lk_read s\<rparr>)"
    using r(3) pt(4) by (intro link_inv_rx [OF at r(2)]) (auto intro: ctl_part_mono)
  then show ?thesis
    using r(1) by simp
qed

lemma inv_read:
  assumes inv: "link_inv L s"
  shows "\<exists>r out ready. Receiver_tryRead L (lk_rx s) count = Some (r, out, ready) \<and> length out \<le> count
    \<and> link_inv L (s\<lparr>lk_rx := r, lk_read := lk_read s @ out\<rparr>)"
proof -
  obtain c s0 hist a b sent where at: "link_inv_at L c s0 hist a b sent s"
    using inv by (auto simp: link_inv_def)
  note p = link_inv_parts [OF at]
  obtain r out ready b' where r: "Receiver_tryRead L (lk_rx s) count = Some (r, out, ready)" "length out \<le> count"
    "rx_part c s0 hist b' sent r (lk_read s @ out)" "\<And>j. has_received b (lk_rx s) j \<Longrightarrow> has_received b' r j"
    "b' + used (rcv_in_ring r) = b + used (rcv_in_ring (lk_rx s))"
    using read_part [OF p(2, 7, 8), of L count] by blast
  have "link_inv L (s\<lparr>lk_rx := r, lk_data := lk_data s, lk_ctl := lk_ctl s, lk_read := lk_read s @ out\<rparr>)"
    using r(4) p(3, 4) r(5) by (intro link_inv_rx [OF at r(3)]) (auto intro: ctl_part_mono)
  then show ?thesis
    using r(1, 2) by simp
qed

lemma inv_ack:
  assumes lib: "roo_lib L" and inv: "link_inv L s" and ack: "Receiver_ack L (lk_rx s) = (r, pkt)"
  shows "link_inv L (s\<lparr>lk_rx := r, lk_ctl := lk_ctl s @ (if pkt = [] then [] else [pkt])\<rparr>)"
proof -
  obtain c s0 hist a b sent where at: "link_inv_at L c s0 hist a b sent s"
    using inv by (auto simp: link_inv_def)
  note p = link_inv_parts [OF at]
  have "\<forall>j < a. has_received b (lk_rx s) j"
    using p(5) by (simp add: acked_part_def)
  note ra = rx_ack_part [OF lib p(2) ack p(4) this]
  show ?thesis
    using link_inv_rx [OF at ra(1), where data' = "lk_data s"] p(3) ra(4) by (simp add: ra(2, 3))
qed

lemma inv_himark:
  assumes inv: "link_inv L s" and up: "Receiver_updateRecvHimark L (lk_rx s) now n = (r, pkt, n')"
  shows "link_inv L (s\<lparr>lk_rx := r, lk_ctl := lk_ctl s @ (if pkt = [] then [] else [pkt])\<rparr>)"
proof -
  obtain c s0 hist a b sent where at: "link_inv_at L c s0 hist a b sent s"
    using inv by (auto simp: link_inv_def)
  note p = link_inv_parts [OF at]
  note rh = rx_himark_part [OF p(2) up]
  have "ctl_part L c s0 (has_received b (lk_rx s)) a (lk_ctl s @ (if pkt = [] then [] else [pkt]))"
    using ctl_part_flow [OF p(4) rh(4)] p(4) by simp
  then show ?thesis
    using link_inv_rx [OF at rh(1), where data' = "lk_data s"] p(3) by (simp add: rh(2, 3))
qed

lemma inv_lose_ctl:
  assumes "link_inv L s" "lk_ctl s = ps @ p # qs"
  shows "link_inv L (s\<lparr>lk_ctl := ps @ qs\<rparr>)"
proof -
  obtain c s0 hist a b sent where at: "link_inv_at L c s0 hist a b sent s"
    using assms by (auto simp: link_inv_def)
  note p = link_inv_parts [OF at]
  have "ctl_part L c s0 (has_received b (lk_rx s)) a (ps @ qs)"
    using p(4) unfolding assms(2) by (rule ctl_part_lose)
  then show ?thesis
    using link_inv_tx [OF at p(1, 5) _ hist_grows_refl p(6)] by simp
qed

lemma inv_deliver_ctl:
  assumes lib: "roo_lib L" and inv: "link_inv L s" and ctl: "lk_ctl s = p # ps"
  shows "\<exists>t x. Channel_controlReceived L (lk_tx s) p = Some (t, x) \<and> link_inv L (s\<lparr>lk_tx := t, lk_ctl := ps\<rparr>)"
proof -
  obtain c s0 hist a b sent where at: "link_inv_at L c s0 hist a b sent s"
    using inv by (auto simp: link_inv_def)
  note pt = link_inv_parts [OF at]
  let ?rec = "has_received b (lk_rx s)"
  have "flow_ok L c p \<and> ctl_part L c s0 ?rec a ps \<or> (\<exists>m \<ge> a. ack_ok L c s0 ?rec m p \<and> ctl_part L c s0 ?rec m ps)"
    using pt(4) unfolding ctl by simp
  then obtain t x hist' a' where t: "Channel_controlReceived L (lk_tx s) p = Some (t, x)"
    "tx_part L c s0 hist' a' sent t" "acked_part ?rec a' t" "ctl_part L c s0 ?rec a' ps"
    "hist_grows sent hist hist'" "frag_bytes hist' = frag_bytes hist"
  proof (elim disjE exE conjE)
    assume "flow_ok L c p" "ctl_part L c s0 ?rec a ps"
    then show ?thesis
      using that flow_part [OF lib pt(1, 5)] hist_grows_refl by blast
  next
    fix m assume m: "a \<le> m" "ack_ok L c s0 ?rec m p" "ctl_part L c s0 ?rec m ps"
    obtain t x hist' a' where "Channel_controlReceived L (lk_tx s) p = Some (t, x)"
      "tx_part L c s0 hist' a' sent t" "acked_part ?rec a' t" "a' \<le> m"
      "hist_grows sent hist hist'" "frag_bytes hist' = frag_bytes hist"
      using ack_part [OF lib pt(1, 5) received_below [OF pt(2)] m(1, 2)] by blast
    then show ?thesis
      using that ctl_part_mono [OF m(3)] by blast
  qed
  have "link_inv L (s\<lparr>lk_tx := t, lk_ctl := ps, lk_written := lk_written s\<rparr>)"
    using t(6) pt(6) by (intro link_inv_tx [OF at t(2-5)]) simp
  then show ?thesis
    using t(1) by simp
qed

section \<open>Reachability\<close>

lemma link_inv_start:
  assumes "link_start L s"
  shows "link_inv L s"
proof -
  let ?t = "lk_tx s" and ?r = "lk_rx s"
  have e: "tx_queue ?t = []" "rcv_slots ?r = []" "\<not> tx_has_pending_eof ?t"
    using assms by (auto simp: link_start_def tx_queue_Nil tx_inv_def tx_credit_def
        simp flip: length_0_conv)
  then have "tx_part L (tx_control_bit ?t) (rb_begin (tx_out_ring ?t)) [] 0 0 ?t"
    using assms by (simp add: link_start_def tx_part_def tx_live_def hist_ok_def tx_frags_def)
  moreover have "rx_part (tx_control_bit ?t) (rb_begin (tx_out_ring ?t)) [] 0 0 ?r []"
    using assms e by (auto simp: link_start_def rx_part_def)
  ultimately have "link_inv_at L (tx_control_bit ?t) (rb_begin (tx_out_ring ?t)) [] 0 0 0 s"
    using assms by (simp add: link_inv_at_def link_start_def data_part_def acked_part_def)
  then show ?thesis
    unfolding link_inv_def by blast
qed

lemma link_inv_step:
  assumes lib: "roo_lib L" and step: "link_step L s s'" and inv: "link_inv L s"
  shows "link_inv L s'"
  using step
proof cases
  case (st_write buf t n ready)
  then show ?thesis
    using inv_write [OF lib inv, of buf] by auto
next
  case (st_close t)
  then show ?thesis
    using inv_close [OF lib inv] by auto
next
  case (st_deliver_data p ps r a b)
  then show ?thesis
    using inv_deliver_data [OF lib inv] by auto
next
  case (st_read count r out ready)
  then show ?thesis
    using inv_read [OF inv, of count] by auto
next
  case (st_deliver_ctl p ps t b)
  then show ?thesis
    using inv_deliver_ctl [OF lib inv] by auto
qed (use inv_flush [OF inv] inv_send [OF lib inv] inv_lose_data [OF inv] inv_ack [OF lib inv]
      inv_himark [OF inv] inv_lose_ctl [OF inv] in auto)

lemma link_reachable_inv:
  assumes "roo_lib L" "link_reachable L s"
  shows "link_inv L s"
  using assms(2) by induction (auto intro: link_inv_start link_inv_step [OF assms(1)])

end
