(* ===== verification/Channel_Proof.thy ===== *)
theory Channel_Proof
  imports Channel Link_Proof
begin

text \<open>
  Robustness of the channel: whatever bytes arrive, in whatever state, the buffers stay
  well-formed, and the only abort a received packet can cause is the one \<open>CHECK\<close> of the
  handshake. The dispatch agrees with the one the link model uses.
\<close>

section \<open>Well-formed buffers\<close>

lemma TST_send_eq: "TST_send = Transmitter_send"
  by (intro ext) (simp add: TST_send_def Transmitter_send_def)

lemma sendNext_same: "tx_same t (fst (Transmitter_sendNext L t now draw))"
  by (simp add: Transmitter_sendNext_def Let_def mark_same tx_same_set same_packet_ops)

lemma sendDue_same: "tx_same t0 t \<Longrightarrow> tx_same t0 (fst (Transmitter_sendDue L t s m now draw n))"
  using mark_same tx_same_trans by (auto simp: Transmitter_sendDue_def)

lemma send_same: "tx_same t (fst (Transmitter_send L t now draw n))"
proof -
  have any: "tx_same t (fst (Transmitter_sendAny L t now draw n))" for t
    by (auto simp: Transmitter_sendAny_def Let_def sendDue_same tx_same_set same_packet_ops split: prod.splits)
  have "tx_same t (fst (Transmitter_getBufferToSend L t now draw n))"
    using sendNext_same [of t L now draw] tx_same_trans [OF _ any]
    by (auto simp: Transmitter_getBufferToSend_def split: prod.splits)
  then show ?thesis
    by (auto simp: Transmitter_send_def split: prod.splits option.splits)
qed

lemma tx_same_ok:
  assumes same: "tx_same t t'" and ok: "tx_ok t"
  shows "tx_ok t'"
proof -
  have f: "tx_out_ring t' = tx_out_ring t" "length (tx_out_buffers t') = length (tx_out_buffers t)"
    "tx_peer_receive_buffer_size t' = tx_peer_receive_buffer_size t"
    using same by (simp_all add: tx_same_def)
  have "length (ob_payload (tx_out_buffers t' ! i)) = 250" if "i < length (tx_out_buffers t)" for i
    using same ok that unfolding tx_same_def tx_ok_def by (auto simp: same_packet_def)
  moreover have "ob_ok (tx_queue t' ! k)" if "k < used (tx_out_ring t)" for k
    using same_packet_simps(5) [OF tx_same_queue [OF same ok that]] ok that by (simp add: tx_ok_def)
  ultimately show ?thesis
    using ok f unfolding tx_ok_def all_set_conv_all_nth by simp
qed

lemma tx_ok_pop:
  assumes "tx_ok t" "0 < used (tx_out_ring t)"
  shows "tx_ok (t\<lparr>tx_out_ring := (tx_out_ring t)\<lparr>rb_begin := rb_begin (tx_out_ring t) + 1\<rparr>,
    tx_packets_delivered := n\<rparr>)"
proof -
  have "tx_queue (t\<lparr>tx_out_ring := (tx_out_ring t)\<lparr>rb_begin := rb_begin (tx_out_ring t) + 1\<rparr>,
      tx_packets_delivered := n\<rparr>) = tl (tx_queue t)"
    using assms contents_pop [of "tx_out_ring t" "tx_out_buffers t"] by (simp add: tx_queue_def tx_ok_def)
  moreover have "set (tl (tx_queue t)) \<subseteq> set (tx_queue t)"
    by (cases "tx_queue t") auto
  ultimately show ?thesis
    using assms by (auto simp: tx_ok_def ring_ok_pop)
qed

lemma tx_ok_eos:
  assumes lib: "roo_lib L" and ok: "tx_ok t" and room: "used (tx_out_ring t) < cap (tx_out_ring t)"
  shows "\<exists>t'. Transmitter_addEosPacket L t = Some t' \<and> tx_ok t' \<and> tx_has_pending_eof t' = tx_has_pending_eof t
    \<and> tx_state t' = tx_state t"
proof -
  let ?ring = "tx_out_ring t" and ?i = "slot (tx_out_ring t) (rb_end (tx_out_ring t))"
  have ring: "ring_ok ?ring" and len: "length (tx_out_buffers t) = cap ?ring"
    and pay: "\<forall>b \<in> set (tx_out_buffers t). length (ob_payload b) = 250" and q: "\<forall>b \<in> set (tx_queue t). ob_ok b"
    using ok by (simp_all add: tx_ok_def)
  define b where "b = OutBuffer_finish L (OutBuffer_markFinal L
    (OutBuffer_init L (tx_out_buffers t ! ?i) (rb_end ?ring) (tx_control_bit t)))"
  have "ob_ok (OutBuffer_init L (tx_out_buffers t ! ?i) (rb_end ?ring) (tx_control_bit t))"
    using pay len ring by (intro roo_lib.OutBuffer_init_ok [OF lib]) (simp add: offset_for_less)
  then have b: "ob_ok b"
    unfolding b_def using roo_lib.OutBuffer_markFinal_ok [OF lib]
    by (simp add: OutBuffer_finish_def ob_ok_def)
  let ?t = "t\<lparr>tx_out_ring := ?ring\<lparr>rb_end := rb_end ?ring + 1\<rparr>, tx_out_buffers := (tx_out_buffers t)[?i := b]\<rparr>"
  have "Transmitter_addEosPacket L t = Some ?t"
    using room by (simp add: Transmitter_addEosPacket_def push_eq [OF ring] Let_def b_def)
  moreover have "tx_queue ?t = tx_queue t @ [b]"
    using contents_push_update [OF ring room len] by (simp add: tx_queue_def)
  then have "tx_ok ?t"
    using ok b q pay len ring_ok_push [OF ring room] unfolding tx_ok_def
    by (auto simp: ob_ok_def [of b] dest!: set_update_subset_insert [THEN subsetD])
  ultimately show ?thesis
    by simp
qed

lemma release_total:
  assumes "roo_lib L" "tx_ok t"
  shows "\<exists>t'. Transmitter_release L t seq = Some t' \<and> tx_ok t'"
  using assms
proof (induction L t seq rule: Transmitter_release.induct)
  case (1 L t seq)
  show ?case
  proof (cases "SeqNum_lt (rb_begin (tx_out_ring t)) seq \<and> \<not> RingBuffer_empty (tx_out_ring t)")
    case False
    have "Transmitter_release L t seq = Some t"
      by (subst Transmitter_release.simps) (simp only: False if_False)
    then show ?thesis
      using 1(4) by simp
  next
    case go: True
    let ?ring = "(tx_out_ring t)\<lparr>rb_begin := rb_begin (tx_out_ring t) + 1\<rparr>"
    let ?t1 = "t\<lparr>tx_out_ring := ?ring, tx_packets_delivered := tx_packets_delivered t + 1\<rparr>"
    have u: "0 < used (tx_out_ring t)"
      using go by (simp add: empty_iff_used)
    have pop: "RingBuffer_pop (tx_out_ring t) = Some (?ring, rb_begin (tx_out_ring t))"
      using u by (simp add: pop_eq)
    have ok1: "tx_ok ?t1"
      using tx_ok_pop [OF 1(4) u] .
    show ?thesis
    proof (cases "tx_has_pending_eof t")
      case False
      then show ?thesis
        using 1(2) [OF go pop refl refl _ 1(3) ok1] go pop
        by (simp add: Transmitter_release.simps [of L t])
    next
      case True
      have "used (tx_out_ring ?t1) < cap (tx_out_ring ?t1)"
        using u used_le_cap [of "tx_out_ring t"] 1(4) by (simp add: used_pop tx_ok_def)
      then obtain t2 where t2: "Transmitter_addEosPacket L ?t1 = Some t2" "tx_ok t2"
        using tx_ok_eos [OF 1(3) ok1] by blast
      have "tx_ok (t2\<lparr>tx_has_pending_eof := False\<rparr>)"
        using t2(2) by (simp add: tx_ok_def tx_queue_def)
      then show ?thesis
        using 1(1) [OF go pop refl refl _ t2(1) 1(3)] go pop True t2(1)
        by (simp add: Transmitter_release.simps [of L t])
    qed
  qed
qed

lemma skip_same: "tx_same t (fst (fold skip1 bits (t, p, la)))"
proof (induction bits arbitrary: t p la)
  case (Cons x bits)
  obtain t1 p1 la1 where s: "skip1 x (t, p, la) = (t1, p1, la1)"
    by (cases "skip1 x (t, p, la)") auto
  then have "tx_same t t1"
    by (auto simp: skip1_def tx_same_set same_packet_ops split: if_splits)
  then show ?case
    using tx_same_trans [OF _ Cons] s by simp
qed simp

lemma rush_total:
  "\<exists>t' r'. Transmitter_rush L t pos la upd r = Some (t', r') \<and> tx_same t t'"
proof (induction L t pos la upd r rule: Transmitter_rush.induct)
  case (1 L t pos la upd r)
  let ?b = "Transmitter_getOutBuffer t pos"
  show ?case
  proof (cases "pos = la")
    case True
    then show ?thesis
      by (simp add: Transmitter_rush.simps [of L t])
  next
    case ne: False
    show ?thesis
    proof (cases "\<not> ob_acked ?b \<and> ob_send_counter ?b = 1")
      case True
      then obtain b where b: "OutBuffer_rush L ?b = Some b"
        by (auto simp: OutBuffer_rush_def CHECK_bind)
      let ?t = "Transmitter_setOutBuffer t pos b"
      let ?t' = "if upd then ?t else ?t\<lparr>tx_next_to_send := pos\<rparr>"
      have "tx_same t ?t"
        using same_packet_rush [OF b] by (rule tx_same_set)
      then have same: "tx_same t ?t'"
        by (simp add: tx_same_update)
      obtain t' r' where "Transmitter_rush L ?t' (pos + 1) la True True = Some (t', r')" "tx_same ?t' t'"
        using 1(1) [OF ne refl True b refl refl] by blast
      then show ?thesis
        using same tx_same_trans ne True b by (auto simp: Transmitter_rush.simps [of L t] Let_def)
    next
      case False
      then show ?thesis
        using 1(2) [OF ne refl False] ne by (auto simp: Transmitter_rush.simps [of L t] Let_def)
    qed
  qed
qed

lemma ack_total:
  assumes lib: "roo_lib L" and ok: "tx_ok t"
  shows "\<exists>t' rushed. Transmitter_ack L t c seq_id bm = Some (t', rushed) \<and> tx_ok t'"
proof -
  obtain t1 where t1: "Transmitter_release L t (RingBuffer_restorePosHighBits (tx_out_ring t) seq_id 12) = Some t1"
    "tx_ok t1"
    using release_total [OF assms] by blast
  obtain t2 where t2: "Transmitter_reset t1 = Some t2" "tx_ok t2"
    using Transmitter_reset_spec [OF t1(2)] by blast
  obtain t3 p la where t3: "Transmitter_skipAcks bm (t1, rb_begin (tx_out_ring t1) + 1, rb_begin (tx_out_ring t1) - 1)
      = (t3, p, la)"
    by (metis prod_cases3)
  then have ok3: "tx_ok t3"
    using tx_same_ok [OF skip_same t1(2)] unfolding skipAcks_eq by (metis fst_conv)
  obtain t4 r where t4: "Transmitter_rush L t3 (rb_begin (tx_out_ring t1)) la False False = Some (t4, r)" "tx_same t3 t4"
    using rush_total by blast
  show ?thesis
    using ok t1 t2 t3 ok3 t4(1) tx_same_ok [OF t4(2) ok3] by (auto simp: Transmitter_ack_def Let_def)
qed

section \<open>The channel\<close>

definition ch_ok :: "Channel \<Rightarrow> bool" where
  "ch_ok ch \<longleftrightarrow> tx_ok (ch_transmitter ch) \<and> rcv_ok (ch_receiver ch)
     \<and> (rcv_state (ch_receiver ch) = R_kConnecting \<longrightarrow> used (rcv_in_ring (ch_receiver ch)) = 0)"

lemma Channel_notify_fields [simp]:
  "ch_transmitter (Channel_notify ch b) = ch_transmitter ch" "ch_receiver (Channel_notify ch b) = ch_receiver ch"
  "ch_my_stream_id (Channel_notify ch b) = ch_my_stream_id ch" "ch_peer_stream_id (Channel_notify ch b) = ch_peer_stream_id ch"
  "ch_my_stream_id_acked_by_peer (Channel_notify ch b) = ch_my_stream_id_acked_by_peer ch"
  "ch_needs_handshake_ack (Channel_notify ch b) = ch_needs_handshake_ack ch"
  "ch_next_scheduled_handshake_update (Channel_notify ch b) = ch_next_scheduled_handshake_update ch"
  "ch_disconnect_fn (Channel_notify ch b) = ch_disconnect_fn ch"
  "ch_ok (Channel_notify ch b) = ch_ok ch"
  by (simp_all add: Channel_notify_def ch_ok_def)

lemma rcv_ok_setConnected:
  assumes "rcv_ok r" "used (rcv_in_ring r) = 0"
  shows "\<exists>r'. Receiver_setConnected r s c = Some r' \<and> rcv_ok r' \<and> rcv_state r' = R_kConnected"
  using assms by (auto simp: Receiver_setConnected_def CHECK_bind empty_iff_used reset_eq used_zero_iff rcv_ok_def ring_ok_reset)

lemma tx_ok_setConnected: "tx_ok t \<Longrightarrow> unat n \<le> 1024 \<Longrightarrow> tx_ok (TST_setConnected t n c)"
  by (simp add: TST_setConnected_def Transmitter_setConnected_def tx_ok_def tx_queue_def)

lemma rcv_ok_setBroken: "rcv_ok r \<Longrightarrow> rcv_ok (fst (TSR_setBroken r))"
  "rcv_state r = R_kConnected \<Longrightarrow> rcv_state (fst (TSR_setBroken r)) \<noteq> R_kConnecting"
  "rcv_state (fst (TSR_setBroken r)) = R_kConnecting \<Longrightarrow> used (rcv_in_ring (fst (TSR_setBroken r))) \<noteq> 0"
  by (auto simp: TSR_setBroken_def Receiver_setBroken_def Receiver_setIdle_def rcv_ok_def empty_iff_used
      split: if_splits)

lemma parse_handshake_size:
  assumes "parse_handshake L buf = Some (s, p, a, w, n)"
  shows "unat n \<le> 1024"
proof -
  define k where "k = unat (buf ! 10 AND 15)"
  have k: "k \<le> 10" "n = 2 ^ k"
    using assms by (auto simp: k_def parse_handshake_def Let_def kMaxLinkBufferSizeLog2_def split: if_splits)
  have "(2 :: u16) ^ k = of_nat (2 ^ k)" "(2 :: nat) ^ k \<le> 1024"
    using k(1) power_increasing [of k 10 "2 :: nat"] by simp_all
  then have "unat ((2 :: u16) ^ k) = 2 ^ k"
    using unat_of_nat_u16 [of "2 ^ k"] by simp
  then show ?thesis
    using k power_increasing [of k 10 "2 :: nat"] by simp
qed

text \<open>
  A handshake packet aborts exactly when the receiver is still connected, the local stream is
  gone and was never acknowledged, and the packet acknowledges stream 0 without opening a new
  stream.
\<close>

definition handshake_aborts :: "Channel \<Rightarrow> u16 \<Rightarrow> u32 \<Rightarrow> u32 \<Rightarrow> bool \<Rightarrow> bool" where
  "handshake_aborts ch seq peer ack want \<longleftrightarrow>
     rcv_state (ch_receiver ch) = R_kConnected \<and> ch_my_stream_id ch = 0 \<and> \<not> ch_my_stream_id_acked_by_peer ch
     \<and> ack = 0 \<and> \<not> (want \<and> ch_peer_stream_id ch \<noteq> peer)
     \<and> \<not> (peer = 0 \<and> seq = rb_begin (tx_out_ring (ch_transmitter ch)))"

lemma handshake_total:
  assumes ok: "ch_ok ch" and n: "unat n \<le> 1024"
  shows "handshake_aborts ch seq peer ack want \<Longrightarrow>
      Channel_handleHandshakePacket L ch seq peer ack want n = None"
    "\<not> handshake_aborts ch seq peer ack want \<Longrightarrow>
      \<exists>ch' ready eff. Channel_handleHandshakePacket L ch seq peer ack want n = Some (ch', ready, eff) \<and> ch_ok ch'"
proof -
  have tx: "tx_ok (ch_transmitter ch)" and rx: "rcv_ok (ch_receiver ch)"
    using ok by (simp_all add: ch_ok_def)
  show "Channel_handleHandshakePacket L ch seq peer ack want n = None" if "handshake_aborts ch seq peer ack want"
    using that by (auto simp: handshake_aborts_def Channel_handleHandshakePacket_def Channel_handshake_connected_def
        Transmitter_front_def)
  show "\<exists>ch' ready eff. Channel_handleHandshakePacket L ch seq peer ack want n = Some (ch', ready, eff) \<and> ch_ok ch'"
    if na: "\<not> handshake_aborts ch seq peer ack want"
  proof (cases "peer = ch_my_stream_id ch \<and> seq = Transmitter_front (ch_transmitter ch)")
    case False
    obtain tb where tb: "TST_setBroken (ch_transmitter ch) = Some (tb, [all_acked, has_space])" "tx_ok tb"
      using Transmitter_setBroken_spec [OF tx] by (auto simp: TST_setBroken_def)
    obtain tr where tr: "TST_reset (ch_transmitter ch) = Some (tr, [all_acked])" "tx_ok tr"
      using Transmitter_reset_spec [OF tx] by (auto simp: TST_reset_def)
    obtain rr where rr: "TSR_reset L (ch_receiver ch) = Some (rr, [has_data])" "rcv_ok rr" "rcv_state rr = R_kIdle"
      using reset_spec [OF rx, of L] by (auto simp: TSR_reset_def)
    note br = rcv_ok_setBroken(1) [OF rx] rcv_ok_setBroken(2, 3) [of "ch_receiver ch"]
    obtain rb cvs where rb: "TSR_setBroken (ch_receiver ch) = (rb, cvs)"
      by fastforce
    show ?thesis
    proof (cases "rcv_state (ch_receiver ch)")
      case R_kConnecting
      then have u: "used (rcv_in_ring (ch_receiver ch)) = 0"
        using ok by (simp add: ch_ok_def)
      have idle: "rcv_state rb = R_kIdle"
        using rb u by (auto simp: TSR_setBroken_def Receiver_setBroken_def Receiver_setIdle_def empty_iff_used)
      obtain rc where rc: "Receiver_setConnected (ch_receiver ch) seq (my_control_bit (ch\<lparr>ch_peer_stream_id := peer\<rparr>)) = Some rc"
        "rcv_ok rc" "rcv_state rc = R_kConnected"
        using rcv_ok_setConnected [OF rx u] by blast
      then show ?thesis
        using R_kConnecting False tb rb br(1) u idle tx rx tx_ok_setConnected [OF tx n]
        by (auto simp: Channel_handleHandshakePacket_def Channel_handshake_connecting_def Receiver_empty_def
            empty_iff_used ch_ok_def Let_def split: if_splits)
    next
      case R_kConnected
      have "rcv_ok rb" "rcv_state rb \<noteq> R_kConnecting"
        using br(1, 2) rb R_kConnected by simp_all
      then show ?thesis
        using R_kConnected False na tb tr rr rb tx rx tx_ok_setConnected [OF tx n]
        by (auto simp: Channel_handleHandshakePacket_def Channel_handshake_connected_def handshake_aborts_def
            CHECK_bind ch_ok_def Transmitter_front_def Let_def)
    qed (use ok False in \<open>auto simp: Channel_handleHandshakePacket_def\<close>)
  qed (use ok in \<open>auto simp: Channel_handleHandshakePacket_def\<close>)
qed

text \<open>Arbitrary bytes.\<close>

definition packet_aborts :: "lib \<Rightarrow> Channel \<Rightarrow> byte list \<Rightarrow> bool" where
  "packet_aborts L ch buf \<longleftrightarrow> length buf \<le> kMaxPacketSize \<and> GetPacketType (LoadBeU16 L buf) = kHandshakePacket
     \<and> (case parse_handshake L buf of None \<Rightarrow> False
        | Some (seq, peer, ack, want, n) \<Rightarrow> handshake_aborts ch seq peer ack want)"

lemma packetReceived_total:
  assumes lib: "roo_lib L" and ok: "ch_ok ch"
  shows "packet_aborts L ch buf \<Longrightarrow> Channel_packetReceived L ch buf = None"
    "\<not> packet_aborts L ch buf \<Longrightarrow> \<exists>ch' eff. Channel_packetReceived L ch buf = Some (ch', eff) \<and> ch_ok ch'"
proof -
  show "Channel_packetReceived L ch buf = None" if pa: "packet_aborts L ch buf"
  proof -
    obtain seq peer ack want n where p: "parse_handshake L buf = Some (seq, peer, ack, want, n)"
      "handshake_aborts ch seq peer ack want" "length buf \<le> kMaxPacketSize"
      "GetPacketType (LoadBeU16 L buf) = kHandshakePacket"
      using pa by (auto simp: packet_aborts_def split: option.splits)
    moreover have "length buf = 11"
      using p(1) by (simp add: parse_handshake_def split: if_splits)
    ultimately show ?thesis
      using handshake_total(1) [OF ok parse_handshake_size [OF p(1)] p(2)]
      by (simp add: Channel_packetReceived_def Let_def)
  qed
  assume na: "\<not> packet_aborts L ch buf"
  have tx: "tx_ok (ch_transmitter ch)" and rx: "rcv_ok (ch_receiver ch)"
    using ok by (simp_all add: ch_ok_def)
  let ?h = "LoadBeU16 L buf"
  show "\<exists>ch' eff. Channel_packetReceived L ch buf = Some (ch', eff) \<and> ch_ok ch'"
  proof (cases "length buf < 2 \<or> length buf > kMaxPacketSize")
    case False
    then have len: "length (drop 2 buf) \<le> 248" "\<not> length buf < 2" "\<not> length buf > kMaxPacketSize"
      by (auto simp: kMaxPacketSize_def)
    have data: "\<exists>r a c. TSR_handleDataPacket (ch_receiver ch) (GetPacketControlBit ?h) (?h AND 0x0FFF) (drop 2 buf) f
        = Some (r, a, c) \<and> ch_ok (ch\<lparr>ch_receiver := r\<rparr>)" for f
    proof -
      obtain r a nw where r: "Receiver_handleDataPacket (ch_receiver ch) (GetPacketControlBit ?h) (?h AND 0x0FFF)
          (drop 2 buf) f = Some (r, a, nw)" "rcv_ok r" "rcv_frame (ch_receiver ch) r"
        using handle_total [OF rx len(1)] by blast
      have "rcv_state (ch_receiver ch) = R_kConnecting \<Longrightarrow> r = ch_receiver ch"
        using r(1) by (simp add: Receiver_handleDataPacket_def)
      then show ?thesis
        using r ok by (auto simp: TSR_handleDataPacket_def ch_ok_def rcv_frame_def)
    qed
    have dataP: "\<exists>ch' eff. Channel_packetReceived L ch buf = Some (ch', eff) \<and> ch_ok ch'"
      if "GetPacketType ?h = kDataPacket \<or> GetPacketType ?h = kFinPacket"
      using that data [of "GetPacketType ?h = kFinPacket"] ok len(2, 3) by (auto simp: Channel_packetReceived_def Let_def)
    show ?thesis
    proof (cases "GetPacketType ?h")
      case kDataAckPacket
      obtain t r where "Transmitter_ack L (ch_transmitter ch) (GetPacketControlBit ?h) (?h AND 0x0FFF) (drop 2 buf)
          = Some (t, r)" "tx_ok t"
        using ack_total [OF lib tx] by blast
      then show ?thesis
        using kDataAckPacket ok len by (simp add: Channel_packetReceived_def Let_def TST_ack_def ch_ok_def)
    next
      case kFlowControlPacket
      have "tx_ok (fst (TST_updateRecvHimark (ch_transmitter ch) (GetPacketControlBit ?h) (?h AND 0x0FFF)))"
        using tx by (auto simp: TST_updateRecvHimark_def Transmitter_updateRecvHimark_def Let_def tx_ok_def tx_queue_def)
      then show ?thesis
        using kFlowControlPacket ok len by (auto simp: Channel_packetReceived_def Let_def ch_ok_def split: prod.splits)
    next
      case kHandshakePacket
      show ?thesis
      proof (cases "parse_handshake L buf")
        case None
        then show ?thesis
          using kHandshakePacket ok len by (simp add: Channel_packetReceived_def Let_def)
      next
        case (Some q)
        then obtain seq peer ack want n where q: "parse_handshake L buf = Some (seq, peer, ack, want, n)"
          by (cases q) auto
        then have "\<not> handshake_aborts ch seq peer ack want"
          using na kHandshakePacket len(3) by (simp add: packet_aborts_def)
        then show ?thesis
          using handshake_total(2) [OF ok parse_handshake_size [OF q], of seq peer ack want L] kHandshakePacket len q
          by (auto simp: Channel_packetReceived_def Let_def)
      qed
    qed (use dataP ok len in \<open>auto simp: Channel_packetReceived_def Let_def\<close>)
  qed (use ok in \<open>simp add: Channel_packetReceived_def\<close>)
qed

end
