(* ===== verification/Handshake.thy ===== *)
theory Handshake
  imports Channel_Proof
begin

text \<open>
  The handshake between two channels. A step is a pass of \<open>conn\<close> on one side, or the arrival of
  any packet that the other side has ever sent: packets may be lost, repeated and reordered.
  The lemmas give an invariant, from which the two directions of the connection agree as soon
  as both sides are connected, and that the handshake can always be completed.
\<close>

section \<open>Handshake packets\<close>

definition handshake_packet :: "lib \<Rightarrow> SeqNum \<Rightarrow> u32 \<Rightarrow> u32 \<Rightarrow> bool \<Rightarrow> nat \<Rightarrow> byte list" where
  "handshake_packet L s my peer want k =
     StoreBeU16 L (FormatPacketHeader s kHandshakePacket False) @ StoreBeU32 L my @ StoreBeU32 L peer
       @ [(if want then 0x80 else 0x00) OR of_nat k]"

lemma size_byte:
  assumes "k \<le> 10"
  shows "((if want then 0x80 else 0x00) OR of_nat k :: u8) AND 0x70 = 0"
    "unat (((if want then 0x80 else 0x00) OR of_nat k :: u8) AND 0x0F) = k"
    "((if want then 0x80 else 0x00) OR of_nat k :: u8) AND 0x80 \<noteq> 0 \<longleftrightarrow> want"
proof -
  have "k = 0 \<or> k = 1 \<or> k = 2 \<or> k = 3 \<or> k = 4 \<or> k = 5 \<or> k = 6 \<or> k = 7 \<or> k = 8 \<or> k = 9 \<or> k = 10"
    using assms by arith
  then show "((if want then 0x80 else 0x00) OR of_nat k :: u8) AND 0x70 = 0"
    "unat (((if want then 0x80 else 0x00) OR of_nat k :: u8) AND 0x0F) = k"
    "((if want then 0x80 else 0x00) OR of_nat k :: u8) AND 0x80 \<noteq> 0 \<longleftrightarrow> want"
    by (elim disjE; cases want; simp)+
qed

lemma parse_handshake_packet:
  assumes lib: "roo_lib L" and k: "k \<le> 10"
  shows "parse_handshake L (handshake_packet L s my peer want k) = Some (s AND 0x0FFF, my, peer, want, push_bit k 1)"
    "length (handshake_packet L s my peer want k) = 11"
    "GetPacketType (LoadBeU16 L (handshake_packet L s my peer want k)) = kHandshakePacket"
proof -
  note len = roo_lib.length_StoreBeU16 [OF lib] roo_lib.length_StoreBeU32 [OF lib]
  let ?p = "handshake_packet L s my peer want k"
  show l: "length ?p = 11"
    by (simp add: handshake_packet_def len)
  have h: "LoadBeU16 L ?p = FormatPacketHeader s kHandshakePacket False"
    by (simp add: handshake_packet_def roo_lib.load_store_16 [OF lib])
  then show "GetPacketType (LoadBeU16 L ?p) = kHandshakePacket"
    by (simp add: header_type)
  have "LoadBeU32 L (drop 2 ?p) = my" "LoadBeU32 L (drop 6 ?p) = peer"
    "?p ! 10 = (if want then 0x80 else 0x00) OR of_nat k"
    using roo_lib.load_store_32 [OF lib] by (simp_all add: handshake_packet_def len nth_append)
  then show "parse_handshake L ?p = Some (s AND 0x0FFF, my, peer, want, push_bit k 1)"
    using size_byte [OF k] l h k by (simp add: parse_handshake_def header_seq kMaxLinkBufferSizeLog2_def Let_def)
qed

text \<open>What \<open>conn\<close> sends, in any state.\<close>

lemma conn_bytes:
  assumes "Channel_conn L ch now draw n = (ch', pkt, n')" "pkt \<noteq> []"
  shows "pkt = handshake_packet L (Transmitter_front (ch_transmitter ch)) (ch_my_stream_id ch) (ch_peer_stream_id ch)
    (tx_state (ch_transmitter ch) = T_kConnecting) (rb_capacity_log2 (rcv_in_ring (ch_receiver ch)))"
  using assms by (cases "tx_state (ch_transmitter ch)")
    (auto simp: Channel_conn_def handshake_packet_def Let_def split: if_splits)

section \<open>The two sides\<close>

record handshake =
  hs_a :: Channel
  hs_b :: Channel
  hs_ab :: "byte list list"
  hs_ba :: "byte list list"

inductive hs_step :: "lib \<Rightarrow> handshake \<Rightarrow> handshake \<Rightarrow> bool" for L :: lib where
  send_a: "Channel_conn L (hs_a s) now draw n = (a, pkt, n') \<Longrightarrow>
    hs_step L s (s\<lparr>hs_a := a, hs_ab := hs_ab s @ sent_packet pkt\<rparr>)"
| send_b: "Channel_conn L (hs_b s) now draw n = (b, pkt, n') \<Longrightarrow>
    hs_step L s (s\<lparr>hs_b := b, hs_ba := hs_ba s @ sent_packet pkt\<rparr>)"
| recv_a: "pkt \<in> set (hs_ba s) \<Longrightarrow> Channel_packetReceived L (hs_a s) pkt = Some (a, effects) \<Longrightarrow>
    hs_step L s (s\<lparr>hs_a := a\<rparr>)"
| recv_b: "pkt \<in> set (hs_ab s) \<Longrightarrow> Channel_packetReceived L (hs_b s) pkt = Some (b, effects) \<Longrightarrow>
    hs_step L s (s\<lparr>hs_b := b\<rparr>)"

text \<open>Two channels that have just been created and connected, with different stream ids.\<close>

definition hs_start :: "lib \<Rightarrow> handshake \<Rightarrow> bool" where
  "hs_start L s \<longleftrightarrow> hs_ab s = [] \<and> hs_ba s = []
     \<and> ch_my_stream_id (hs_a s) \<noteq> ch_my_stream_id (hs_b s)
     \<and> (\<exists>n m i c ch f draws x e. Channel_new L n m i c = Some ch \<and> Channel_connect L ch f draws = Some (hs_a s, x, e))
     \<and> (\<exists>n m i c ch f draws x e. Channel_new L n m i c = Some ch \<and> Channel_connect L ch f draws = Some (hs_b s, x, e))"

inductive hs_reachable :: "lib \<Rightarrow> handshake \<Rightarrow> bool" for L :: lib where
  hs_init: "hs_start L s \<Longrightarrow> hs_reachable L s"
| hs_next: "hs_reachable L s \<Longrightarrow> hs_step L s s' \<Longrightarrow> hs_reachable L s'"

section \<open>The invariant\<close>

text \<open>
  What is fixed of a side: its stream id, its first sequence number and the size of its receive
  buffer.
\<close>

record side =
  sd_id :: u32
  sd_seq :: SeqNum
  sd_log2 :: nat

definition side_ok :: "side \<Rightarrow> bool" where
  "side_ok p \<longleftrightarrow> sd_id p \<noteq> 0 \<and> unat (sd_seq p) < 4096 \<and> sd_log2 p \<le> 10"

text \<open>The transmitter and the receiver of a side with identity \<open>p\<close> whose peer is \<open>q\<close>.\<close>

definition hs_tx :: "lib \<Rightarrow> side \<Rightarrow> side \<Rightarrow> bool \<Rightarrow> Transmitter \<Rightarrow> bool" where
  "hs_tx L p q acked t \<longleftrightarrow> tx_inv L t \<and> used (tx_out_ring t) = 0 \<and> rb_begin (tx_out_ring t) = sd_seq p
     \<and> tx_next_to_send t = sd_seq p \<and> \<not> tx_end_of_stream t \<and> tx_my_stream_id t = sd_id p
     \<and> (if acked then tx_state t = T_kConnected \<and> tx_control_bit t = (sd_id p > sd_id q)
          \<and> tx_peer_receive_buffer_size t = push_bit (sd_log2 q) 1
          \<and> tx_recv_himark t = sd_seq p + push_bit (sd_log2 q) 1
        else tx_state t = T_kConnecting)"

definition hs_rx :: "side \<Rightarrow> side \<Rightarrow> bool \<Rightarrow> Receiver \<Rightarrow> bool" where
  "hs_rx p q met r \<longleftrightarrow> rcv_ok r \<and> cur_ok r \<and> used (rcv_in_ring r) = 0
     \<and> rb_capacity_log2 (rcv_in_ring r) = sd_log2 p \<and> rcv_my_stream_id r = sd_id p
     \<and> \<not> rcv_self_closed r \<and> \<not> rcv_peer_closed r \<and> \<not> rcv_end_of_stream r
     \<and> (if met then rcv_inv r \<and> rcv_state r = R_kConnected \<and> rb_begin (rcv_in_ring r) = sd_seq q
          \<and> rcv_control_bit r = (sd_id p > sd_id q)
        else rcv_state r = R_kConnecting)"

definition hs_end :: "lib \<Rightarrow> side \<Rightarrow> side \<Rightarrow> Channel \<Rightarrow> bool" where
  "hs_end L p q ch \<longleftrightarrow> ch_my_stream_id ch = sd_id p
     \<and> ch_peer_stream_id ch \<in> {0, sd_id q}
     \<and> (ch_my_stream_id_acked_by_peer ch \<longrightarrow> ch_peer_stream_id ch = sd_id q)
     \<and> hs_tx L p q (ch_my_stream_id_acked_by_peer ch) (ch_transmitter ch)
     \<and> hs_rx p q (ch_peer_stream_id ch \<noteq> 0) (ch_receiver ch)"

section \<open>Steps of one side\<close>

text \<open>A pass of \<open>conn\<close>: what it changes, and the packet when it sends one.\<close>

lemma conn_end:
  assumes inv: "hs_end L p q ch" and conn: "Channel_conn L ch now draw n = (ch', pkt, n')"
  shows "hs_end L p q ch'" "ch_peer_stream_id ch' = ch_peer_stream_id ch"
    "ch_my_stream_id_acked_by_peer ch' = ch_my_stream_id_acked_by_peer ch"
    "pkt = [] \<or> pkt = handshake_packet L (sd_seq p) (sd_id p) (ch_peer_stream_id ch)
      (\<not> ch_my_stream_id_acked_by_peer ch) (sd_log2 p)"
    "\<not> ch_my_stream_id_acked_by_peer ch \<Longrightarrow> ch_next_scheduled_handshake_update ch \<le> now \<Longrightarrow> pkt \<noteq> []"
    "ch_needs_handshake_ack ch \<Longrightarrow> ch_next_scheduled_handshake_update ch \<le> now \<Longrightarrow> pkt \<noteq> []"
proof -
  have ids: "ch_my_stream_id ch = sd_id p" "Transmitter_front (ch_transmitter ch) = sd_seq p"
    "rb_capacity_log2 (rcv_in_ring (ch_receiver ch)) = sd_log2 p"
    and st: "tx_state (ch_transmitter ch) = (if ch_my_stream_id_acked_by_peer ch then T_kConnected else T_kConnecting)"
    using inv by (simp_all add: hs_end_def hs_tx_def hs_rx_def Transmitter_front_def)
  show "hs_end L p q ch'" "ch_peer_stream_id ch' = ch_peer_stream_id ch"
    "ch_my_stream_id_acked_by_peer ch' = ch_my_stream_id_acked_by_peer ch"
    using conn inv by (auto simp: Channel_conn_def Let_def hs_end_def split: if_splits)
  show "pkt = [] \<or> pkt = handshake_packet L (sd_seq p) (sd_id p) (ch_peer_stream_id ch)
      (\<not> ch_my_stream_id_acked_by_peer ch) (sd_log2 p)"
    using conn st by (auto simp: Channel_conn_def Let_def handshake_packet_def ids split: if_splits)
  show "\<not> ch_my_stream_id_acked_by_peer ch \<Longrightarrow> ch_next_scheduled_handshake_update ch \<le> now \<Longrightarrow> pkt \<noteq> []"
    "ch_needs_handshake_ack ch \<Longrightarrow> ch_next_scheduled_handshake_update ch \<le> now \<Longrightarrow> pkt \<noteq> []"
    using conn st by (auto simp: Channel_conn_def Let_def split: if_splits)
qed

lemma and_0FFF: "unat (s :: u16) < 4096 \<Longrightarrow> s AND 0x0FFF = s"
proof -
  assume "unat s < 4096"
  have "s AND 0x0FFF = take_bit 12 s"
    by (simp add: take_bit_eq_mask mask_eq_decr_exp)
  also have "unat (take_bit 12 s) = unat s"
    using \<open>unat s < 4096\<close> by (simp only: unsigned_take_bit_eq) (simp add: take_bit_nat_eq_self)
  finally show ?thesis
    by (simp only: word_unat_eq_iff)
qed

lemma unat_window_size: "k \<le> 10 \<Longrightarrow> unat (push_bit k (1 :: u16)) \<le> 1024"
  using unat_of_nat_u16 [of "2 ^ k"] power_increasing [of k 10 "2 :: nat"] by simp

lemma hs_tx_connected:
  assumes "hs_tx L p q False t" "side_ok q"
  shows "hs_tx L p q True (TST_setConnected t (push_bit (sd_log2 q) 1) (sd_id p > sd_id q))"
  using assms Transmitter_setConnected_spec [of L t "push_bit (sd_log2 q) 1" "sd_id p > sd_id q"]
    unat_window_size [of "sd_log2 q"]
  by (simp add: hs_tx_def side_ok_def TST_setConnected_def Transmitter_setConnected_def SeqNum_plus_def)

lemma hs_rx_connected:
  assumes "hs_rx p q False r"
  shows "\<exists>r'. Receiver_setConnected r (sd_seq q) (sd_id p > sd_id q) = Some r' \<and> hs_rx p q True r'"
proof -
  have ok: "rcv_ok r" "cur_ok r" "used (rcv_in_ring r) = 0"
    using assms by (simp_all add: hs_rx_def)
  obtain r' where r': "Receiver_setConnected r (sd_seq q) (sd_id p > sd_id q) = Some r'" "rcv_inv r'" "rcv_slots r' = []"
    "rcv_state r' = R_kConnected" "rb_begin (rcv_in_ring r') = sd_seq q" "rcv_control_bit r' = (sd_id p > sd_id q)"
    "rcv_self_closed r' = rcv_self_closed r" "rcv_peer_closed r' = rcv_peer_closed r"
    "rcv_end_of_stream r' = rcv_end_of_stream r"
    using setConnected_spec [OF ok, of "sd_seq q" "sd_id p > sd_id q"] by blast
  have "rb_capacity_log2 (rcv_in_ring r') = rb_capacity_log2 (rcv_in_ring r)" "rcv_my_stream_id r' = rcv_my_stream_id r"
    using r'(1) by (auto simp: Receiver_setConnected_def CHECK_bind reset_eq split: if_splits)
  moreover have "used (rcv_in_ring r') = 0"
    using r'(3) by (simp flip: length_rcv_slots)
  ultimately show ?thesis
    using r' assms by (simp add: hs_rx_def rcv_inv_def)
qed

text \<open>The arrival of a packet of the peer.\<close>

lemma recv_end:
  assumes lib: "roo_lib L" and p: "side_ok p" and q: "side_ok q" and ne: "sd_id p \<noteq> sd_id q"
    and inv: "hs_end L p q ch" and ack: "ack \<in> {0, sd_id p}"
    and pkt: "pkt = handshake_packet L (sd_seq q) (sd_id q) ack want (sd_log2 q)"
  shows "\<exists>ch' effects. Channel_packetReceived L ch pkt = Some (ch', effects) \<and> hs_end L p q ch'
    \<and> ch_peer_stream_id ch' = sd_id q \<and> ch_needs_handshake_ack ch' = want
    \<and> ch_my_stream_id_acked_by_peer ch' = (ch_my_stream_id_acked_by_peer ch \<or> ack = sd_id p)"
proof -
  let ?n = "push_bit (sd_log2 q) 1 :: u16"
  have seq: "sd_seq q AND 0x0FFF = sd_seq q" and k: "sd_log2 q \<le> 10" and ids: "sd_id p \<noteq> 0" "sd_id q \<noteq> 0"
    using p q and_0FFF by (auto simp: side_ok_def)
  note parse = parse_handshake_packet [OF lib k, of "sd_seq q" "sd_id q" ack want, folded pkt, unfolded seq]
  have "\<exists>ch' ready effects. Channel_handleHandshakePacket L ch (sd_seq q) (sd_id q) ack want ?n = Some (ch', ready, effects)
    \<and> hs_end L p q ch' \<and> ch_peer_stream_id ch' = sd_id q \<and> ch_needs_handshake_ack ch' = want
    \<and> ch_my_stream_id_acked_by_peer ch' = (ch_my_stream_id_acked_by_peer ch \<or> ack = sd_id p)"
  proof (cases "ch_peer_stream_id ch = 0")
    case True
    then have st: "ch_my_stream_id ch = sd_id p" "\<not> ch_my_stream_id_acked_by_peer ch" "rcv_state (ch_receiver ch) = R_kConnecting"
      and tx: "hs_tx L p q False (ch_transmitter ch)" and rx: "hs_rx p q False (ch_receiver ch)"
      using inv ids by (auto simp: hs_end_def hs_rx_def)
    obtain r where r: "Receiver_setConnected (ch_receiver ch) (sd_seq q) (sd_id p > sd_id q) = Some r" "hs_rx p q True r"
      using hs_rx_connected [OF rx] by blast
    have "Receiver_empty (ch_receiver ch)"
      using rx by (simp add: hs_rx_def Receiver_empty_def empty_iff_used)
    then show ?thesis
      using st tx r hs_tx_connected [OF tx q] ne ids ack
      by (auto simp: Channel_handleHandshakePacket_def Channel_handshake_connecting_def my_control_bit_def
          CHECK_bind hs_end_def Let_def)
  next
    case False
    then have st: "ch_my_stream_id ch = sd_id p" "ch_peer_stream_id ch = sd_id q" "rcv_state (ch_receiver ch) = R_kConnected"
      using inv by (auto simp: hs_end_def hs_rx_def)
    then show ?thesis
      using inv ne ids ack hs_tx_connected [OF _ q, of L p "ch_transmitter ch"]
      by (auto simp: Channel_handleHandshakePacket_def Channel_handshake_connected_def my_control_bit_def
          CHECK_bind hs_end_def Let_def)
  qed
  then obtain ch' ready effects where "Channel_handleHandshakePacket L ch (sd_seq q) (sd_id q) ack want ?n = Some (ch', ready, effects)"
    "hs_end L p q ch'" "ch_peer_stream_id ch' = sd_id q" "ch_needs_handshake_ack ch' = want"
    "ch_my_stream_id_acked_by_peer ch' = (ch_my_stream_id_acked_by_peer ch \<or> ack = sd_id p)"
    by blast
  then show ?thesis
    using parse by (simp add: Channel_packetReceived_def Let_def kMaxPacketSize_def hs_end_def)
qed

text \<open>A channel that has been created and connected.\<close>

lemma connect_end:
  assumes new: "Channel_new L n m i c = Some ch" and connect: "Channel_connect L ch f draws = Some (ch', x, e)"
  shows "\<exists>p. side_ok p \<and> sd_id p = ch_my_stream_id ch' \<and> \<not> ch_my_stream_id_acked_by_peer ch' \<and> (\<forall>q. hs_end L p q ch')"
proof -
  obtain t r where ch: "Transmitter_new L (unat n) i = Some t" "Receiver_new L (unat m) c = Some r"
    "ch_transmitter ch = t" "ch_receiver ch = r"
    using new by (auto simp: Channel_new_def ValidateBufferSizes_def CHECK_bind bind_eq_Some_conv split: if_splits)
  obtain y rest where y: "pick_stream_id draws = Some (y, rest)"
    using connect by (cases "pick_stream_id draws") (auto simp: Channel_connect_def Let_def)
  obtain d draws' where rest: "rest = d # draws'"
    using connect y by (cases rest) (auto simp: Channel_connect_def Let_def)
  define s :: SeqNum where "s = ucast (d mod 0x0FFF)"
  have pick: "pick_stream_id draws = Some (x, d # draws')"
    using connect y rest by (auto simp: Channel_connect_def Let_def bind_eq_Some_conv)
  have x: "x \<noteq> 0"
    using pick by (induction draws) (auto split: if_splits)
  have rok: "rcv_ok r" "rcv_current_in_buffer r = None"
    using Receiver_new_inv(1) [OF ch(2)] ch(2) by (auto simp: rcv_inv_def Receiver_new_def bind_eq_Some_conv)
  obtain t' where t': "Transmitter_init t x s = Some t'" "tx_inv L t'" "tx_state t' = T_kConnecting"
    "rb_begin (tx_out_ring t') = s" "used (tx_out_ring t') = 0" "\<not> tx_end_of_stream t'" "tx_next_to_send t' = s"
    using Transmitter_init_spec [OF Transmitter_new_ok(1) [OF ch(1)], of x s L] by blast
  obtain r' where r': "Receiver_init r x = Some r'" "rcv_ok r'" "rcv_state r' = R_kConnecting" "used (rcv_in_ring r') = 0"
    "rcv_current_in_buffer r' = None" "\<not> rcv_self_closed r'" "\<not> rcv_peer_closed r'" "\<not> rcv_end_of_stream r'"
    using init_spec [OF rok(1), of x] rok(2) by metis
  have ids: "tx_my_stream_id t' = x" "rcv_my_stream_id r' = x"
    using t'(1) r'(1) by (auto simp: Transmitter_init_def Receiver_init_def bind_eq_Some_conv)
  let ?p = "\<lparr>sd_id = x, sd_seq = s, sd_log2 = rb_capacity_log2 (rcv_in_ring r')\<rparr>"
  have ch': "ch_transmitter ch' = t'" "ch_receiver ch' = r'" "ch_my_stream_id ch' = x" "ch_peer_stream_id ch' = 0"
    "\<not> ch_my_stream_id_acked_by_peer ch'"
    using connect ch pick t'(1) [unfolded s_def] r'(1)
    by (auto simp: Channel_connect_def TST_init_def TSR_init_def Channel_notify_def Let_def)
  have "hs_end L ?p q ch'" for q
    using t' r' ids by (simp add: ch' hs_end_def hs_tx_def hs_rx_def cur_ok_def)
  moreover have "unat s < 4096"
    by (simp add: s_def unsigned_ucast_eq unat_mod_distrib take_bit_eq_mod)
  then have "side_ok ?p"
    using x r'(2) by (simp add: side_ok_def rcv_ok_def ring_ok_def kMaxLinkBufferSizeLog2_def)
  ultimately show ?thesis
    using ch'(3, 5) by (intro exI [of _ ?p]) simp
qed

section \<open>Both sides\<close>

text \<open>
  A packet in flight acknowledges a stream only if its sender has met it, and a side knows that
  its stream is acknowledged only if the other side has met it.
\<close>

definition hs_wire :: "lib \<Rightarrow> side \<Rightarrow> side \<Rightarrow> u32 \<Rightarrow> byte list list \<Rightarrow> bool" where
  "hs_wire L p q met pkts \<longleftrightarrow> (\<forall>pkt \<in> set pkts. \<exists>ack want. ack \<in> {0, sd_id q} \<and> (ack = sd_id q \<longrightarrow> met = sd_id q)
     \<and> pkt = handshake_packet L (sd_seq p) (sd_id p) ack want (sd_log2 p))"

definition hs_inv :: "lib \<Rightarrow> side \<Rightarrow> side \<Rightarrow> handshake \<Rightarrow> bool" where
  "hs_inv L p q s \<longleftrightarrow> side_ok p \<and> side_ok q \<and> sd_id p \<noteq> sd_id q
     \<and> hs_end L p q (hs_a s) \<and> hs_end L q p (hs_b s)
     \<and> hs_wire L p q (ch_peer_stream_id (hs_a s)) (hs_ab s) \<and> hs_wire L q p (ch_peer_stream_id (hs_b s)) (hs_ba s)
     \<and> (ch_my_stream_id_acked_by_peer (hs_a s) \<longrightarrow> ch_peer_stream_id (hs_b s) = sd_id p)
     \<and> (ch_my_stream_id_acked_by_peer (hs_b s) \<longrightarrow> ch_peer_stream_id (hs_a s) = sd_id q)"

definition hs_swap :: "handshake \<Rightarrow> handshake" where
  "hs_swap s = \<lparr>hs_a = hs_b s, hs_b = hs_a s, hs_ab = hs_ba s, hs_ba = hs_ab s\<rparr>"

lemma hs_swap_simps [simp]:
  "hs_a (hs_swap s) = hs_b s" "hs_b (hs_swap s) = hs_a s" "hs_ab (hs_swap s) = hs_ba s" "hs_ba (hs_swap s) = hs_ab s"
  "hs_swap (hs_swap s) = s"
  by (simp_all add: hs_swap_def)

lemma hs_inv_swap: "hs_inv L p q s \<Longrightarrow> hs_inv L q p (hs_swap s)"
  unfolding hs_inv_def by (elim conjE) (simp add: eq_commute)

lemma hs_swap_updates:
  "hs_swap (s\<lparr>hs_a := c, hs_ab := w\<rparr>) = (hs_swap s)\<lparr>hs_b := c, hs_ba := w\<rparr>"
  "hs_swap (s\<lparr>hs_b := c, hs_ba := w\<rparr>) = (hs_swap s)\<lparr>hs_a := c, hs_ab := w\<rparr>"
  "hs_swap (s\<lparr>hs_a := c\<rparr>) = (hs_swap s)\<lparr>hs_b := c\<rparr>" "hs_swap (s\<lparr>hs_b := c\<rparr>) = (hs_swap s)\<lparr>hs_a := c\<rparr>"
  by (simp_all add: hs_swap_def)

lemma hs_step_swap: "hs_step L s s' \<Longrightarrow> hs_step L (hs_swap s) (hs_swap s')"
  by (cases rule: hs_step.cases, assumption)
    (auto simp: hs_swap_updates intro: hs_step.intros
      hs_step.send_a [of L "hs_swap s", simplified] hs_step.send_b [of L "hs_swap s", simplified]
      hs_step.recv_a [of _ "hs_swap s", simplified] hs_step.recv_b [of _ "hs_swap s", simplified])

lemma hs_inv_send:
  assumes inv: "hs_inv L p q s" and conn: "Channel_conn L (hs_a s) now draw n = (a, pkt, n')"
  shows "hs_inv L p q (s\<lparr>hs_a := a, hs_ab := hs_ab s @ sent_packet pkt\<rparr>)"
proof -
  have "hs_end L p q (hs_a s)"
    using inv by (simp add: hs_inv_def)
  note c = conn_end [OF this conn]
  have "ch_peer_stream_id (hs_a s) \<in> {0, sd_id q}"
    using inv by (simp add: hs_inv_def hs_end_def)
  then have "hs_wire L p q (ch_peer_stream_id (hs_a s)) (sent_packet pkt)"
    using c(4) by (auto simp: hs_wire_def sent_packet_def)
  then show ?thesis
    using inv c(1-3) by (auto simp: hs_inv_def hs_wire_def)
qed

lemma hs_wire_met: "hs_wire L p q met pkts \<Longrightarrow> met = 0 \<or> met = sd_id q \<Longrightarrow> sd_id q \<noteq> 0 \<Longrightarrow> hs_wire L p q (sd_id q) pkts"
  unfolding hs_wire_def by blast

lemma hs_inv_recv:
  assumes lib: "roo_lib L" and inv: "hs_inv L p q s" and pkt: "pkt \<in> set (hs_ba s)"
  shows "\<exists>a effects. Channel_packetReceived L (hs_a s) pkt = Some (a, effects) \<and> hs_inv L p q (s\<lparr>hs_a := a\<rparr>)
    \<and> (ch_my_stream_id_acked_by_peer (hs_a s) \<longrightarrow> ch_my_stream_id_acked_by_peer a)"
proof -
  have ok: "side_ok p" "side_ok q" "sd_id p \<noteq> sd_id q" "hs_end L p q (hs_a s)"
    using inv by (simp_all add: hs_inv_def)
  obtain ack want where k: "ack \<in> {0, sd_id p}" "ack = sd_id p \<longrightarrow> ch_peer_stream_id (hs_b s) = sd_id p"
    "pkt = handshake_packet L (sd_seq q) (sd_id q) ack want (sd_log2 q)"
    using inv pkt by (fastforce simp: hs_inv_def hs_wire_def)
  obtain a effects where a: "Channel_packetReceived L (hs_a s) pkt = Some (a, effects)" "hs_end L p q a"
    "ch_peer_stream_id a = sd_id q" "ch_my_stream_id_acked_by_peer a = (ch_my_stream_id_acked_by_peer (hs_a s) \<or> ack = sd_id p)"
    using recv_end [OF lib ok k(1, 3)] by blast
  have "hs_wire L p q (sd_id q) (hs_ab s)"
    using inv by (intro hs_wire_met [of L p q "ch_peer_stream_id (hs_a s)"]) (auto simp: hs_inv_def hs_end_def side_ok_def)
  then show ?thesis
    using a inv k(2) by (auto simp: hs_inv_def)
qed

lemma hs_inv_step:
  assumes lib: "roo_lib L" and step: "hs_step L s s'" and inv: "hs_inv L p q s"
  shows "hs_inv L p q s'"
  using step
proof cases
  case (send_a now draw n a pkt n')
  then show ?thesis
    using hs_inv_send [OF inv] by blast
next
  case (send_b now draw n b pkt n')
  then show ?thesis
    using hs_inv_swap [OF hs_inv_send [OF hs_inv_swap [OF inv]], of now draw n b pkt n'] by (simp add: hs_swap_updates)
next
  case (recv_a pkt a effects)
  then show ?thesis
    using hs_inv_recv [OF lib inv, of pkt] by auto
next
  case (recv_b pkt b effects)
  then have "hs_inv L q p ((hs_swap s)\<lparr>hs_a := b\<rparr>)"
    using hs_inv_recv [OF lib hs_inv_swap [OF inv], of pkt] by auto
  then show ?thesis
    using hs_inv_swap [of L q p "(hs_swap s)\<lparr>hs_a := b\<rparr>"] recv_b by (simp add: hs_swap_updates)
qed

lemma hs_inv_start:
  assumes "hs_start L s"
  shows "\<exists>p q. hs_inv L p q s"
proof -
  obtain p q where "side_ok p" "sd_id p = ch_my_stream_id (hs_a s)" "\<forall>q. hs_end L p q (hs_a s)"
    "side_ok q" "sd_id q = ch_my_stream_id (hs_b s)" "\<forall>p. hs_end L q p (hs_b s)"
    "\<not> ch_my_stream_id_acked_by_peer (hs_a s)" "\<not> ch_my_stream_id_acked_by_peer (hs_b s)"
    using assms connect_end unfolding hs_start_def by meson
  then have "hs_inv L p q s"
    using assms by (simp add: hs_inv_def hs_start_def hs_wire_def)
  then show ?thesis
    by blast
qed

lemma hs_reachable_inv:
  assumes "roo_lib L" "hs_reachable L s"
  shows "\<exists>p q. hs_inv L p q s"
  using assms(2) by induction (use assms(1) hs_inv_start hs_inv_step in blast)+

text \<open>
  A side that knows its stream acknowledged can send: its transmitter and the receiver of the
  other side form a link in its initial state.
\<close>

definition hs_link :: "Channel \<Rightarrow> Channel \<Rightarrow> link" where
  "hs_link a b = \<lparr>lk_tx = ch_transmitter a, lk_rx = ch_receiver b, lk_data = [], lk_ctl = [], lk_written = [], lk_read = []\<rparr>"

lemma hs_inv_link:
  assumes "hs_inv L p q s" "ch_my_stream_id_acked_by_peer (hs_a s)"
  shows "link_start L (hs_link (hs_a s) (hs_b s))"
proof -
  have "hs_tx L p q True (ch_transmitter (hs_a s))" "hs_rx q p True (ch_receiver (hs_b s))" "sd_id p \<noteq> sd_id q"
    using assms by (auto simp: hs_inv_def hs_end_def side_ok_def)
  then show ?thesis
    by (auto simp: hs_tx_def hs_rx_def link_start_def hs_link_def)
qed

section \<open>Completion\<close>

lemma sent_packet_simps [simp]: "sent_packet [] = []" "pkt \<noteq> [] \<Longrightarrow> sent_packet pkt = [pkt]"
  by (simp_all add: sent_packet_def)

lemma hs_complete_a:
  assumes lib: "roo_lib L" and inv: "hs_inv L p q s"
  shows "\<exists>s'. (hs_step L)\<^sup>*\<^sup>* s s' \<and> hs_inv L p q s' \<and> ch_my_stream_id_acked_by_peer (hs_a s')
    \<and> (ch_my_stream_id_acked_by_peer (hs_b s) \<longrightarrow> ch_my_stream_id_acked_by_peer (hs_b s'))"
proof (cases "ch_my_stream_id_acked_by_peer (hs_a s)")
  case False
  have ok: "side_ok p" "side_ok q" "sd_id p \<noteq> sd_id q" "hs_end L p q (hs_a s)"
    using inv by (simp_all add: hs_inv_def)
  obtain a pkt n' where conn: "Channel_conn L (hs_a s) (ch_next_scheduled_handshake_update (hs_a s)) 0 0 = (a, pkt, n')"
    by (metis prod_cases3)
  note c = conn_end [OF ok(4) conn]
  have pkt: "pkt \<noteq> []" "pkt = handshake_packet L (sd_seq p) (sd_id p) (ch_peer_stream_id (hs_a s)) True (sd_log2 p)"
    using c(4, 5) False by auto
  let ?s1 = "s\<lparr>hs_a := a, hs_ab := hs_ab s @ sent_packet pkt\<rparr>"
  have s1: "hs_step L s ?s1" "hs_inv L p q ?s1"
    using send_a [OF conn] hs_inv_send [OF inv conn] by blast+
  then have b: "hs_end L q p (hs_b s)" "ch_peer_stream_id (hs_a s) \<in> {0, sd_id q}"
    using ok(4) by (simp_all add: hs_inv_def hs_end_def)
  obtain b effects where rb: "Channel_packetReceived L (hs_b s) pkt = Some (b, effects)" "ch_needs_handshake_ack b"
    "ch_my_stream_id_acked_by_peer (hs_b s) \<longrightarrow> ch_my_stream_id_acked_by_peer b" "ch_peer_stream_id b = sd_id p"
    using recv_end [OF lib ok(2, 1) ok(3) [symmetric] b pkt(2)] by blast
  let ?s2 = "?s1\<lparr>hs_b := b\<rparr>"
  have "hs_step L ?s1 ?s2"
    by (rule recv_b [of pkt _ L b effects]) (use pkt(1) rb(1) in simp_all)
  then have s2: "hs_step L ?s1 ?s2" "hs_inv L p q ?s2"
    using hs_inv_step [OF lib _ s1(2)] by blast+
  then have b2: "hs_end L q p b"
    by (simp add: hs_inv_def)
  obtain b' pkt' n'' where conn': "Channel_conn L b (ch_next_scheduled_handshake_update b) 0 0 = (b', pkt', n'')"
    by (metis prod_cases3)
  note c' = conn_end [OF b2 conn']
  have pkt': "pkt' \<noteq> []" "pkt' = handshake_packet L (sd_seq q) (sd_id q) (sd_id p)
      (\<not> ch_my_stream_id_acked_by_peer b) (sd_log2 q)"
    using c'(4, 6) rb by auto
  let ?s3 = "?s2\<lparr>hs_b := b', hs_ba := hs_ba s @ sent_packet pkt'\<rparr>"
  have "hs_step L ?s2 ?s3"
    using send_b [of L ?s2, simplified, OF conn'] by simp
  then have s3: "hs_step L ?s2 ?s3" "hs_inv L p q ?s3"
    using hs_inv_step [OF lib _ s2(2)] by blast+
  have a3: "hs_end L p q a" "sd_id p \<in> {0, sd_id p}"
    using s3(2) by (simp_all add: hs_inv_def)
  obtain a' effects' where ra: "Channel_packetReceived L a pkt' = Some (a', effects')" "ch_my_stream_id_acked_by_peer a'"
    using recv_end [OF lib ok(1-3) a3 pkt'(2)] by blast
  let ?s4 = "?s3\<lparr>hs_a := a'\<rparr>"
  have "hs_step L ?s3 ?s4"
    by (rule recv_a [of pkt' _ L a' effects']) (use pkt'(1) ra(1) in simp_all)
  then have "(hs_step L)\<^sup>*\<^sup>* s ?s4" "hs_inv L p q ?s4"
    using s1(1) s2(1) s3 hs_inv_step [OF lib] by (meson converse_rtranclp_into_rtranclp rtranclp.rtrancl_refl, blast)
  then show ?thesis
    using ra(2) rb(3) c'(3) by (intro exI [of _ ?s4]) simp
qed (use inv in blast)

lemma hs_steps_swap: "(hs_step L)\<^sup>*\<^sup>* s s' \<Longrightarrow> (hs_step L)\<^sup>*\<^sup>* (hs_swap s) (hs_swap s')"
  by (induction rule: rtranclp_induct) (auto intro: hs_step_swap rtranclp.rtrancl_into_rtrancl)

lemma hs_complete:
  assumes lib: "roo_lib L" and inv: "hs_inv L p q s"
  shows "\<exists>s'. (hs_step L)\<^sup>*\<^sup>* s s' \<and> hs_inv L p q s' \<and> ch_my_stream_id_acked_by_peer (hs_a s')
    \<and> ch_my_stream_id_acked_by_peer (hs_b s')"
proof -
  obtain s1 where s1: "(hs_step L)\<^sup>*\<^sup>* s s1" "hs_inv L p q s1" "ch_my_stream_id_acked_by_peer (hs_a s1)"
    using hs_complete_a [OF assms] by blast
  obtain s2 where s2: "(hs_step L)\<^sup>*\<^sup>* (hs_swap s1) s2" "hs_inv L q p s2" "ch_my_stream_id_acked_by_peer (hs_a s2)"
    "ch_my_stream_id_acked_by_peer (hs_b s2)"
    using hs_complete_a [OF lib hs_inv_swap [OF s1(2)]] s1(3) by auto
  show ?thesis
    using rtranclp_trans [OF s1(1)] hs_steps_swap [OF s2(1)] hs_inv_swap [OF s2(2)] s2(3, 4)
    by (intro exI [of _ "hs_swap s2"]) simp
qed

end
