(* ===== verification/Channel_Session.thy ===== *)
theory Channel_Session
  imports Channel_Proof
begin

text \<open>
  Sessions on a channel: connecting, disconnecting, sending, and how the dispatch of received
  packets relates to the two halves of the link model.
\<close>

section \<open>Dispatch\<close>

text \<open>
  Data packets go to the receiver and control packets to the transmitter, exactly as in the
  steps of the link model; the other half is not touched.
\<close>

lemma dispatch_data:
  assumes "2 \<le> length buf" "length buf \<le> kMaxPacketSize"
    and "GetPacketType (LoadBeU16 L buf) \<in> {kDataPacket, kFinPacket}"
    and data: "Channel_dataReceived L (ch_receiver ch) buf = Some (r, ready, new)"
  shows "Channel_packetReceived L ch buf = Some (Channel_notify (ch\<lparr>ch_receiver := r\<rparr>) ready, [])"
proof (cases "GetPacketType (LoadBeU16 L buf) = kDataPacket \<and> length buf = 2")
  case True
  then have "r = ch_receiver ch" "\<not> ready"
    using data by (simp_all add: Channel_dataReceived_def)
  then show ?thesis
    using True by (simp add: Channel_packetReceived_def Channel_notify_def kMaxPacketSize_def)
next
  case False
  then have h: "Receiver_handleDataPacket (ch_receiver ch) (GetPacketControlBit (LoadBeU16 L buf))
      (LoadBeU16 L buf AND 0x0FFF) (drop 2 buf) (GetPacketType (LoadBeU16 L buf) = kFinPacket) = Some (r, ready, new)"
    using data by (simp add: Channel_dataReceived_def Let_def split: if_splits)
  then have "\<exists>cvs. TSR_handleDataPacket (ch_receiver ch) (GetPacketControlBit (LoadBeU16 L buf))
      (LoadBeU16 L buf AND 0x0FFF) (drop 2 buf) (GetPacketType (LoadBeU16 L buf) = kFinPacket) = Some (r, ready, cvs)"
    by (simp add: TSR_handleDataPacket_def)
  then show ?thesis
    using assms(1-3) False by (auto simp: Channel_packetReceived_def Let_def)
qed

lemma dispatch_control:
  assumes "2 \<le> length buf" "length buf \<le> kMaxPacketSize"
    and "GetPacketType (LoadBeU16 L buf) \<in> {kDataAckPacket, kFlowControlPacket}"
    and ctl: "Channel_controlReceived L (ch_transmitter ch) buf = Some (t, ready)"
  shows "Channel_packetReceived L ch buf = Some (Channel_notify (ch\<lparr>ch_transmitter := t\<rparr>) ready, [])"
proof (cases "GetPacketType (LoadBeU16 L buf) = kDataAckPacket")
  case True
  then show ?thesis
    using assms(1, 2) ctl by (simp add: Channel_packetReceived_def Channel_controlReceived_def TST_ack_def Let_def)
next
  case False
  then have ty: "GetPacketType (LoadBeU16 L buf) = kFlowControlPacket"
    using assms(3) by simp
  then have "\<not> ready"
    using ctl by (simp add: Channel_controlReceived_def Let_def split: if_splits)
  then show ?thesis
    using ty assms(1, 2) ctl
    by (simp add: Channel_packetReceived_def Channel_controlReceived_def TST_updateRecvHimark_def Channel_notify_def Let_def
        case_prod_unfold split: if_splits)
qed

section \<open>Connecting and disconnecting\<close>

lemma pick_nonzero: "pick_stream_id draws = Some (x, rest) \<Longrightarrow> x \<noteq> 0"
  by (induction draws) (auto split: if_splits)

lemma Channel_new_ok:
  assumes "Channel_new L n m i c = Some ch"
  shows "ch_ok ch" "\<And>x. x \<noteq> 0 \<Longrightarrow> Channel_getLinkStatusInternal ch x = Link_kBroken"
proof -
  obtain t r where ch: "Transmitter_new L (unat n) i = Some t" "Receiver_new L (unat m) c = Some r"
    "ch_transmitter ch = t" "ch_receiver ch = r" "ch_my_stream_id ch = 0"
    using assms by (auto simp: Channel_new_def ValidateBufferSizes_def CHECK_bind bind_eq_Some_conv split: if_splits)
  then show "ch_ok ch"
    using Transmitter_new_ok(1) [OF ch(1)] Receiver_new_inv(1, 3) [OF ch(2)] by (simp add: ch_ok_def rcv_inv_def)
  show "\<And>x. x \<noteq> 0 \<Longrightarrow> Channel_getLinkStatusInternal ch x = Link_kBroken"
    by (simp add: Channel_getLinkStatusInternal_def ch(5))
qed

lemma connect_ok:
  assumes ok: "ch_ok ch" and draws: "d \<noteq> 0"
  shows "\<exists>ch'. Channel_connect L ch f (replicate k 0 @ d # s # draws) = Some (ch', d,
      connected_cv # (case ch_disconnect_fn ch of None \<Rightarrow> [] | Some g \<Rightarrow> [invoke g]))
    \<and> ch_ok ch' \<and> ch_my_stream_id ch' = d \<and> ch_disconnect_fn ch' = f \<and> ch_outgoing_data_ready ch'
    \<and> Channel_getLinkStatusInternal ch' d = Link_kConnecting
    \<and> (\<forall>x. x \<noteq> 0 \<and> x \<noteq> d \<longrightarrow> Channel_getLinkStatusInternal ch' x = Link_kBroken)"
proof -
  have pick: "pick_stream_id (replicate k 0 @ d # s # draws) = Some (d, s # draws)"
    using draws by (induction k) simp_all
  obtain t where t: "Transmitter_init (ch_transmitter ch) d (ucast (s mod 0x0FFF)) = Some t" "tx_inv L t"
    using Transmitter_init_spec [of "ch_transmitter ch" d _ L] ok unfolding ch_ok_def by blast
  obtain r where r: "Receiver_init (ch_receiver ch) d = Some r" "rcv_ok r" "used (rcv_in_ring r) = 0"
    using init_spec [of "ch_receiver ch" d] ok unfolding ch_ok_def by blast
  show ?thesis
    using t r draws by (simp add: Channel_connect_def pick TST_init_def TSR_init_def Let_def Channel_notify_def
        Notification_notify_def ch_ok_def tx_inv_def Channel_getLinkStatusInternal_def)
qed

lemma disconnect_ok:
  assumes ok: "ch_ok ch"
  shows "\<exists>ch'. Channel_disconnect L ch (ch_my_stream_id ch) = Some (ch',
      connected_cv # (case ch_disconnect_fn ch of None \<Rightarrow> [] | Some g \<Rightarrow> [invoke g]))
    \<and> ch_ok ch' \<and> ch_my_stream_id ch' = 0 \<and> ch_disconnect_fn ch' = None
    \<and> (\<forall>x. x \<noteq> 0 \<longrightarrow> Channel_getLinkStatusInternal ch' x = Link_kBroken
        \<and> Channel_disconnect L ch' x = Some (ch', []))"
proof -
  obtain t where t: "Transmitter_reset (ch_transmitter ch) = Some t" "tx_ok t"
    using Transmitter_reset_spec [of "ch_transmitter ch"] ok unfolding ch_ok_def by blast
  obtain r where r: "Receiver_reset L (ch_receiver ch) = Some r" "rcv_ok r" "used (rcv_in_ring r) = 0"
    using reset_spec [of "ch_receiver ch" L] ok unfolding ch_ok_def by blast
  show ?thesis
    using t r by (auto simp: Channel_disconnect_def TST_reset_def TSR_reset_def Let_def Channel_notify_def
        Notification_notify_def ch_ok_def Channel_getLinkStatusInternal_def)
qed

section \<open>Sending\<close>

lemma length_send:
  assumes "tx_ok t"
  shows "length (fst (snd (Transmitter_send L t now draw n))) \<le> 250"
proof -
  obtain t' s n' where g: "Transmitter_getBufferToSend L t now draw n = (t', s, n')"
    by (metis prod_cases3)
  have "t' = fst (Transmitter_send L t now draw n)"
    by (simp add: Transmitter_send_def g split: option.splits)
  then have ok: "tx_ok t'"
    using tx_same_ok [OF send_same assms] by simp
  have "length (ob_payload (Transmitter_getOutBuffer t' x)) = 250" for x
    using ok slot_less [of "tx_out_ring t'" "tx_out_buffers t'" x]
    by (auto simp: tx_ok_def Transmitter_getOutBuffer_def)
  then show ?thesis
    by (simp add: Transmitter_send_def g ob_packet_def split: option.splits)
qed

lemma burst_ok:
  assumes "tx_ok t" "Channel_burst k L t env n = (t', pkts, n')"
  shows "tx_ok t' \<and> length pkts \<le> k \<and> (\<forall>p \<in> set pkts. p \<noteq> [] \<and> length p \<le> 250)"
  using assms
proof (induction k arbitrary: t n t' pkts n')
  case (Suc k)
  obtain t1 pkt n1 where s: "Transmitter_send L t (fst (env k)) (snd (env k)) n = (t1, pkt, n1)"
    by (metis prod_cases3)
  have t1: "tx_ok t1" "length pkt \<le> 250"
    using tx_same_ok [OF send_same Suc.prems(1)] length_send [OF Suc.prems(1)] s by (metis fst_conv snd_conv)+
  obtain t2 ps n2 where b: "Channel_burst k L t1 env n1 = (t2, ps, n2)"
    by (metis prod_cases3)
  show ?case
    using Suc.prems(2) s b Suc.IH [OF t1(1) b] t1 by (auto simp: TST_send_eq split: if_splits)
qed simp

lemma length_strip: "length (strip_trailing_zeros bs) \<le> length bs"
  using length_dropWhile_le [of "\<lambda>b. b = 0" "rev bs"] by (simp add: strip_trailing_zeros_def)

lemma control_packets_ok:
  assumes lib: "roo_lib L" and ok: "rcv_ok r"
  shows "rcv_ok (fst (Receiver_ack L r))" "length (snd (Receiver_ack L r)) \<le> 10"
    "rcv_state (fst (Receiver_ack L r)) = rcv_state r" "rcv_in_ring (fst (Receiver_ack L r)) = rcv_in_ring r"
    "Receiver_updateRecvHimark L r now n = (r', pkt, n') \<Longrightarrow> rcv_ok r' \<and> length pkt \<le> 2
      \<and> rcv_state r' = rcv_state r \<and> rcv_in_ring r' = rcv_in_ring r"
proof -
  note len = roo_lib.length_StoreBeU16 [OF lib] roo_lib.length_StoreBeU64 [OF lib]
  show "rcv_ok (fst (Receiver_ack L r))" "rcv_state (fst (Receiver_ack L r)) = rcv_state r"
    "rcv_in_ring (fst (Receiver_ack L r)) = rcv_in_ring r"
    using ok by (simp_all add: Receiver_ack_def Let_def rcv_ok_def)
  show "length (snd (Receiver_ack L r)) \<le> 10"
    using length_strip [of "StoreBeU16 L x @ StoreBeU64 L y" for x y]
    by (auto simp: Receiver_ack_def Let_def len)
  show "Receiver_updateRecvHimark L r now n = (r', pkt, n') \<Longrightarrow> rcv_ok r' \<and> length pkt \<le> 2
      \<and> rcv_state r' = rcv_state r \<and> rcv_in_ring r' = rcv_in_ring r"
    using ok by (auto simp: Receiver_updateRecvHimark_def Let_def rcv_ok_def len split: if_splits)
qed

lemma conn_packet:
  assumes lib: "roo_lib L" and conn: "Channel_conn L ch now draw n = (ch', pkt, n')"
  shows "ch_transmitter ch' = ch_transmitter ch" "ch_receiver ch' = ch_receiver ch" "pkt = [] \<or> length pkt = 11"
    "tx_state (ch_transmitter ch) = T_kConnecting \<Longrightarrow> now < ch_next_scheduled_handshake_update ch \<Longrightarrow>
      pkt = [] \<and> n' \<le> ch_next_scheduled_handshake_update ch - now"
  using conn roo_lib.length_StoreBeU16 [OF lib] roo_lib.length_StoreBeU32 [OF lib]
  by (auto simp: Channel_conn_def Let_def split: if_splits)

text \<open>
  What one pass of the sender loop puts on the wire: packets of at most \<open>kMaxPacketSize\<close> bytes, at
  most eleven of them, and nothing but a handshake packet while the stream is being connected.
\<close>

lemma trySend_ok:
  assumes lib: "roo_lib L" and ok: "ch_ok ch" and send: "Channel_trySend L ch env = (ch', pkts, delay)"
  shows "ch_ok ch'" "length pkts \<le> 11" "\<forall>p \<in> set pkts. p \<noteq> [] \<and> length p \<le> kMaxPacketSize"
    "tx_state (ch_transmitter ch) = T_kConnecting \<Longrightarrow> length pkts \<le> 1 \<and> (\<forall>p \<in> set pkts. length p = 11)"
proof -
  obtain ch1 pkt1 n1 where conn: "Channel_conn L ch (fst (env 0)) (snd (env 0)) (LONG_MAX L) = (ch1, pkt1, n1)"
    by (metis prod_cases3)
  note c = conn_packet [OF lib conn]
  have tx: "tx_ok (ch_transmitter ch)" and rx: "rcv_ok (ch_receiver ch)"
    using ok by (simp_all add: ch_ok_def)
  obtain r2 pkt2 where ack: "Receiver_ack L (ch_receiver ch) = (r2, pkt2)"
    by fastforce
  note a = control_packets_ok(1-4) [OF lib rx, unfolded ack fst_conv snd_conv]
  obtain r3 pkt3 n3 where him: "Receiver_updateRecvHimark L r2 (fst (env 1)) n1 = (r3, pkt3, n3)"
    by (metis prod_cases3)
  note h = control_packets_ok(5) [OF lib a(1) him]
  obtain t ps n4 where burst: "Channel_burst kMaxDataPacketsPerBurst L (ch_transmitter ch) (\<lambda>i. env (i + 2)) n3 = (t, ps, n4)"
    by (metis prod_cases3)
  note b = burst_ok [OF tx burst]
  have sp: "\<forall>x \<in> set (sent_packet p). x \<noteq> [] \<and> length x \<le> 250" if "length p \<le> 250" for p
    using that by (simp add: sent_packet_def)
  have sl: "length (sent_packet p) \<le> 1" for p
    by (simp add: sent_packet_def)
  have l: "length pkt1 \<le> 250" "length pkt2 \<le> 250" "length pkt3 \<le> 250"
    using c(3) a(2) h by auto
  have eq: "(ch', pkts) = (if tx_state (ch_transmitter ch) = T_kConnecting then (ch1, sent_packet pkt1)
      else (ch1\<lparr>ch_receiver := r3, ch_transmitter := t\<rparr>, sent_packet pkt1 @ sent_packet pkt2 @ sent_packet pkt3 @ ps))"
    using send c(1, 2) by (simp add: Channel_trySend_def conn ack him burst del: One_nat_def add_2_eq_Suc' split: if_splits)
  show "ch_ok ch'"
    using eq ok c(1, 2) a(3, 4) h conjunct1 [OF b] by (auto simp: ch_ok_def split: if_splits)
  show "length pkts \<le> 11"
    using eq sl [of pkt1] sl [of pkt2] sl [of pkt3] b by (simp add: kMaxDataPacketsPerBurst_def split: if_splits)
  have "\<forall>x \<in> set pkts. x \<noteq> [] \<and> length x \<le> 250"
    using eq sp [OF l(1)] sp [OF l(2)] sp [OF l(3)] b by (auto split: if_splits)
  then show "\<forall>p \<in> set pkts. p \<noteq> [] \<and> length p \<le> kMaxPacketSize"
    by (simp add: kMaxPacketSize_def)
  show "tx_state (ch_transmitter ch) = T_kConnecting \<Longrightarrow> length pkts \<le> 1 \<and> (\<forall>p \<in> set pkts. length p = 11)"
    using eq c(3) by (auto simp: sent_packet_def)
qed

section \<open>Closing\<close>

text \<open>While \<open>close\<close> waits for the acknowledgements, the sender thread has not been notified.\<close>

lemma close_silent:
  assumes "Channel_close L ch sid = Some (ch', Blocked)"
  shows "ch_outgoing_data_ready ch' = ch_outgoing_data_ready ch"
proof -
  obtain t ready res where "TST_close L (ch_transmitter ch) sid = Some (t, ready, res)"
    using assms by (auto simp: Channel_close_def bind_eq_Some_conv)
  then show ?thesis
    using assms by (cases res) (auto simp: Channel_close_def Let_def)
qed

end
