(* ===== verification/Channel_Life.thy ===== *)
theory Channel_Life
  imports Channel_Session
begin

text \<open>
  The life of a channel: any sequence of calls by applications and threads and of packets from the
  wire, in any order and with any arguments. A channel stays well formed (\<open>ch_ok\<close>) throughout.
\<close>

section \<open>Writing\<close>

lemma write_payload:
  assumes "OutBuffer_write L b buf = Some (b', n)" "length (ob_payload b) = 250"
  shows "length (ob_payload b') = 250"
  using assms by (auto simp: OutBuffer_write_def CHECK_bind Let_def split: if_splits)

lemma write_ok:
  assumes "OutBuffer_write L b buf = Some (b', n)" "ob_ok b"
  shows "ob_ok b'"
proof (cases "ob_finished b")
  case False
  then obtain c where "OutBuffer_write L b buf = Some (c, min (length buf) (248 - unat (ob_size b)))" "ob_ok c"
    using OutBuffer_write_spec [OF assms(2)] by metis
  then show ?thesis
    using assms(1) by simp
qed (use assms in simp)

lemma tx_ok_update:
  assumes ok: "tx_ok t" and b: "length (ob_payload b) = 250" "i < length (tx_out_buffers t) \<Longrightarrow> ob_ok (tx_out_buffers t ! i) \<Longrightarrow> ob_ok b"
  shows "tx_ok (t\<lparr>tx_out_buffers := (tx_out_buffers t)[i := b], tx_current_out_buffer := c\<rparr>)"
proof -
  have ring: "ring_ok (tx_out_ring t)" and len: "length (tx_out_buffers t) = cap (tx_out_ring t)"
    and q: "\<forall>k < used (tx_out_ring t). ob_ok (tx_queue t ! k)"
    using ok unfolding tx_ok_def by (simp_all add: tx_queue_def)
  have "ob_ok (contents (tx_out_ring t) ((tx_out_buffers t)[i := b]) ! k)" if "k < used (tx_out_ring t)" for k
  proof -
    let ?j = "slot (tx_out_ring t) (rb_begin (tx_out_ring t) + of_nat k)"
    have "?j < length (tx_out_buffers t)" "ob_ok (tx_out_buffers t ! ?j)"
      using slot_less [OF ring len] q that nth_contents [OF that, of "tx_out_buffers t"] by (auto simp: tx_queue_def)
    then show ?thesis
      using b(2) that by (cases "i = ?j") (simp_all add: nth_contents)
  qed
  then have "\<forall>x \<in> set (contents (tx_out_ring t) ((tx_out_buffers t)[i := b])). ob_ok x"
    unfolding all_set_conv_all_nth by simp
  moreover have "\<forall>x \<in> set ((tx_out_buffers t)[i := b]). length (ob_payload x) = 250"
    using ok b(1) by (auto simp: tx_ok_def dest!: set_update_subset_insert [THEN subsetD])
  ultimately show ?thesis
    using ok by (simp add: tx_ok_def tx_queue_def)
qed

lemma tx_ok_write:
  assumes lib: "roo_lib L" and ok: "tx_ok t" and acq: "Transmitter_acquire L t = Some (Some (t1, i, b))"
    and fill: "Transmitter_fill L t1 i b buf = Some (t2, n, f)"
  shows "tx_ok t2"
proof -
  obtain b' where b': "OutBuffer_write L b buf = Some (b', n)"
    "t2 = t1\<lparr>tx_out_buffers := (tx_out_buffers t1)[i := b'],
      tx_current_out_buffer := if ob_finished b' then None else tx_current_out_buffer t1\<rparr>"
    using fill by (cases t1) (auto simp: Transmitter_fill_def bind_eq_Some_conv Let_def split: if_splits)
  show ?thesis
  proof (cases "tx_current_out_buffer t")
    case (Some j)
    then have eq: "t1 = t" "b = tx_out_buffers t ! i"
      using acq by (auto simp: Transmitter_acquire_def)
    show ?thesis
    proof (cases "i < length (tx_out_buffers t)")
      case True
      then have "length (ob_payload b) = 250"
        using ok eq by (simp add: tx_ok_def)
      then show ?thesis
        unfolding b'(2) eq(1) using write_payload [OF b'(1)] write_ok [OF b'(1)] ok by (intro tx_ok_update) (simp_all add: eq)
    next
      case False
      then show ?thesis
        unfolding b'(2) eq(1) using ok by (simp add: tx_ok_def tx_queue_def list_update_beyond)
    qed
  next
    case None
    let ?ring = "tx_out_ring t" and ?i = "slot (tx_out_ring t) (rb_end (tx_out_ring t))"
    have ring: "ring_ok ?ring" and len: "length (tx_out_buffers t) = cap ?ring"
      and pay: "\<forall>b \<in> set (tx_out_buffers t). length (ob_payload b) = 250"
      using ok by (simp_all add: tx_ok_def)
    have room: "used ?ring < cap ?ring" and t1: "tx_out_ring t1 = ?ring\<lparr>rb_end := rb_end ?ring + 1\<rparr>" "tx_out_buffers t1 = tx_out_buffers t"
      "tx_peer_receive_buffer_size t1 = tx_peer_receive_buffer_size t" "i = ?i"
      and b: "b = OutBuffer_init L (tx_out_buffers t ! ?i) (rb_end ?ring) (tx_control_bit t)"
      using acq None by (auto simp: Transmitter_acquire_def push_eq [OF ring] Let_def split: if_splits)
    have "ob_ok b"
      unfolding b using pay slot_less [OF ring len] by (intro roo_lib.OutBuffer_init_ok [OF lib]) simp
    then have okb: "ob_ok b'"
      by (rule write_ok [OF b'(1)])
    have "tx_queue t2 = tx_queue t @ [b']"
      using contents_push_update [OF ring room len] by (simp add: tx_queue_def b'(2) t1)
    then show ?thesis
      using ok okb pay len ring_ok_push [OF ring room] unfolding tx_ok_def
      by (auto simp: b'(2) t1 ob_ok_def [of b'] dest!: set_update_subset_insert [THEN subsetD])
  qed
qed

lemma tx_ok_write_loop:
  "roo_lib L \<Longrightarrow> tx_ok t \<Longrightarrow> Transmitter_tryWrite_loop L t buf k ready = Some (t', n, ready') \<Longrightarrow> tx_ok t'"
proof (induction L t buf k ready rule: Transmitter_tryWrite_loop.induct)
  case (2 L t x buf k ready)
  show ?case
  proof (cases "Transmitter_acquire L t")
    case None
    then show ?thesis
      using 2(4) by (auto simp: Transmitter_tryWrite_loop.simps split: if_splits)
  next
    case (Some a)
    show ?thesis
    proof (cases a)
      case None
      then show ?thesis
        using 2(3,4) Some by (auto simp: Transmitter_tryWrite_loop.simps split: if_splits)
    next
      case a: (Some q)
      obtain t1 i b where q: "q = (t1, i, b)"
        by (metis prod_cases3)
      obtain t2 w f where fill: "Transmitter_fill L t1 i b (x # buf) = Some (t2, w, f)"
        and go: "SeqNum_ge (tx_recv_himark t) (rb_end (tx_out_ring t))"
        and rec: "Transmitter_tryWrite_loop L t2 (drop w (x # buf)) (k + w) (ready \<or> f) = Some (t', n, ready')"
        using 2(4) Some a q by (auto simp: Transmitter_tryWrite_loop.simps(2) split: if_splits option.splits)
      have "Transmitter_acquire L t = Some (Some (t1, i, b))"
        using Some a q by simp
      then have "tx_ok t2"
        by (rule tx_ok_write [OF 2(2,3) _ fill])
      then show ?thesis
        using 2(1) [OF _ Some a q [symmetric] refl fill refl refl 2(2) _ rec] go by simp
    qed
  qed
qed simp

lemma tx_ok_tryWrite: "roo_lib L \<Longrightarrow> tx_ok t \<Longrightarrow> Transmitter_tryWrite L t buf = Some (t', n, ready) \<Longrightarrow> tx_ok t'"
  using tx_ok_write_loop by (auto simp: Transmitter_tryWrite_def split: if_splits)

lemma tx_ok_close:
  assumes "roo_lib L" "tx_ok t" "Transmitter_close L t = Some t'"
  shows "tx_ok t'"
proof -
  let ?t = "if tx_state t = T_kBroken then t\<lparr>tx_state := T_kIdle\<rparr> else t"
  have 0: "tx_ok ?t"
    using assms(2) by (simp add: tx_ok_def tx_queue_def)
  obtain t1 f where t1: "Transmitter_flush ?t = (t1, f)"
    by (metis surj_pair)
  have 1: "tx_ok t1"
    using tx_same_ok [OF flush_same 0] t1 by simp
  show ?thesis
  proof (cases "tx_end_of_stream ?t \<or> tx_state ?t = T_kIdle")
    case True
    then show ?thesis
      using assms(3) 0 by (simp only: Transmitter_close_def Let_def) simp
  next
    case False
    have "\<exists>t2. tx_ok t2 \<and> t' = t2\<lparr>tx_end_of_stream := True\<rparr>"
    proof (cases "RingBuffer_slotsFree (tx_out_ring t1) = 0")
      case True
      then show ?thesis
        using assms(3) False t1 1 by (intro exI [of _ "t1\<lparr>tx_has_pending_eof := True\<rparr>"])
          (auto simp: Transmitter_close_def Let_def tx_ok_def tx_queue_def split: if_splits)
    next
      case room: False
      then have "used (tx_out_ring t1) < cap (tx_out_ring t1)"
        using 1 used_le_cap [of "tx_out_ring t1"] slotsFree_eq_0 [of "tx_out_ring t1"] by (auto simp: tx_ok_def order_le_less)
      then obtain t2 where "Transmitter_addEosPacket L t1 = Some t2" "tx_ok t2"
        using tx_ok_eos [OF assms(1) 1] by blast
      then show ?thesis
        using assms(3) False t1 room by (intro exI [of _ t2]) (auto simp: Transmitter_close_def Let_def split: if_splits)
    qed
    then show ?thesis
      by (auto simp: tx_ok_def tx_queue_def)
  qed
qed

section \<open>Reading\<close>

lemma rcv_ok_select:
  "Receiver_select r = Some (r1, i) \<Longrightarrow> rcv_in_ring r1 = rcv_in_ring r \<and> rcv_in_buffers r1 = rcv_in_buffers r \<and> rcv_state r1 = rcv_state r"
  by (auto simp: Receiver_select_def Let_def split: option.splits if_splits)

lemma rcv_ok_release:
  assumes "rcv_ok r" "Receiver_release L r i = Some r'"
  shows "rcv_ok r' \<and> rcv_state r' = rcv_state r"
proof -
  have "0 < used (rcv_in_ring r)" and r': "r' = r\<lparr>rcv_in_buffers := (rcv_in_buffers r)[i := InBuffer_clear (rcv_in_buffers r ! i)],
      rcv_current_in_buffer := None, rcv_recv_himark_update_expiration := Uptime_Start L,
      rcv_in_ring := (rcv_in_ring r)\<lparr>rb_begin := rb_begin (rcv_in_ring r) + 1\<rparr>\<rparr>"
    using assms(2) by (auto simp: Receiver_release_def pop_eq split: if_splits)
  moreover have "\<forall>b \<in> set ((rcv_in_buffers r)[i := InBuffer_clear (rcv_in_buffers r ! i)]). ib_ok b"
  proof (cases "i < length (rcv_in_buffers r)")
    case True
    then show ?thesis
      using assms(1) by (auto simp: rcv_ok_def InBuffer_clear_ok dest!: set_update_subset_insert [THEN subsetD])
  next
    case False
    then show ?thesis
      using assms(1) by (simp add: rcv_ok_def list_update_beyond)
  qed
  ultimately show ?thesis
    using assms(1) ring_ok_pop by (auto simp: rcv_ok_def cap_def)
qed

lemma rcv_ok_read_loop:
  "rcv_ok r \<Longrightarrow> rcv_state r \<noteq> R_kConnecting \<Longrightarrow> Receiver_tryRead_loop L r count out ready = Some (r', out', ready') \<Longrightarrow>
    rcv_ok r' \<and> rcv_state r' \<noteq> R_kConnecting"
proof (induction L r count out ready rule: Receiver_tryRead_loop.induct)
  case (1 L r count out ready)
  show ?case
  proof (cases "Receiver_select r")
    case None
    then show ?thesis
      using "1.prems" by (auto simp: Receiver_tryRead_loop.simps [of L r] Receiver_setIdle_def rcv_ok_def split: if_splits)
  next
    case (Some a)
    obtain r1 i where a: "a = (r1, i)"
      by (metis surj_pair)
    have r1: "rcv_ok r1" "rcv_state r1 \<noteq> R_kConnecting"
      using rcv_ok_select [OF Some [unfolded a]] "1.prems" by (simp_all add: rcv_ok_def)
    let ?b = "rcv_in_buffers r1 ! i" and ?pos = "rcv_current_in_buffer_pos r1"
    let ?available = "unat (ib_size ?b) - unat ?pos"
    show ?thesis
    proof (cases "ib_type ?b = kUnset \<or> count < ?available")
      case True
      then show ?thesis
        using "1.prems"(3) r1 Some a
        by (auto simp: Receiver_tryRead_loop.simps [of L r] Let_def rcv_ok_def split: if_splits)
    next
      case False
      obtain r2 where r2: "Receiver_release L r1 i = Some r2"
        using "1.prems"(3) Some a False
        by (auto simp: Receiver_tryRead_loop.simps [of L r] Let_def split: if_splits option.splits)
      have ok2: "rcv_ok r2" "rcv_state r2 \<noteq> R_kConnecting"
        using rcv_ok_release [OF r1(1) r2] r1(2) by simp_all
      have pos: "ib_size ?b \<ge> ?pos"
        using "1.prems"(3) Some a False by (auto simp: Receiver_tryRead_loop.simps [of L r] Let_def split: if_splits)
      show ?thesis
      proof (cases "ib_type ?b \<noteq> kFin \<and> count - ?available > 0")
        case True
        then have "Receiver_tryRead_loop L r2 (count - ?available)
            (out @ take ?available (drop (unat ?pos) (ib_payload ?b))) True = Some (r', out', ready')"
          using "1.prems"(3) Some a False r2 pos by (simp add: Receiver_tryRead_loop.simps [of L r] Let_def)
        then show ?thesis
          using "1.IH" [OF Some a [symmetric] refl refl _ _ refl _ refl refl r2] True False pos ok2 by simp
      next
        case last: False
        then show ?thesis
          using "1.prems"(3) Some a False r2 pos ok2
          by (auto simp: Receiver_tryRead_loop.simps [of L r] Let_def rcv_ok_def split: if_splits)
      qed
    qed
  qed
qed

lemma rcv_ok_tryRead:
  assumes "rcv_ok r" "Receiver_tryRead L r count = Some (r', out, ready)"
  shows "rcv_ok r' \<and> (rcv_state r' = R_kConnecting \<longrightarrow> r' = r)"
proof (cases "rcv_state r = R_kConnecting \<or> rcv_state r = R_kIdle")
  case False
  then show ?thesis
    using assms rcv_ok_read_loop [OF assms(1), of L count "[]" False r' out ready] by (simp add: Receiver_tryRead_def)
qed (use assms in \<open>auto simp: Receiver_tryRead_def\<close>)

lemma rcv_ok_look:
  "Receiver_peek r = (r', b) \<Longrightarrow> rcv_in_ring r' = rcv_in_ring r \<and> rcv_in_buffers r' = rcv_in_buffers r \<and> rcv_state r' = rcv_state r"
  "Receiver_availableForRead r = (r', n) \<Longrightarrow>
    rcv_in_ring r' = rcv_in_ring r \<and> rcv_in_buffers r' = rcv_in_buffers r \<and> rcv_state r' = rcv_state r"
  by (auto simp: Receiver_peek_def Receiver_availableForRead_def Let_def dest!: rcv_ok_select
      split: option.splits if_splits InBuffer_Type.splits)

lemma rcv_ok_markInputClosed:
  assumes "rcv_ok r" "Receiver_markInputClosed L r b = Some (r', ready)"
  shows "rcv_ok r' \<and> (used (rcv_in_ring r) = 0 \<longrightarrow> used (rcv_in_ring r') = 0) \<and> rcv_state r' = rcv_state r"
  using assms by (auto simp: Receiver_markInputClosed_def popAll_eq rcv_ok_def ring_ok_def cap_def Let_def split: if_splits)

section \<open>Any sequence of operations\<close>

inductive channel_step :: "lib \<Rightarrow> Channel \<Rightarrow> Channel \<Rightarrow> bool" for L where
  "Channel_write L ch buf sid = Some (ch', res) \<Longrightarrow> channel_step L ch ch'"
| "Channel_tryWrite L ch buf sid = Some (ch', n, st) \<Longrightarrow> channel_step L ch ch'"
| "Channel_read L ch count sid st0 = Some (ch', res') \<Longrightarrow> channel_step L ch ch'"
| "Channel_tryRead L ch count sid st0 = Some (ch', out, st) \<Longrightarrow> channel_step L ch ch'"
| "Channel_peek ch sid = (ch', b, st) \<Longrightarrow> channel_step L ch ch'"
| "Channel_availableForRead ch sid = (ch', n, st) \<Longrightarrow> channel_step L ch ch'"
| "Channel_flush ch sid = (ch', st) \<Longrightarrow> channel_step L ch ch'"
| "Channel_close L ch sid = Some (ch', res'') \<Longrightarrow> channel_step L ch ch'"
| "Channel_closeInput L ch sid = Some (ch', st) \<Longrightarrow> channel_step L ch ch'"
| "Channel_connect L ch f draws = Some (ch', sid, effects) \<Longrightarrow> channel_step L ch ch'"
| "Channel_disconnect L ch sid = Some (ch', effects) \<Longrightarrow> channel_step L ch ch'"
| "Channel_sendLoop_pass L ch env = (ch', pkts, delay) \<Longrightarrow> channel_step L ch ch'"
| "Channel_packetReceived L ch buf = Some (ch', effects) \<Longrightarrow> channel_step L ch ch'"
| "channel_step L ch (Channel_end ch)"

definition channel_reachable :: "lib \<Rightarrow> Channel \<Rightarrow> bool" where
  "channel_reachable L ch \<longleftrightarrow> (\<exists>n m i c ch0. Channel_new L n m i c = Some ch0 \<and> (channel_step L)\<^sup>*\<^sup>* ch0 ch)"

text \<open>The state that \<open>ch_ok\<close> looks at, after an operation on one of the halves.\<close>

lemma ch_ok_tx: "ch_ok ch \<Longrightarrow> tx_ok t \<Longrightarrow> ch_ok (ch\<lparr>ch_transmitter := t\<rparr>)"
  by (simp add: ch_ok_def)

lemma ch_ok_rx:
  "ch_ok ch \<Longrightarrow> rcv_ok r \<Longrightarrow> (rcv_state r = R_kConnecting \<Longrightarrow> used (rcv_in_ring r) = 0) \<Longrightarrow> ch_ok (ch\<lparr>ch_receiver := r\<rparr>)"
  by (simp add: ch_ok_def)

lemma ch_okD: "ch_ok ch \<Longrightarrow> tx_ok (ch_transmitter ch)" "ch_ok ch \<Longrightarrow> rcv_ok (ch_receiver ch)"
  by (simp_all add: ch_ok_def)

lemma TST_write_ok:
  assumes "roo_lib L" "tx_ok t"
  shows "TST_write L t buf sid = Some (t', res) \<Longrightarrow> tx_ok t'" "TST_tryWrite L t buf sid = Some (t', n, st, ready) \<Longrightarrow> tx_ok t'"
    "TST_close L t sid = Some (t', ready, res') \<Longrightarrow> tx_ok t'" "TST_flush t sid = (t', st, ready) \<Longrightarrow> tx_ok t'"
proof -
  show "TST_write L t buf sid = Some (t', res) \<Longrightarrow> tx_ok t'"
    using assms(2) by (auto simp: TST_write_def TST_write_pass_def Let_def bind_eq_Some_conv
        split: if_splits dest: tx_ok_tryWrite [OF assms])
  show "TST_tryWrite L t buf sid = Some (t', n, st, ready) \<Longrightarrow> tx_ok t'"
    using assms(2) by (auto simp: TST_tryWrite_def Let_def bind_eq_Some_conv split: if_splits dest: tx_ok_tryWrite [OF assms])
  show "TST_close L t sid = Some (t', ready, res') \<Longrightarrow> tx_ok t'"
    using assms(2) by (auto simp: TST_close_def Let_def bind_eq_Some_conv split: if_splits dest: tx_ok_close [OF assms])
  show "TST_flush t sid = (t', st, ready) \<Longrightarrow> tx_ok t'"
    using assms(2) tx_same_ok [OF flush_same assms(2)] by (auto simp: TST_flush_def Let_def split: if_splits prod.splits)
qed

definition rx_fine :: "Receiver \<Rightarrow> Receiver \<Rightarrow> bool" where
  "rx_fine r r' \<longleftrightarrow> rcv_ok r' \<and> (rcv_state r' = R_kConnecting \<longrightarrow> rcv_state r = R_kConnecting
     \<and> (used (rcv_in_ring r) = 0 \<longrightarrow> used (rcv_in_ring r') = 0))"

lemma rx_fineI:
  assumes "rcv_ok r"
  shows "rx_fine r r" "Receiver_tryRead L r count = Some (r', out, ready) \<Longrightarrow> rx_fine r r'"
    "Receiver_peek r = (r', b) \<Longrightarrow> rx_fine r r'" "Receiver_availableForRead r = (r', n) \<Longrightarrow> rx_fine r r'"
    "Receiver_markInputClosed L r x = Some (r', ready) \<Longrightarrow> rx_fine r r'"
proof -
  show "rx_fine r r"
    using assms by (simp add: rx_fine_def)
  show "Receiver_tryRead L r count = Some (r', out, ready) \<Longrightarrow> rx_fine r r'"
    by (drule rcv_ok_tryRead [OF assms]) (auto simp: rx_fine_def)
  show "Receiver_peek r = (r', b) \<Longrightarrow> rx_fine r r'"
    using assms by (elim rcv_ok_look(1) [elim_format]) (simp add: rx_fine_def rcv_ok_def)
  show "Receiver_availableForRead r = (r', n) \<Longrightarrow> rx_fine r r'"
    using assms by (elim rcv_ok_look(2) [elim_format]) (simp add: rx_fine_def rcv_ok_def)
  show "Receiver_markInputClosed L r x = Some (r', ready) \<Longrightarrow> rx_fine r r'"
    by (drule rcv_ok_markInputClosed [OF assms]) (simp add: rx_fine_def)
qed

lemma TSR_read_fine:
  assumes "rcv_ok r"
  shows "TSR_read L r count sid st0 = Some (r', res) \<Longrightarrow> rx_fine r r'"
    "TSR_tryRead L r count sid st0 = Some (r', out, st, ready) \<Longrightarrow> rx_fine r r'"
    "TSR_peek r sid = (r', b, st) \<Longrightarrow> rx_fine r r'" "TSR_availableForRead r sid = (r', n, st) \<Longrightarrow> rx_fine r r'"
    "TSR_markInputClosed L r sid x = Some (r', st, ready) \<Longrightarrow> rx_fine r r'"
proof -
  note fine = rx_fineI [OF assms]
  show "TSR_read L r count sid st0 = Some (r', res) \<Longrightarrow> rx_fine r r'"
    using fine(1) by (auto simp: TSR_read_def TSR_read_pass_def Let_def bind_eq_Some_conv split: if_splits dest: fine(2))
  show "TSR_tryRead L r count sid st0 = Some (r', out, st, ready) \<Longrightarrow> rx_fine r r'"
    using fine(1) by (auto simp: TSR_tryRead_def Let_def bind_eq_Some_conv split: if_splits dest: fine(2))
  show "TSR_peek r sid = (r', b, st) \<Longrightarrow> rx_fine r r'"
    using fine(1) by (auto simp: TSR_peek_def Let_def split: if_splits prod.splits dest: fine(3))
  show "TSR_availableForRead r sid = (r', n, st) \<Longrightarrow> rx_fine r r'"
    using fine(1) by (auto simp: TSR_availableForRead_def Let_def split: if_splits prod.splits dest: fine(4))
  show "TSR_markInputClosed L r sid x = Some (r', st, ready) \<Longrightarrow> rx_fine r r'"
    using fine(1) by (auto simp: TSR_markInputClosed_def Let_def bind_eq_Some_conv split: if_splits dest: fine(5))
qed

lemma ch_ok_fine: "ch_ok ch \<Longrightarrow> rx_fine (ch_receiver ch) r \<Longrightarrow> ch_ok (ch\<lparr>ch_receiver := r\<rparr>)"
  by (auto simp: ch_ok_def rx_fine_def)

lemma pick_eq: "pick_stream_id draws = Some (d, rest) \<Longrightarrow> \<exists>k. draws = replicate k 0 @ d # rest \<and> d \<noteq> 0"
proof (induction draws)
  case (Cons x draws)
  show ?case
  proof (cases "x = 0")
    case True
    then obtain k where "draws = replicate k 0 @ d # rest" "d \<noteq> 0"
      using Cons by auto
    then show ?thesis
      using True by (intro exI [of _ "Suc k"]) simp
  next
    case False
    then show ?thesis
      using Cons.prems by (intro exI [of _ 0]) auto
  qed
qed simp

lemma ch_ok_connect:
  assumes "ch_ok ch" "Channel_connect L ch f draws = Some (ch', sid, effects)"
  shows "ch_ok ch'"
proof -
  obtain d ds where pick: "pick_stream_id draws = Some (d, ds)"
    using assms(2) by (cases "pick_stream_id draws") (auto simp: Channel_connect_def)
  moreover obtain s rest where "ds = s # rest"
    using assms(2) pick by (cases ds) (auto simp: Channel_connect_def)
  ultimately have "pick_stream_id draws = Some (d, s # rest)"
    by simp
  then obtain k where "draws = replicate k 0 @ d # s # rest" "d \<noteq> 0"
    using pick_eq by blast
  then show ?thesis
    using connect_ok [OF assms(1), of d L f k s rest] assms(2) by auto
qed

lemma ch_ok_disconnect:
  assumes "ch_ok ch" "Channel_disconnect L ch sid = Some (ch', effects)"
  shows "ch_ok ch'"
  using disconnect_ok [OF assms(1), of L] assms by (cases "ch_my_stream_id ch = sid") (auto simp: Channel_disconnect_def)

text \<open>The operations on the streams, and the sender loop.\<close>

lemma ch_ok_stream:
  assumes "roo_lib L" and ok: "ch_ok ch"
  shows "Channel_write L ch buf sid = Some (ch', res) \<Longrightarrow> ch_ok ch'" "Channel_tryWrite L ch buf sid = Some (ch', n, st) \<Longrightarrow> ch_ok ch'"
    "Channel_flush ch sid = (ch', st) \<Longrightarrow> ch_ok ch'" "Channel_close L ch sid = Some (ch', res'') \<Longrightarrow> ch_ok ch'"
    "Channel_read L ch count sid st0 = Some (ch', res') \<Longrightarrow> ch_ok ch'"
    "Channel_tryRead L ch count sid st0 = Some (ch', out, st) \<Longrightarrow> ch_ok ch'"
    "Channel_peek ch sid = (ch', b, st) \<Longrightarrow> ch_ok ch'" "Channel_availableForRead ch sid = (ch', m, st) \<Longrightarrow> ch_ok ch'"
    "Channel_closeInput L ch sid = Some (ch', st) \<Longrightarrow> ch_ok ch'"
proof -
  note tx = ch_ok_tx [OF ok] and rx = ch_ok_fine [OF ok]
  note w = TST_write_ok [OF assms(1) ch_okD(1) [OF ok]] and r = TSR_read_fine [OF ch_okD(2) [OF ok]]
  show "Channel_write L ch buf sid = Some (ch', res) \<Longrightarrow> ch_ok ch'"
  proof -
    assume a: "Channel_write L ch buf sid = Some (ch', res)"
    then obtain t x where t: "TST_write L (ch_transmitter ch) buf sid = Some (t, x)"
      by (cases "TST_write L (ch_transmitter ch) buf sid") (auto simp: Channel_write_def)
    show ?thesis
      using a t tx [OF w(1) [OF t]] by (cases x) (auto simp: Channel_write_def Let_def)
  qed
  show "Channel_tryWrite L ch buf sid = Some (ch', n, st) \<Longrightarrow> ch_ok ch'"
    by (auto simp: Channel_tryWrite_def bind_eq_Some_conv intro!: tx dest: w(2))
  show "Channel_flush ch sid = (ch', st) \<Longrightarrow> ch_ok ch'"
    by (auto simp: Channel_flush_def Let_def split: prod.splits intro!: tx dest: w(4))
  show "Channel_close L ch sid = Some (ch', res'') \<Longrightarrow> ch_ok ch'"
  proof -
    assume a: "Channel_close L ch sid = Some (ch', res'')"
    then obtain t ready x where t: "TST_close L (ch_transmitter ch) sid = Some (t, ready, x)"
      by (cases "TST_close L (ch_transmitter ch) sid") (auto simp: Channel_close_def)
    show ?thesis
      using a t tx [OF w(3) [OF t]] by (cases x) (auto simp: Channel_close_def Let_def)
  qed
  show "Channel_read L ch count sid st0 = Some (ch', res') \<Longrightarrow> ch_ok ch'"
  proof -
    assume a: "Channel_read L ch count sid st0 = Some (ch', res')"
    then obtain q x where q: "TSR_read L (ch_receiver ch) count sid st0 = Some (q, x)"
      by (cases "TSR_read L (ch_receiver ch) count sid st0") (auto simp: Channel_read_def)
    show ?thesis
      using a q rx [OF r(1) [OF q]] by (cases x) (auto simp: Channel_read_def Let_def)
  qed
  show "Channel_tryRead L ch count sid st0 = Some (ch', out, st) \<Longrightarrow> ch_ok ch'"
    by (auto simp: Channel_tryRead_def bind_eq_Some_conv intro!: rx dest: r(2))
  show "Channel_peek ch sid = (ch', b, st) \<Longrightarrow> ch_ok ch'"
    by (auto simp: Channel_peek_def Let_def split: prod.splits intro!: rx dest: r(3))
  show "Channel_availableForRead ch sid = (ch', m, st) \<Longrightarrow> ch_ok ch'"
    by (auto simp: Channel_availableForRead_def Let_def split: prod.splits intro!: rx dest: r(4))
  show "Channel_closeInput L ch sid = Some (ch', st) \<Longrightarrow> ch_ok ch'"
    by (auto simp: Channel_closeInput_def bind_eq_Some_conv intro!: rx dest: r(5))
qed

lemma ch_ok_sendLoop:
  assumes "roo_lib L" "ch_ok ch" "Channel_sendLoop_pass L ch env = (ch', pkts, delay)"
  shows "ch_ok ch'"
proof -
  obtain ch1 ps d where send: "Channel_trySend L ch env = (ch1, ps, d)"
    by (metis prod_cases3)
  have "ch_ok ch1"
    by (rule trySend_ok(1) [OF assms(1,2) send])
  then show ?thesis
    using assms(2,3) send by (auto simp: Channel_sendLoop_pass_def ch_ok_def split: if_splits)
qed

lemma ch_ok_packet:
  assumes "roo_lib L" "ch_ok ch" "Channel_packetReceived L ch buf = Some (ch', effects)"
  shows "ch_ok ch'"
  using packetReceived_total [OF assms(1,2), of buf] assms(3) by (auto split: if_splits)

lemma channel_step_ok: "channel_step L ch ch' \<Longrightarrow> roo_lib L \<Longrightarrow> ch_ok ch \<Longrightarrow> ch_ok ch'"
proof (induction rule: channel_step.induct)
  case (14 ch)
  then show ?case
    unfolding Channel_end_def Channel_notify_fields(9) by (simp add: ch_ok_def)
qed (fast intro: ch_ok_stream ch_ok_connect ch_ok_disconnect ch_ok_sendLoop ch_ok_packet)+

lemma channel_reachable_ok:
  assumes "roo_lib L" "channel_reachable L ch"
  shows "ch_ok ch"
proof -
  obtain n m i c ch0 where new: "Channel_new L n m i c = Some ch0" and steps: "(channel_step L)\<^sup>*\<^sup>* ch0 ch"
    using assms(2) by (auto simp: channel_reachable_def)
  show ?thesis
    using steps by (induction rule: rtranclp_induct) (auto intro: Channel_new_ok(1) [OF new] channel_step_ok assms(1))
qed

end
