(* ===== verification/Big_Endian.thy ===== *)
theory Big_Endian
  imports Transport_Prelude
begin

text \<open>
  A concrete instance of the library parameter: network byte order on byte lists, a clock that
  starts at zero, a 32-bit \<open>long\<close> and a 32-bit random number generator (the ESP32
  configuration). It shows that the assumptions of \<open>roo_lib\<close> hold together, and is what
  the examples of the development run on.
\<close>

definition store16 :: "u16 \<Rightarrow> byte list" where
  "store16 x = [ucast (drop_bit 8 x), ucast x]"

definition load16 :: "byte list \<Rightarrow> u16" where
  "load16 bs = push_bit 8 (ucast (bs ! 0)) OR ucast (bs ! 1)"

definition store32 :: "u32 \<Rightarrow> byte list" where
  "store32 x = [ucast (drop_bit 24 x), ucast (drop_bit 16 x), ucast (drop_bit 8 x), ucast x]"

definition load32 :: "byte list \<Rightarrow> u32" where
  "load32 bs = push_bit 24 (ucast (bs ! 0)) OR push_bit 16 (ucast (bs ! 1))
     OR push_bit 8 (ucast (bs ! 2)) OR ucast (bs ! 3)"

definition be_lib :: lib where
  "be_lib = \<lparr>StoreBeU16 = store16, LoadBeU16 = load16, StoreBeU32 = store32, LoadBeU32 = load32,
     StoreBeU64 = be_bytes 8, Uptime_Start = 0, Uptime_Max = 9223372036854775807,
     LONG_MAX = 2147483647, RANDOM_INTEGER_MAX = 4294967295\<rparr>"

lemma load16_store16: "load16 (store16 x @ rest) = x"
proof (rule bit_word_eqI)
  fix n assume "n < LENGTH(16)"
  then show "bit (load16 (store16 x @ rest)) n \<longleftrightarrow> bit x n"
    by (auto simp: load16_def store16_def bit_or_iff bit_push_bit_iff bit_ucast_iff bit_drop_bit_eq not_le)
qed

lemma load32_store32: "load32 (store32 x @ rest) = x"
proof (rule bit_word_eqI)
  fix n assume "n < LENGTH(32)"
  then show "bit (load32 (store32 x @ rest)) n \<longleftrightarrow> bit x n"
    by (cases "n < 8"; cases "n < 16"; cases "n < 24")
      (auto simp: load32_def store32_def bit_or_iff bit_push_bit_iff bit_ucast_iff bit_drop_bit_eq
        not_le nth_Cons')
qed

lemma be_lib_simps [simp]:
  "StoreBeU16 be_lib = store16" "LoadBeU16 be_lib = load16" "StoreBeU32 be_lib = store32"
  "LoadBeU32 be_lib = load32" "StoreBeU64 be_lib = be_bytes 8" "Uptime_Start be_lib = 0"
  "Uptime_Max be_lib = 9223372036854775807" "LONG_MAX be_lib = 2147483647"
  "RANDOM_INTEGER_MAX be_lib = 4294967295"
  by (simp_all add: be_lib_def)

interpretation be: roo_lib be_lib
  by unfold_locales (simp_all add: load16_store16 load32_store32, simp_all add: store16_def store32_def)

end
