(* ===== verification/Demo_Link.thy ===== *)
theory Demo_Link
  imports Handshake Channel_Life Big_Endian
begin

text \<open>
  A small connection on the concrete library instance: a transmitter with two buffers and a
  receiver with four, connected at sequence number 100. The examples beside the theorems run
  on it.
\<close>

definition demo_tx :: Transmitter where
  "demo_tx = Transmitter_setConnected (the (Transmitter_init (the (Transmitter_new be_lib 1 0)) 7 100)) 4 True"

definition demo_rx :: Receiver where
  "demo_rx = the (Receiver_setConnected (the (Receiver_init (the (Receiver_new be_lib 2 True)) 9)) 100 False)"

definition demo_link :: link where
  "demo_link = \<lparr>lk_tx = demo_tx, lk_rx = demo_rx, lk_data = [], lk_ctl = [], lk_written = [], lk_read = []\<rparr>"

lemma demo_tx_inv:
  "tx_inv be_lib demo_tx" "tx_state demo_tx = T_kConnected" "used (tx_out_ring demo_tx) = 0"
  "\<not> tx_end_of_stream demo_tx" "tx_next_to_send demo_tx = 100" "rb_begin (tx_out_ring demo_tx) = 100"
  "tx_control_bit demo_tx" "tx_my_stream_id demo_tx = 7" "tx_recv_himark demo_tx = 104"
  "cap (tx_out_ring demo_tx) = 2" "tx_peer_receive_buffer_size demo_tx = 4"
proof -
  obtain t where t: "Transmitter_new be_lib 1 0 = Some t"
    by (simp add: Transmitter_new_def RingBuffer_new_def CHECK_def kMaxLinkBufferSizeLog2_def)
  note new = Transmitter_new_ok [OF t]
  obtain t' where t': "Transmitter_init t 7 100 = Some t'" "tx_inv be_lib t'" "rb_begin (tx_out_ring t') = 100"
    "used (tx_out_ring t') = 0" "\<not> tx_end_of_stream t'" "tx_next_to_send t' = 100"
    "cap (tx_out_ring t') = cap (tx_out_ring t)"
    using Transmitter_init_spec [OF new(1), of 7 100 be_lib] by blast
  have demo: "demo_tx = Transmitter_setConnected t' 4 True"
    by (simp add: demo_tx_def t [unfolded One_nat_def] t'(1))
  have "tx_my_stream_id t' = 7"
    using t'(1) by (auto simp: Transmitter_init_def bind_eq_Some_conv)
  then show "tx_inv be_lib demo_tx" "tx_state demo_tx = T_kConnected" "used (tx_out_ring demo_tx) = 0"
    "\<not> tx_end_of_stream demo_tx" "tx_next_to_send demo_tx = 100" "rb_begin (tx_out_ring demo_tx) = 100"
    "tx_control_bit demo_tx" "tx_my_stream_id demo_tx = 7" "tx_recv_himark demo_tx = 104"
    "cap (tx_out_ring demo_tx) = 2" "tx_peer_receive_buffer_size demo_tx = 4"
    using Transmitter_setConnected_spec [OF t'(2, 4, 5), of 4 True] t' new(4)
    unfolding demo by (simp_all add: Transmitter_setConnected_def SeqNum_plus_def)
qed

lemma demo_rx_inv:
  "rcv_inv demo_rx" "rcv_state demo_rx = R_kConnected" "used (rcv_in_ring demo_rx) = 0"
  "rcv_slots demo_rx = []" "\<not> rcv_self_closed demo_rx" "\<not> rcv_end_of_stream demo_rx"
  "rb_begin (rcv_in_ring demo_rx) = 100" "\<not> rcv_control_bit demo_rx" "rcv_my_stream_id demo_rx = 9"
  "rcv_pos demo_rx = 0" "cap (rcv_in_ring demo_rx) = 4" "\<not> rcv_peer_closed demo_rx"
proof -
  obtain r where r: "Receiver_new be_lib 2 True = Some r"
    by (simp add: Receiver_new_def RingBuffer_new_def CHECK_def kMaxLinkBufferSizeLog2_def)
  note new = Receiver_new_inv [OF r]
  have ok: "rcv_ok r"
    using new(1) by (simp add: rcv_inv_def)
  obtain r' where r': "Receiver_init r 9 = Some r'" "rcv_ok r'" "used (rcv_in_ring r') = 0"
    "rcv_current_in_buffer r' = rcv_current_in_buffer r" "\<not> rcv_self_closed r'" "\<not> rcv_end_of_stream r'"
    "\<not> rcv_peer_closed r'" "cap (rcv_in_ring r') = cap (rcv_in_ring r)"
    using init_spec [OF ok, of 9] by blast
  have "rcv_current_in_buffer r = None"
    using r by (auto simp: Receiver_new_def bind_eq_Some_conv)
  then have "cur_ok r'"
    using r'(4) by (simp add: cur_ok_def)
  then obtain r'' where r'': "Receiver_setConnected r' 100 False = Some r''" "rcv_inv r''" "rcv_slots r'' = []"
    "rcv_state r'' = R_kConnected" "rb_begin (rcv_in_ring r'') = 100" "\<not> rcv_control_bit r''" "rcv_pos r'' = 0"
    "cap (rcv_in_ring r'') = cap (rcv_in_ring r')" "rcv_self_closed r'' = rcv_self_closed r'"
    "rcv_peer_closed r'' = rcv_peer_closed r'" "rcv_end_of_stream r'' = rcv_end_of_stream r'"
    using setConnected_spec [OF r'(2) _ r'(3), of 100 False] by blast
  have "used (rcv_in_ring r'') = 0"
    using r''(3) by (simp flip: length_rcv_slots)
  moreover have "rcv_my_stream_id r'' = 9"
    using r'(1) r''(1) by (auto simp: Receiver_init_def Receiver_setConnected_def bind_eq_Some_conv)
  moreover have "demo_rx = r''"
    by (simp add: demo_rx_def r r'(1) r''(1))
  ultimately show "rcv_inv demo_rx" "rcv_state demo_rx = R_kConnected" "used (rcv_in_ring demo_rx) = 0"
    "rcv_slots demo_rx = []" "\<not> rcv_self_closed demo_rx" "\<not> rcv_end_of_stream demo_rx"
    "rb_begin (rcv_in_ring demo_rx) = 100" "\<not> rcv_control_bit demo_rx" "rcv_my_stream_id demo_rx = 9"
    "rcv_pos demo_rx = 0" "cap (rcv_in_ring demo_rx) = 4" "\<not> rcv_peer_closed demo_rx"
    using r' r'' new(4) by simp_all
qed

lemma demo_link_start: "link_start be_lib demo_link"
  using demo_tx_inv demo_rx_inv by (simp add: link_start_def demo_link_def)

text \<open>Three bytes are written, closed off, sent, received and read.\<close>

definition demo_tx1 :: Transmitter where
  "demo_tx1 = fst (the (Transmitter_tryWrite be_lib demo_tx [1, 2, 3]))"

definition demo_tx2 :: Transmitter where
  "demo_tx2 = fst (Transmitter_send be_lib (the (Transmitter_close be_lib demo_tx1)) 5 5 1000)"

definition demo_rx1 :: Receiver where
  "demo_rx1 = fst (the (Channel_dataReceived be_lib demo_rx [0x80, 100, 1, 2, 3]))"

definition demo_rx2 :: Receiver where
  "demo_rx2 = fst (the (Receiver_tryRead be_lib demo_rx1 10))"

definition demo_link2 :: link where
  "demo_link2 = \<lparr>lk_tx = demo_tx2, lk_rx = demo_rx2, lk_data = [], lk_ctl = [], lk_written = [1, 2, 3], lk_read = [1, 2, 3]\<rparr>"

lemma demo_runs:
  "Transmitter_tryWrite be_lib demo_tx [1, 2, 3] = Some (demo_tx1, 3, False)"
  "Transmitter_close be_lib demo_tx1 = Some (the (Transmitter_close be_lib demo_tx1))"
  "Transmitter_send be_lib (the (Transmitter_close be_lib demo_tx1)) 5 5 1000 = (demo_tx2, [0x80, 100, 1, 2, 3], 0)"
  "Channel_dataReceived be_lib demo_rx [0x80, 100, 1, 2, 3] = Some (demo_rx1, True, True)"
  "Receiver_tryRead be_lib demo_rx1 10 = Some (demo_rx2, [1, 2, 3], True)"
  by code_simp+

lemma demo_tx1_inv: "tx_inv be_lib demo_tx1" "tx_state demo_tx1 = T_kConnected" "\<not> tx_end_of_stream demo_tx1"
proof -
  have "Transmitter_tryWrite_loop be_lib demo_tx [1, 2, 3] 0 False = Some (demo_tx1, 3, False)"
    using demo_runs(1) demo_tx_inv(2, 4) by (simp add: Transmitter_tryWrite_def)
  then have "tx_inv be_lib demo_tx1 \<and> tx_grows demo_tx demo_tx1 [1, 2, 3]"
    using tryWrite_loop_spec [OF be.roo_lib_axioms demo_tx_inv(1, 4), of "[1, 2, 3]" 0 False] by auto
  then show "tx_inv be_lib demo_tx1" "tx_state demo_tx1 = T_kConnected" "\<not> tx_end_of_stream demo_tx1"
    using tx_growsD(7, 8) [of demo_tx demo_tx1] demo_tx_inv(2, 4) by auto
qed

lemma demo_closed_inv: "tx_inv be_lib (the (Transmitter_close be_lib demo_tx1))"
  using roo_lib.close_spec [OF be.roo_lib_axioms demo_tx1_inv] by auto

lemma demo_tx2_inv: "tx_inv be_lib demo_tx2"
proof -
  have "used (tx_out_ring (the (Transmitter_close be_lib demo_tx1))) = 2"
    by code_simp
  then show ?thesis
    using send_spec(3) [OF demo_closed_inv _ demo_runs(3)] by simp
qed

lemma demo_rx1_inv: "rcv_inv demo_rx1"
proof -
  have "Receiver_handleDataPacket demo_rx True 100 [1, 2, 3] False = Some (demo_rx1, True, True)"
    "rcv_ahead demo_rx 100 = 0"
    by code_simp+
  then show ?thesis
    using handle_accepted [of demo_rx True 0 100 "[1, 2, 3]" False] demo_rx_inv
    by (auto simp: rcv_active_def acceptable_def)
qed

lemma demo_link2_reachable: "link_reachable be_lib demo_link2"
proof -
  let ?c = "the (Transmitter_close be_lib demo_tx1)" and ?p = "[0x80, 100, 1, 2, 3] :: byte list"
  let ?s1 = "demo_link\<lparr>lk_tx := demo_tx1, lk_written := [1, 2, 3]\<rparr>"
  let ?s2 = "?s1\<lparr>lk_tx := ?c\<rparr>"
  let ?s3 = "?s2\<lparr>lk_tx := demo_tx2, lk_data := [?p]\<rparr>"
  let ?s4 = "?s3\<lparr>lk_rx := demo_rx1, lk_data := []\<rparr>"
  have "link_step be_lib demo_link ?s1"
    using st_write [of be_lib demo_link, unfolded demo_link_def, simplified, OF demo_runs(1)] by (simp add: demo_link_def)
  moreover have "link_step be_lib ?s1 ?s2"
    using st_close [of be_lib ?s1 ?c] demo_runs(2) by simp
  moreover have "link_step be_lib ?s2 ?s3"
    using st_send [of be_lib ?s2 5 5 1000 demo_tx2 ?p 0] demo_runs(3) by (simp add: demo_link_def)
  moreover have "link_step be_lib ?s3 ?s4"
    using st_deliver_data [of ?s3 ?p "[]" be_lib demo_rx1 True True] demo_runs(4) by (simp add: demo_link_def)
  moreover have "link_step be_lib ?s4 (?s4\<lparr>lk_rx := demo_rx2, lk_read := [1, 2, 3]\<rparr>)"
    using st_read [of be_lib ?s4 10 demo_rx2 "[1, 2, 3]" True] demo_runs(5) by (simp add: demo_link_def)
  ultimately have "link_reachable be_lib (?s4\<lparr>lk_rx := demo_rx2, lk_read := [1, 2, 3]\<rparr>)"
    using lr_start [OF demo_link_start] lr_step by metis
  then show ?thesis
    by (simp add: demo_link_def demo_link2_def)
qed

text \<open>The final packet follows, is read, and its acknowledgement makes the transmitter idle.\<close>

definition demo_tx3 :: Transmitter where
  "demo_tx3 = fst (Transmitter_send be_lib demo_tx2 6 5 1000)"

definition demo_rx3 :: Receiver where
  "demo_rx3 = fst (the (Channel_dataReceived be_lib demo_rx2 [0x90, 101]))"

definition demo_rx4 :: Receiver where
  "demo_rx4 = fst (the (Receiver_tryRead be_lib demo_rx3 10))"

definition demo_rx5 :: Receiver where
  "demo_rx5 = fst (Receiver_ack be_lib demo_rx4)"

definition demo_tx4 :: Transmitter where
  "demo_tx4 = fst (the (Channel_controlReceived be_lib demo_tx3 [0x20, 102]))"

definition demo_link3 :: link where
  "demo_link3 = demo_link2\<lparr>lk_tx := demo_tx4, lk_rx := demo_rx5\<rparr>"

lemma demo_runs_close:
  "Transmitter_send be_lib demo_tx2 6 5 1000 = (demo_tx3, [0x90, 101], 0)"
  "Channel_dataReceived be_lib demo_rx2 [0x90, 101] = Some (demo_rx3, True, True)"
  "Receiver_tryRead be_lib demo_rx3 10 = Some (demo_rx4, [], True)"
  "Receiver_ack be_lib demo_rx4 = (demo_rx5, [0x20, 102])"
  "Channel_controlReceived be_lib demo_tx3 [0x20, 102] = Some (demo_tx4, False)"
  "tx_state demo_tx4 = T_kIdle" "rcv_end_of_stream demo_rx5"
  by code_simp+

lemma demo_link3_reachable: "link_reachable be_lib demo_link3"
proof -
  let ?p = "[0x90, 101] :: byte list" and ?a = "[0x20, 102] :: byte list"
  let ?s1 = "demo_link2\<lparr>lk_tx := demo_tx3, lk_data := [?p]\<rparr>"
  let ?s2 = "?s1\<lparr>lk_rx := demo_rx3, lk_data := []\<rparr>"
  let ?s3 = "?s2\<lparr>lk_rx := demo_rx4\<rparr>"
  let ?s4 = "?s3\<lparr>lk_rx := demo_rx5, lk_ctl := [?a]\<rparr>"
  have "link_step be_lib demo_link2 ?s1"
    using st_send [of be_lib demo_link2 6 5 1000 demo_tx3 ?p 0] demo_runs_close(1) by (simp add: demo_link2_def)
  moreover have "link_step be_lib ?s1 ?s2"
    using st_deliver_data [of ?s1 ?p "[]" be_lib demo_rx3 True True] demo_runs_close(2) by (simp add: demo_link2_def)
  moreover have "link_step be_lib ?s2 ?s3"
    using st_read [of be_lib ?s2 10 demo_rx4 "[]" True] demo_runs_close(3) by (simp add: demo_link2_def)
  moreover have "link_step be_lib ?s3 ?s4"
    using st_ack [of be_lib ?s3 demo_rx5 ?a] demo_runs_close(4) by (simp add: demo_link2_def)
  moreover have "link_step be_lib ?s4 demo_link3"
    using st_deliver_ctl [of ?s4 ?a "[]" be_lib demo_tx4 False] demo_runs_close(5)
    by (simp add: demo_link2_def demo_link3_def)
  ultimately show ?thesis
    using demo_link2_reachable lr_step by metis
qed

section \<open>A handshake\<close>

definition demo_ch :: Channel where
  "demo_ch = the (Channel_new be_lib 1 2 0 False)"

definition demo_a :: Channel where
  "demo_a = fst (the (Channel_connect be_lib demo_ch (Some 5) [0, 7, 100]))"

definition demo_b :: Channel where
  "demo_b = fst (the (Channel_connect be_lib demo_ch None [9, 3000]))"

definition demo_syn :: "byte list" where
  "demo_syn = [0x30, 100, 0, 0, 0, 7, 0, 0, 0, 0, 0x82]"

definition demo_syn_ack :: "byte list" where
  "demo_syn_ack = [0x3B, 0xB8, 0, 0, 0, 9, 0, 0, 0, 7, 0x82]"

definition demo_a1 :: Channel where
  "demo_a1 = fst (Channel_conn be_lib demo_a 10 0 1000000)"

definition demo_b1 :: Channel where
  "demo_b1 = fst (the (Channel_packetReceived be_lib demo_b demo_syn))"

definition demo_b2 :: Channel where
  "demo_b2 = fst (Channel_conn be_lib demo_b1 10 0 1000000)"

definition demo_a2 :: Channel where
  "demo_a2 = fst (the (Channel_packetReceived be_lib demo_a1 demo_syn_ack))"

definition demo_hs :: handshake where
  "demo_hs = \<lparr>hs_a = demo_a, hs_b = demo_b, hs_ab = [], hs_ba = []\<rparr>"

definition demo_hs4 :: handshake where
  "demo_hs4 = \<lparr>hs_a = demo_a2, hs_b = demo_b2, hs_ab = [demo_syn], hs_ba = [demo_syn_ack]\<rparr>"

lemma demo_handshake_runs:
  "Channel_new be_lib 1 2 0 False = Some demo_ch"
  "Channel_connect be_lib demo_ch (Some 5) [0, 7, 100] = Some (demo_a, 7, [connected_cv])"
  "Channel_connect be_lib demo_ch None [9, 3000] = Some (demo_b, 9, [connected_cv])"
  "fst (snd (Channel_conn be_lib demo_a 10 0 1000000)) = demo_syn"
  "Channel_packetReceived be_lib demo_b demo_syn = Some (demo_b1, [connected_cv])"
  "fst (snd (Channel_conn be_lib demo_b1 10 0 1000000)) = demo_syn_ack"
  "Channel_packetReceived be_lib demo_a1 demo_syn_ack = Some (demo_a2, [connected_cv])"
  "ch_my_stream_id demo_a \<noteq> ch_my_stream_id demo_b" "ch_my_stream_id_acked_by_peer demo_a2"
  "Channel_getLinkStatusInternal demo_a2 7 = Link_kConnected"
  by code_simp+

lemma demo_a_reachable: "channel_reachable be_lib demo_a"
  unfolding channel_reachable_def
  using demo_handshake_runs(1) r_into_rtranclp [of "channel_step be_lib", OF channel_step.intros(10) [OF demo_handshake_runs(2)]]
  by blast

lemma demo_hs_start: "hs_start be_lib demo_hs"
  using demo_handshake_runs(1-3, 8) unfolding hs_start_def demo_hs_def by simp blast

lemma demo_hs4_reachable: "hs_reachable be_lib demo_hs4"
proof -
  let ?s1 = "demo_hs\<lparr>hs_a := demo_a1, hs_ab := [demo_syn]\<rparr>"
  let ?s2 = "?s1\<lparr>hs_b := demo_b1\<rparr>"
  let ?s3 = "?s2\<lparr>hs_b := demo_b2, hs_ba := [demo_syn_ack]\<rparr>"
  have conn: "Channel_conn be_lib demo_a 10 0 1000000 = (demo_a1, demo_syn, snd (snd (Channel_conn be_lib demo_a 10 0 1000000)))"
    "Channel_conn be_lib demo_b1 10 0 1000000 = (demo_b2, demo_syn_ack, snd (snd (Channel_conn be_lib demo_b1 10 0 1000000)))"
    by (simp_all add: prod_eq_iff demo_a1_def demo_b2_def demo_handshake_runs(4, 6))
  have sent: "sent_packet demo_syn = [demo_syn]" "sent_packet demo_syn_ack = [demo_syn_ack]"
    by (simp_all add: demo_syn_def demo_syn_ack_def)
  have "hs_step be_lib demo_hs ?s1"
    using send_a [of be_lib demo_hs, unfolded demo_hs_def, simplified, OF conn(1)] sent by (simp add: demo_hs_def)
  moreover have "hs_step be_lib ?s1 ?s2"
    by (rule recv_b [of demo_syn _ _ _ "[connected_cv]"]) (simp_all add: demo_hs_def demo_handshake_runs(5))
  moreover have "hs_step be_lib ?s2 ?s3"
    using send_b [of be_lib ?s2, simplified, OF conn(2)] sent by (simp add: demo_hs_def)
  moreover have "hs_step be_lib ?s3 (?s3\<lparr>hs_a := demo_a2\<rparr>)"
    by (rule recv_a [of demo_syn_ack _ _ _ "[connected_cv]"]) (simp_all add: demo_hs_def demo_handshake_runs(7))
  ultimately have "hs_reachable be_lib (?s3\<lparr>hs_a := demo_a2\<rparr>)"
    using hs_init [OF demo_hs_start] hs_next by metis
  then show ?thesis
    by (simp add: demo_hs_def demo_hs4_def)
qed

lemma demo_ch_ok: "ch_ok demo_ch" "ch_ok demo_a"
proof -
  show ok: "ch_ok demo_ch"
    by (rule Channel_new_ok(1) [OF demo_handshake_runs(1)])
  show "ch_ok demo_a"
    using connect_ok [OF ok, of 7 be_lib "Some 5" 1 100 "[]"] demo_handshake_runs(2) by auto
qed

end
