(* ===== verification/Rpc_Status.thy ===== *)
theory Rpc_Status
  imports Transport_Prelude
begin

text \<open>
  The status codes of RPC calls (\<^verbatim>\<open>rpc/status.{h,cpp}\<close>). A status received from the wire is
  an arbitrary byte cast to the enum; bytes without an enumerator are kept apart.
\<close>

datatype RpcStatus = kOk | kCancelled | kUnknown | kInvalidArgument | kDeadlineExceeded | kNotFound
  | kAlreadyExists | kPermissionDenied | kUnauthenticated | kResourceExhausted | kFailedPrecondition
  | kAborted | kOutOfRange | kUnimplemented | kInternal | kUnavailable | kDataLoss | kOtherStatus u8

text \<open>The underlying value, as \<open>(uint8_t)status\<close> gives it, and the cast from a byte.\<close>

fun RpcStatus_value :: "RpcStatus \<Rightarrow> u8" where
  "RpcStatus_value kOk = 0"
| "RpcStatus_value kCancelled = 1"
| "RpcStatus_value kUnknown = 2"
| "RpcStatus_value kInvalidArgument = 3"
| "RpcStatus_value kDeadlineExceeded = 4"
| "RpcStatus_value kNotFound = 5"
| "RpcStatus_value kAlreadyExists = 6"
| "RpcStatus_value kPermissionDenied = 7"
| "RpcStatus_value kUnauthenticated = 16"
| "RpcStatus_value kResourceExhausted = 8"
| "RpcStatus_value kFailedPrecondition = 9"
| "RpcStatus_value kAborted = 10"
| "RpcStatus_value kOutOfRange = 11"
| "RpcStatus_value kUnimplemented = 12"
| "RpcStatus_value kInternal = 13"
| "RpcStatus_value kUnavailable = 14"
| "RpcStatus_value kDataLoss = 15"
| "RpcStatus_value (kOtherStatus n) = n"

definition RpcStatus_of :: "u8 \<Rightarrow> RpcStatus" where
  "RpcStatus_of n =
     (if n \<le> 16 then [kOk, kCancelled, kUnknown, kInvalidArgument, kDeadlineExceeded, kNotFound, kAlreadyExists,
        kPermissionDenied, kResourceExhausted, kFailedPrecondition, kAborted, kOutOfRange, kUnimplemented,
        kInternal, kUnavailable, kDataLoss, kUnauthenticated] ! unat n
      else kOtherStatus n)"

fun RpcStatusAsString :: "RpcStatus \<Rightarrow> string" where
  "RpcStatusAsString kOk = ''OK''"
| "RpcStatusAsString kCancelled = ''cancelled''"
| "RpcStatusAsString kUnknown = ''unknown''"
| "RpcStatusAsString kInvalidArgument = ''invalid argument''"
| "RpcStatusAsString kDeadlineExceeded = ''deadline exceeded''"
| "RpcStatusAsString kNotFound = ''not found''"
| "RpcStatusAsString kAlreadyExists = ''already exists''"
| "RpcStatusAsString kPermissionDenied = ''permission denied''"
| "RpcStatusAsString kUnauthenticated = ''unauthenticated''"
| "RpcStatusAsString kResourceExhausted = ''resource exhausted''"
| "RpcStatusAsString kFailedPrecondition = ''failed precondition''"
| "RpcStatusAsString kAborted = ''aborted''"
| "RpcStatusAsString kOutOfRange = ''out of range''"
| "RpcStatusAsString kUnimplemented = ''unimplemented''"
| "RpcStatusAsString kInternal = ''internal''"
| "RpcStatusAsString kUnavailable = ''unavailable''"
| "RpcStatusAsString kDataLoss = ''data loss''"
| "RpcStatusAsString (kOtherStatus n) = ''unknown error''"

text \<open>A status as the enum has it: one of the enumerators.\<close>

definition status_ok :: "RpcStatus \<Rightarrow> bool" where
  "status_ok s \<longleftrightarrow> (\<forall>n. s = kOtherStatus n \<longrightarrow> 16 < n)"

lemma RpcStatus_of_value: "status_ok s \<Longrightarrow> RpcStatus_of (RpcStatus_value s) = s"
  by (cases s) (auto simp: RpcStatus_of_def status_ok_def)

lemma byte_le_16:
  assumes "n \<le> (16 :: u8)"
  shows "n \<in> {0, 1, 2, 3, 4, 5, 6, 7, 8, 9, 10, 11, 12, 13, 14, 15, 16}"
proof -
  have "unat n \<in> set [0..<17]"
    using assms by (simp add: word_le_nat_alt)
  then have "(of_nat (unat n) :: u8) \<in> of_nat ` set [0..<17]"
    by (rule imageI)
  then show ?thesis
    by (simp add: upt_rec)
qed

lemma RpcStatus_value_of: "RpcStatus_value (RpcStatus_of n) = n" "status_ok (RpcStatus_of n)"
proof -
  have "RpcStatus_value (RpcStatus_of n) = n \<and> status_ok (RpcStatus_of n)"
  proof (cases "n \<le> 16")
    case True
    then show ?thesis
      using byte_le_16 [OF True] by (auto simp: RpcStatus_of_def status_ok_def)
  qed (simp add: RpcStatus_of_def status_ok_def)
  then show "RpcStatus_value (RpcStatus_of n) = n" "status_ok (RpcStatus_of n)"
    by blast+
qed

end
