(* ===== verification/Rpc_Header.thy ===== *)
theory Rpc_Header
  imports Rpc_Status
begin

text \<open>
  The header of RPC messages (\<^verbatim>\<open>rpc/internal/header.{h,cpp}\<close>): construction, serialization into a
  bounded buffer, parsing of arbitrary bytes. The readers and writers of \<open>roo_io\<close> are a parameter;
  the laws the header relies on are the locale \<open>rpc_io\<close>, which an instance with base-128 varints
  satisfies.
\<close>

section \<open>Iterators\<close>

type_synonym RpcFunctionId = u32
type_synonym RpcStreamId = u32

text \<open>
  A \<open>MemoryOutputIterator\<close> over a buffer of \<open>oi_size\<close> bytes (what has been written, and whether
  its status is \<open>kOk\<close>) and a \<open>MemoryIterator\<close> (the bytes not read yet).
\<close>

record out_iter =
  oi_bytes :: "byte list"
  oi_size :: nat
  oi_ok :: bool

record mem_iter =
  mi_bytes :: "byte list"
  mi_ok :: bool

text \<open>\<open>ReadVarU32\<close> gives its result, the value stored and the iterator.\<close>

record io_lib =
  io_write :: "out_iter \<Rightarrow> byte \<Rightarrow> out_iter"
  WriteU8 :: "out_iter \<Rightarrow> u8 \<Rightarrow> out_iter"
  WriteBeU24 :: "out_iter \<Rightarrow> u32 \<Rightarrow> out_iter"
  WriteVarU64 :: "out_iter \<Rightarrow> u64 \<Rightarrow> out_iter"
  ReadU8 :: "mem_iter \<Rightarrow> u8 \<times> mem_iter"
  ReadBeU24 :: "mem_iter \<Rightarrow> u32 \<times> mem_iter"
  ReadVarU32 :: "mem_iter \<Rightarrow> bool \<times> u32 \<times> mem_iter"

section \<open>The header\<close>

datatype MessageType = kUnset | kRequest | kResponse

text \<open>The union of a header, tagged with the member last written.\<close>

datatype header_union = new_request RpcFunctionId u32 | last_response RpcStatus | continuation

record RpcHeader =
  hd_type :: MessageType
  hd_first_message :: bool
  hd_last_message :: bool
  hd_has_timeout :: bool
  hd_stream_id :: RpcStreamId
  hd_union :: header_union

definition kMaxSerializedSize :: nat where
  "kMaxSerializedSize = 32"

definition RpcHeader_new :: RpcHeader where
  "RpcHeader_new = \<lparr>hd_type = kUnset, hd_first_message = False, hd_last_message = False, hd_has_timeout = False,
     hd_stream_id = 0, hd_union = continuation\<rparr>"

text \<open>The accessors; reading a member of the union that was not written is \<open>None\<close>, as a failed \<open>CHECK\<close>.\<close>

definition functionId :: "RpcHeader \<Rightarrow> RpcFunctionId option" where
  "functionId h = do {
     CHECK (hd_type h = kRequest \<and> hd_first_message h);
     case hd_union h of new_request f t \<Rightarrow> Some f | _ \<Rightarrow> None
   }"

definition timeoutMs :: "RpcHeader \<Rightarrow> u32 option" where
  "timeoutMs h = do {
     CHECK (hd_type h = kRequest \<and> hd_first_message h \<and> hd_has_timeout h);
     case hd_union h of new_request f t \<Rightarrow> Some t | _ \<Rightarrow> None
   }"

definition responseStatus :: "RpcHeader \<Rightarrow> RpcStatus option" where
  "responseStatus h = do {
     CHECK (hd_type h = kResponse \<and> hd_last_message h);
     case hd_union h of last_response s \<Rightarrow> Some s | _ \<Rightarrow> None
   }"

definition NewUnaryRequest :: "RpcFunctionId \<Rightarrow> RpcStreamId \<Rightarrow> RpcHeader" where
  "NewUnaryRequest function_id stream_id =
     RpcHeader_new\<lparr>hd_type := kRequest, hd_first_message := True, hd_last_message := True, hd_has_timeout := False,
       hd_stream_id := stream_id, hd_union := new_request function_id 0\<rparr>"

definition NewUnaryRequest_timeout :: "RpcFunctionId \<Rightarrow> RpcStreamId \<Rightarrow> u32 \<Rightarrow> RpcHeader" where
  "NewUnaryRequest_timeout function_id stream_id timeout_ms =
     RpcHeader_new\<lparr>hd_type := kRequest, hd_first_message := True, hd_last_message := True, hd_has_timeout := True,
       hd_stream_id := stream_id, hd_union := new_request function_id timeout_ms\<rparr>"

definition NewUnaryResponse :: "RpcStreamId \<Rightarrow> RpcStatus \<Rightarrow> RpcHeader" where
  "NewUnaryResponse stream_id status =
     RpcHeader_new\<lparr>hd_type := kResponse, hd_first_message := True, hd_last_message := True, hd_has_timeout := False,
       hd_stream_id := stream_id, hd_union := last_response status\<rparr>"

section \<open>Serialization\<close>

text \<open>
  The bytes written to the buffer; \<open>None\<close> is the failed \<open>CHECK_EQ\<close> on the iterator's status
  (or reading a member of the union that was not written).
\<close>

definition header_mask :: "RpcHeader \<Rightarrow> u8" where
  "header_mask h =
     0 OR (if hd_type h = kRequest then 0x01 else 0)
       OR (if hd_first_message h then 0x02 else 0)
       OR (if hd_last_message h then 0x04 else 0)
       OR (if hd_has_timeout h then 0x08 else 0)"

definition RpcHeader_serialize :: "io_lib \<Rightarrow> RpcHeader \<Rightarrow> nat \<Rightarrow> byte list option" where
  "RpcHeader_serialize IO h buffer_size = do {
     let it = \<lparr>oi_bytes = [], oi_size = buffer_size, oi_ok = True\<rparr>;
     let it = io_write IO it (header_mask h);
     let it = WriteBeU24 IO it (hd_stream_id h);
     it \<leftarrow> (if hd_type h = kRequest \<and> hd_first_message h then
              (case hd_union h of
                 new_request function_id timeout_ms \<Rightarrow>
                   let it = WriteVarU64 IO it (ucast function_id)
                   in Some (if hd_has_timeout h then WriteVarU64 IO it (ucast timeout_ms) else it)
               | _ \<Rightarrow> None)
            else if hd_type h = kResponse \<and> hd_last_message h then
              (case hd_union h of last_response status \<Rightarrow> Some (WriteU8 IO it (RpcStatus_value status)) | _ \<Rightarrow> None)
            else Some it);
     CHECK (oi_ok it);
     Some (oi_bytes it)
   }"

text \<open>
  The number of bytes consumed (0 for an invalid header) and the header. Nothing reads the union
  of a header whose parsing failed.
\<close>

definition RpcHeader_deserialize :: "io_lib \<Rightarrow> RpcHeader \<Rightarrow> byte list \<Rightarrow> nat \<times> RpcHeader" where
  "RpcHeader_deserialize IO h buffer =
     (let it = \<lparr>mi_bytes = buffer, mi_ok = True\<rparr>;
          (mask, it) = ReadU8 IO it
      in if mask AND 0xF0 \<noteq> 0 then (0, h)
         else
           (let h = h\<lparr>hd_type := (if mask AND 0x01 \<noteq> 0 then kRequest else kResponse),
                      hd_first_message := (mask AND 0x02 \<noteq> 0),
                      hd_last_message := (mask AND 0x04 \<noteq> 0),
                      hd_has_timeout := (mask AND 0x08 \<noteq> 0)\<rparr>;
                (stream_id, it) = ReadBeU24 IO it;
                h = h\<lparr>hd_stream_id := stream_id\<rparr>;
                finish = (\<lambda>h it. if \<not> mi_ok it then (0, h) else (length buffer - length (mi_bytes it), h))
            in if hd_type h = kRequest \<and> hd_first_message h then
                 (let (ok, function_id, it) = ReadVarU32 IO it
                  in if \<not> ok then (0, h)
                     else if hd_has_timeout h then
                       (let (ok, timeout_ms, it) = ReadVarU32 IO it
                        in if \<not> ok then (0, h\<lparr>hd_union := new_request function_id 0\<rparr>)
                           else finish (h\<lparr>hd_union := new_request function_id timeout_ms\<rparr>) it)
                     else finish (h\<lparr>hd_union := new_request function_id 0\<rparr>) it)
               else if hd_type h = kResponse \<and> hd_last_message h then
                 (let (status, it) = ReadU8 IO it
                  in finish (h\<lparr>hd_union := last_response (RpcStatus_of status)\<rparr>) it)
               else finish h it))"

section \<open>Laws\<close>

text \<open>
  \<open>u8b\<close>, \<open>u24b\<close> and \<open>varb\<close> are the encodings: a writer appends one when it fits in the buffer, the
  reader of the same kind takes it off. A 64-bit varint takes at most ten bytes. A reader whose
  input is cut off fails, and a failed iterator stays failed.
\<close>

locale rpc_io =
  fixes IO :: io_lib and u24b :: "u32 \<Rightarrow> byte list" and varb :: "u64 \<Rightarrow> byte list"
  assumes io_write: "oi_ok it \<Longrightarrow> length (oi_bytes it) + 1 \<le> oi_size it \<Longrightarrow>
      io_write IO it b = it\<lparr>oi_bytes := oi_bytes it @ [b]\<rparr>"
    and WriteU8: "oi_ok it \<Longrightarrow> length (oi_bytes it) + 1 \<le> oi_size it \<Longrightarrow>
      WriteU8 IO it b = it\<lparr>oi_bytes := oi_bytes it @ [b]\<rparr>"
    and WriteBeU24: "oi_ok it \<Longrightarrow> length (oi_bytes it) + 3 \<le> oi_size it \<Longrightarrow>
      WriteBeU24 IO it x = it\<lparr>oi_bytes := oi_bytes it @ u24b x\<rparr>"
    and WriteVarU64: "oi_ok it \<Longrightarrow> length (oi_bytes it) + length (varb v) \<le> oi_size it \<Longrightarrow>
      WriteVarU64 IO it v = it\<lparr>oi_bytes := oi_bytes it @ varb v\<rparr>"
    and length_u24b: "length (u24b x) = 3"
    and length_varb: "0 < length (varb v)" "length (varb v) \<le> 10"
    and ReadU8: "ReadU8 IO \<lparr>mi_bytes = b # rest, mi_ok = True\<rparr> = (b, \<lparr>mi_bytes = rest, mi_ok = True\<rparr>)"
    and ReadBeU24: "x < 0x1000000 \<Longrightarrow>
      ReadBeU24 IO \<lparr>mi_bytes = u24b x @ rest, mi_ok = True\<rparr> = (x, \<lparr>mi_bytes = rest, mi_ok = True\<rparr>)"
    and ReadVarU32: "ReadVarU32 IO \<lparr>mi_bytes = varb (ucast y) @ rest, mi_ok = True\<rparr> =
      (True, y, \<lparr>mi_bytes = rest, mi_ok = True\<rparr>)"
    and ReadU8_end: "\<not> mi_ok (snd (ReadU8 IO \<lparr>mi_bytes = [], mi_ok = ok\<rparr>))"
    and ReadBeU24_end: "length bs < 3 \<Longrightarrow> \<not> mi_ok (snd (ReadBeU24 IO \<lparr>mi_bytes = bs, mi_ok = True\<rparr>))"
    and ReadVarU32_end: "k < length (varb v) \<Longrightarrow> \<not> fst (ReadVarU32 IO \<lparr>mi_bytes = take k (varb v), mi_ok = True\<rparr>)"
    and Read_sticky: "\<not> mi_ok m \<Longrightarrow> \<not> mi_ok (snd (ReadU8 IO m))" "\<not> mi_ok m \<Longrightarrow> \<not> fst (ReadVarU32 IO m)"

text \<open>
  The union of the header agrees with its type; the header is one the wire format can carry: its
  stream id has 24 bits.
\<close>

definition header_shape :: "RpcHeader \<Rightarrow> bool" where
  "header_shape h \<longleftrightarrow> hd_type h \<noteq> kUnset \<and>
     (case hd_union h of
        new_request f t \<Rightarrow> hd_type h = kRequest \<and> hd_first_message h
      | last_response s \<Rightarrow> hd_type h = kResponse \<and> hd_last_message h
      | continuation \<Rightarrow> \<not> (hd_type h = kRequest \<and> hd_first_message h) \<and> \<not> (hd_type h = kResponse \<and> hd_last_message h))"

definition header_wf :: "RpcHeader \<Rightarrow> bool" where
  "header_wf h \<longleftrightarrow> header_shape h \<and> hd_stream_id h < 0x1000000 \<and>
     (case hd_union h of
        new_request f t \<Rightarrow> \<not> hd_has_timeout h \<longrightarrow> t = 0
      | last_response s \<Rightarrow> status_ok s
      | continuation \<Rightarrow> True)"

text \<open>The bytes of a header.\<close>

definition header_bytes :: "(u32 \<Rightarrow> byte list) \<Rightarrow> (u64 \<Rightarrow> byte list) \<Rightarrow> RpcHeader \<Rightarrow> byte list" where
  "header_bytes u24b varb h = header_mask h # u24b (hd_stream_id h) @
     (case hd_union h of
        new_request f t \<Rightarrow> varb (ucast f) @ (if hd_has_timeout h then varb (ucast t) else [])
      | last_response s \<Rightarrow> [RpcStatus_value s]
      | continuation \<Rightarrow> [])"

lemma mask_bits:
  fixes h :: RpcHeader
  shows "header_mask h AND 0xF0 = 0"
    and "(header_mask h AND 0x01 \<noteq> 0) = (hd_type h = kRequest)"
    and "(header_mask h AND 0x02 \<noteq> 0) = hd_first_message h"
    and "(header_mask h AND 0x04 \<noteq> 0) = hd_last_message h"
    and "(header_mask h AND 0x08 \<noteq> 0) = hd_has_timeout h"
  by (simp_all add: header_mask_def)

lemma new_header_wf:
  assumes "stream_id < 0x1000000"
  shows "header_wf (NewUnaryRequest f stream_id)" "header_wf (NewUnaryRequest_timeout f stream_id t)"
    and "status_ok s \<Longrightarrow> header_wf (NewUnaryResponse stream_id s)"
  using assms
  by (simp_all add: header_wf_def header_shape_def NewUnaryRequest_def NewUnaryRequest_timeout_def
    NewUnaryResponse_def)

lemma new_header_shape:
  "header_shape (NewUnaryRequest f i)" "header_shape (NewUnaryRequest_timeout f i t)" "header_shape (NewUnaryResponse i s)"
  by (simp_all add: header_shape_def NewUnaryRequest_def NewUnaryRequest_timeout_def NewUnaryResponse_def)

context rpc_io
begin

lemma length_header_bytes: "4 \<le> length (header_bytes u24b varb h)" "length (header_bytes u24b varb h) \<le> 24"
proof -
  have "length (header_bytes u24b varb h) \<le> 24"
  proof (cases "hd_union h")
    case (new_request f t)
    then show ?thesis
      using length_varb(2) [of "ucast f"] length_varb(2) [of "ucast t"]
      by (simp add: header_bytes_def length_u24b)
  qed (simp_all add: header_bytes_def length_u24b)
  then show "4 \<le> length (header_bytes u24b varb h)" "length (header_bytes u24b varb h) \<le> 24"
    by (simp_all add: header_bytes_def length_u24b)
qed

lemma serialize_header_bytes:
  assumes "header_shape h" "24 \<le> n"
  shows "RpcHeader_serialize IO h n = Some (header_bytes u24b varb h)"
proof (cases "hd_union h")
  case (new_request f t)
  then have "4 + length (varb (ucast f)) + length (varb (ucast t)) \<le> n"
    using length_varb(2) [of "ucast f"] length_varb(2) [of "ucast t"] assms(2) by simp
  with new_request show ?thesis
    using assms
    by (simp add: RpcHeader_serialize_def header_bytes_def header_shape_def io_write WriteBeU24 WriteU8 WriteVarU64
        length_u24b CHECK_bind Let_def)
qed (use assms in \<open>simp_all add: RpcHeader_serialize_def header_bytes_def header_shape_def io_write WriteBeU24 WriteU8
  WriteVarU64 length_u24b CHECK_bind Let_def\<close>)

lemma deserialize_header_bytes:
  assumes "header_wf h"
  shows "RpcHeader_deserialize IO RpcHeader_new (header_bytes u24b varb h @ payload) = (length (header_bytes u24b varb h), h)"
  using assms
  by (cases h; cases "hd_union h"; cases "hd_type h")
    (auto simp: RpcHeader_deserialize_def header_bytes_def header_wf_def header_shape_def mask_bits ReadU8 ReadBeU24 ReadVarU32
      Let_def RpcStatus_of_value RpcHeader_new_def)

end

text \<open>
  Whatever the bytes, a header that was accepted answers the questions its readers ask: a first
  request has a function id (and a timeout, if it says so), a last response has a status.
\<close>

lemma deserialize_bound: "fst (RpcHeader_deserialize IO h bs) \<le> length bs"
  by (simp add: RpcHeader_deserialize_def Let_def split: prod.split)

lemma deserialize_type:
  assumes "RpcHeader_deserialize IO h bs = (n, h')" "0 < n"
  shows "hd_type h' = kRequest \<or> hd_type h' = kResponse"
  using assms by (auto simp: RpcHeader_deserialize_def Let_def split: prod.splits if_splits)

lemma deserialize_functionId:
  assumes "RpcHeader_deserialize IO h bs = (n, h')" "0 < n" "hd_type h' = kRequest" "hd_first_message h'"
  shows "\<exists>f t. hd_union h' = new_request f t"
  using assms by (auto simp: RpcHeader_deserialize_def Let_def split: prod.splits if_splits)

lemma deserialize_status:
  assumes "RpcHeader_deserialize IO h bs = (n, h')" "0 < n" "hd_type h' = kResponse" "hd_last_message h'"
  shows "\<exists>s. hd_union h' = last_response s"
  using assms by (auto simp: RpcHeader_deserialize_def Let_def split: prod.splits if_splits)

context rpc_io
begin

lemma deserialize_stream_id_end:
  assumes "\<not> mi_ok (snd (ReadBeU24 IO \<lparr>mi_bytes = bs, mi_ok = True\<rparr>))"
  shows "fst (RpcHeader_deserialize IO h (m # bs)) = 0"
proof -
  obtain x it where x: "ReadBeU24 IO \<lparr>mi_bytes = bs, mi_ok = True\<rparr> = (x, it)"
    by (metis surj_pair)
  obtain ok f it' where f: "ReadVarU32 IO it = (ok, f, it')"
    by (metis surj_pair)
  obtain s it'' where s: "ReadU8 IO it = (s, it'')"
    by (metis surj_pair)
  have "\<not> mi_ok it" "\<not> ok" "\<not> mi_ok it''"
    using assms Read_sticky [of it] x f s by simp_all
  then show ?thesis
    by (simp add: RpcHeader_deserialize_def ReadU8 Let_def x f s)
qed

lemma deserialize_function_id_end:
  assumes "hd_stream_id h < 0x1000000" "hd_type h = kRequest" "hd_first_message h"
    and "\<not> fst (ReadVarU32 IO \<lparr>mi_bytes = rest, mi_ok = True\<rparr>)"
  shows "fst (RpcHeader_deserialize IO h0 (header_mask h # u24b (hd_stream_id h) @ rest)) = 0"
  using assms
  by (cases "ReadVarU32 IO \<lparr>mi_bytes = rest, mi_ok = True\<rparr>")
    (simp add: RpcHeader_deserialize_def ReadU8 ReadBeU24 mask_bits Let_def)

lemma deserialize_timeout_end:
  fixes f :: RpcFunctionId
  assumes "hd_stream_id h < 0x1000000" "hd_type h = kRequest" "hd_first_message h" "hd_has_timeout h"
    and "\<not> fst (ReadVarU32 IO \<lparr>mi_bytes = rest, mi_ok = True\<rparr>)"
  shows "fst (RpcHeader_deserialize IO h0 (header_mask h # u24b (hd_stream_id h) @ varb (ucast f) @ rest)) = 0"
  using assms
  by (cases "ReadVarU32 IO \<lparr>mi_bytes = rest, mi_ok = True\<rparr>")
    (simp add: RpcHeader_deserialize_def ReadU8 ReadBeU24 ReadVarU32 mask_bits Let_def)

lemma deserialize_status_end:
  assumes "hd_stream_id h < 0x1000000" "hd_type h = kResponse" "hd_last_message h"
  shows "fst (RpcHeader_deserialize IO h0 (header_mask h # u24b (hd_stream_id h))) = 0"
  using assms ReadU8_end [of True] ReadBeU24 [of "hd_stream_id h" "[]"]
  by (cases "ReadU8 IO \<lparr>mi_bytes = [], mi_ok = True\<rparr>")
    (simp add: RpcHeader_deserialize_def ReadU8 mask_bits Let_def)

text \<open>A header that is cut off anywhere is rejected.\<close>

lemma take_stream_id: "take (4 + j) (m # u24b x @ rest) = m # u24b x @ take j rest"
  by (simp add: take_Cons' length_u24b)

lemma deserialize_truncated:
  assumes wf: "header_wf h" and k: "k < length (header_bytes u24b varb h)"
  shows "fst (RpcHeader_deserialize IO h0 (take k (header_bytes u24b varb h))) = 0"
proof (cases "k < 4")
  case True
  then show ?thesis
    using deserialize_bound [of IO _ "[]"]
    by (cases k) (simp_all add: header_bytes_def length_u24b deserialize_stream_id_end ReadBeU24_end)
next
  case False
  define j where "j = k - 4"
  then have j: "k = 4 + j"
    using False by simp
  have x: "hd_stream_id h < 0x1000000"
    using wf by (simp add: header_wf_def header_shape_def)
  show ?thesis
  proof (cases "hd_union h")
    case (new_request f t)
    then have h: "hd_type h = kRequest" "hd_first_message h"
      using wf by (simp_all add: header_wf_def header_shape_def)
    show ?thesis
    proof (cases "j < length (varb (ucast f))")
      case True
      then have "take k (header_bytes u24b varb h) = header_mask h # u24b (hd_stream_id h) @ take j (varb (ucast f))"
        by (simp only: j header_bytes_def new_request header_union.case take_stream_id) simp
      then show ?thesis
        using deserialize_function_id_end [OF x h ReadVarU32_end [OF True]] by simp
    next
      case False
      define i where "i = j - length (varb (ucast f))"
      then have i: "j = length (varb (ucast f)) + i"
        using False by simp
      then have t: "hd_has_timeout h" "i < length (varb (ucast t))"
        using k by (simp_all add: j header_bytes_def new_request length_u24b split: if_splits)
      have "take k (header_bytes u24b varb h) =
          header_mask h # u24b (hd_stream_id h) @ varb (ucast f) @ take i (varb (ucast t))"
        by (simp only: j header_bytes_def new_request header_union.case take_stream_id t if_True) (simp add: i)
      then show ?thesis
        using deserialize_timeout_end [OF x h t(1) ReadVarU32_end [OF t(2)]] by simp
    qed
  next
    case (last_response s)
    then have "take k (header_bytes u24b varb h) = header_mask h # u24b (hd_stream_id h)"
      using k by (simp add: j header_bytes_def length_u24b)
    then show ?thesis
      using last_response wf deserialize_status_end [OF x] by (simp add: header_wf_def header_shape_def)
  qed (use k in \<open>simp add: j header_bytes_def length_u24b\<close>)
qed

end

section \<open>An instance\<close>

text \<open>Base-128 varints, least significant group first, and three-byte stream ids.\<close>

fun varint :: "nat \<Rightarrow> nat \<Rightarrow> byte list" where
  "varint 0 n = [of_nat n]"
| "varint (Suc k) n = (if n < 128 then [of_nat n] else of_nat (n mod 128 + 128) # varint k (n div 128))"

fun read_varint :: "nat \<Rightarrow> byte list \<Rightarrow> (nat \<times> byte list) option" where
  "read_varint k [] = None"
| "read_varint 0 (b # bs) = Some (unat b, bs)"
| "read_varint (Suc k) (b # bs) =
     (if unat b < 128 then Some (unat b, bs)
      else case read_varint k bs of None \<Rightarrow> None | Some (n, bs) \<Rightarrow> Some (unat b - 128 + 128 * n, bs))"

lemma unat_byte: "n < 256 \<Longrightarrow> unat (of_nat n :: byte) = n"
  by (simp add: unsigned_of_nat take_bit_nat_eq_self)

lemma unat_group: "unat (of_nat (n mod 128) + 128 :: byte) = n mod 128 + 128"
proof -
  have "n mod 128 < 128"
    by simp
  then have "n mod 128 + 128 < 256"
    by linarith
  then show ?thesis
    using unat_byte [of "n mod 128 + 128"] by simp
qed

lemma read_varint_varint: "n < 256 * 128 ^ k \<Longrightarrow> read_varint k (varint k n @ rest) = Some (n, rest)"
proof (induction k arbitrary: n)
  case (Suc k)
  have "n div 128 < 256 * 128 ^ k"
    using Suc.prems by (simp add: less_mult_imp_div_less)
  then show ?case
    using Suc.IH [of "n div 128"] by (simp add: unat_byte unat_group)
qed (simp add: unat_byte)

lemma read_varint_end: "n < 256 * 128 ^ k \<Longrightarrow> j < length (varint k n) \<Longrightarrow> read_varint k (take j (varint k n)) = None"
proof (induction k arbitrary: n j)
  case (Suc k)
  have "n div 128 < 256 * 128 ^ k"
    using Suc.prems by (simp add: less_mult_imp_div_less)
  then show ?case
    using Suc.IH [of "n div 128" "j - 1"] Suc.prems by (cases j) (auto simp: unat_byte unat_group split: if_splits)
qed simp

lemma length_varint: "0 < length (varint k n) \<and> length (varint k n) \<le> k + 1"
  by (induction k arbitrary: n) auto

definition be24 :: "u32 \<Rightarrow> byte list" where
  "be24 x = [ucast (drop_bit 16 x), ucast (drop_bit 8 x), ucast x]"

definition out_append :: "out_iter \<Rightarrow> byte list \<Rightarrow> out_iter" where
  "out_append it bs =
     (if oi_ok it \<and> length (oi_bytes it) + length bs \<le> oi_size it then it\<lparr>oi_bytes := oi_bytes it @ bs\<rparr>
      else it\<lparr>oi_ok := False\<rparr>)"

definition mem_fail :: "mem_iter \<Rightarrow> mem_iter" where
  "mem_fail it = it\<lparr>mi_ok := False\<rparr>"

definition be_io :: io_lib where
  "be_io = \<lparr>io_write = (\<lambda>it b. out_append it [b]), WriteU8 = (\<lambda>it b. out_append it [b]),
     WriteBeU24 = (\<lambda>it x. out_append it (be24 x)), WriteVarU64 = (\<lambda>it v. out_append it (varint 9 (unat v))),
     ReadU8 = (\<lambda>it. if mi_ok it then (case mi_bytes it of [] \<Rightarrow> (0, mem_fail it) | b # bs \<Rightarrow> (b, it\<lparr>mi_bytes := bs\<rparr>))
               else (0, it)),
     ReadBeU24 = (\<lambda>it. if mi_ok it then
                 (case mi_bytes it of
                    a # b # c # bs \<Rightarrow> (push_bit 16 (ucast a) OR push_bit 8 (ucast b) OR ucast c, it\<lparr>mi_bytes := bs\<rparr>)
                  | _ \<Rightarrow> (0, mem_fail it))
               else (0, it)),
     ReadVarU32 = (\<lambda>it. if mi_ok it then
                 (case read_varint 9 (mi_bytes it) of
                    Some (n, bs) \<Rightarrow> if n < 4294967296 then (True, of_nat n, it\<lparr>mi_bytes := bs\<rparr>) else (False, 0, it)
                  | None \<Rightarrow> (False, 0, mem_fail it))
               else (False, 0, it))\<rparr>"

lemma be24_inverse:
  fixes x :: u32
  assumes "x < 0x1000000"
  shows "push_bit 16 (ucast (ucast (drop_bit 16 x) :: byte)) OR push_bit 8 (ucast (ucast (drop_bit 8 x) :: byte)) OR
    ucast (ucast x :: byte) = (x :: u32)"
proof (rule bit_word_eqI)
  fix n assume n: "n < LENGTH(32)"
  have "take_bit 24 (unat x) = unat x"
    using assms by (simp add: take_bit_nat_eq_self word_less_nat_alt)
  then have "bit (unat x) n \<Longrightarrow> n < 24"
    by (metis bit_take_bit_iff)
  then have "bit x n \<Longrightarrow> n < 24"
    by (simp add: bit_unsigned_iff)
  with n show "bit (push_bit 16 (ucast (ucast (drop_bit 16 x) :: byte)) OR push_bit 8 (ucast (ucast (drop_bit 8 x) :: byte)) OR
      ucast (ucast x :: byte) :: u32) n = bit x n"
    by (cases "n < 8"; cases "n < 16"; cases "n < 24")
      (auto simp: bit_or_iff bit_push_bit_iff bit_ucast_iff bit_drop_bit_eq not_le)
qed

lemma read_varint_u32: "read_varint 9 (varint 9 (unat (ucast y :: u64)) @ rest) = Some (unat (y :: u32), rest)"
proof -
  have "unat (ucast y :: u64) = unat y"
    by (simp add: unsigned_ucast_eq take_bit_nat_eq_self order_less_trans [OF unsigned_less])
  moreover have "unat y < 256 * 128 ^ 9"
    using unsigned_less [of y, where ?'a = nat] by simp
  ultimately show ?thesis
    by (simp add: read_varint_varint)
qed

interpretation beio: rpc_io be_io be24 "\<lambda>v. varint 9 (unat v)"
proof unfold_locales
  show "length (varint 9 (unat v)) \<le> 10" for v :: u64
    using length_varint [of 9 "unat v"] by simp
  show "0 < length (varint 9 (unat v))" for v :: u64
    using length_varint [of 9 "unat v"] by simp
  show "x < 0x1000000 \<Longrightarrow> ReadBeU24 be_io \<lparr>mi_bytes = be24 x @ rest, mi_ok = True\<rparr> = (x, \<lparr>mi_bytes = rest, mi_ok = True\<rparr>)"
    for x rest
    by (simp add: be_io_def be24_def be24_inverse)
  show "ReadVarU32 be_io \<lparr>mi_bytes = varint 9 (unat (ucast y :: u64)) @ rest, mi_ok = True\<rparr> =
      (True, y, \<lparr>mi_bytes = rest, mi_ok = True\<rparr>)" for y :: u32 and rest
    using unsigned_less [of y, where ?'a = nat] by (simp add: be_io_def read_varint_u32)
  show "\<not> fst (ReadVarU32 be_io \<lparr>mi_bytes = take k (varint 9 (unat v)), mi_ok = True\<rparr>)"
    if "k < length (varint 9 (unat v))" for k and v :: u64
    using that unsigned_less [of v, where ?'a = nat] by (simp add: be_io_def read_varint_end)
  show "\<not> mi_ok (snd (ReadBeU24 be_io \<lparr>mi_bytes = bs, mi_ok = True\<rparr>))" if "length bs < 3" for bs
    using that by (cases bs; cases "tl bs"; cases "tl (tl bs)") (auto simp: be_io_def mem_fail_def)
  show "\<not> mi_ok m \<Longrightarrow> \<not> mi_ok (snd (ReadU8 be_io m))" "\<not> mi_ok m \<Longrightarrow> \<not> fst (ReadVarU32 be_io m)" for m
    by (simp_all add: be_io_def)
  show "\<not> mi_ok (snd (ReadU8 be_io \<lparr>mi_bytes = [], mi_ok = ok\<rparr>))" for ok
    by (simp add: be_io_def mem_fail_def)
qed (simp_all add: be_io_def out_append_def be24_def)

end
