(* ===== verification/Serialization.thy ===== *)
theory Serialization
  imports Rpc_Status
begin

text \<open>
  RPC payload serialization (\<^verbatim>\<open>rpc/serialization.h\<close>). Every specialization of \<open>Serializer\<close> and
  \<open>Deserializer\<close> is a definition; those for pairs and tuples take what the templates instantiate
  for the members as arguments. A \<open>deserialize\<close> call gives the error status or the value
  (\<open>Inl\<close>/\<open>Inr\<close>); a signed integer is its two's complement word.
\<close>

section \<open>Library functions\<close>

text \<open>The loads and stores of \<open>roo_io\<close> that only serialization uses.\<close>

record data_lib =
  StoreU8 :: "u8 \<Rightarrow> byte list"
  LoadU8 :: "byte list \<Rightarrow> u8"
  StoreS8 :: "u8 \<Rightarrow> byte list"
  LoadS8 :: "byte list \<Rightarrow> u8"
  StoreBeS16 :: "u16 \<Rightarrow> byte list"
  LoadBeS16 :: "byte list \<Rightarrow> u16"
  StoreBeS32 :: "u32 \<Rightarrow> byte list"
  LoadBeS32 :: "byte list \<Rightarrow> u32"
  StoreBeS64 :: "u64 \<Rightarrow> byte list"
  LoadBeS64 :: "byte list \<Rightarrow> u64"
  LoadBeU64 :: "byte list \<Rightarrow> u64"

section \<open>Serialized values\<close>

text \<open>What the users of a serialized value see of it: \<open>status()\<close> and the bytes of \<open>data()\<close>, \<open>size()\<close>.\<close>

record Serialized =
  sz_status :: RpcStatus
  sz_data :: "byte list"

definition NullSerialized :: Serialized where
  "NullSerialized = \<lparr>sz_status = kOk, sz_data = []\<rparr>"

text \<open>A \<open>StaticSerialized\<close> whose storage has been filled.\<close>

definition StaticSerialized :: "byte list \<Rightarrow> Serialized" where
  "StaticSerialized data = \<lparr>sz_status = kOk, sz_data = data\<rparr>"

definition SimpleSerialized :: Serialized where
  "SimpleSerialized = \<lparr>sz_status = kOk, sz_data = []\<rparr>"

definition SimpleSerialized_error :: "RpcStatus \<Rightarrow> Serialized" where
  "SimpleSerialized_error error = \<lparr>sz_status = error, sz_data = []\<rparr>"

definition SimpleSerialized_data :: "byte list \<Rightarrow> Serialized" where
  "SimpleSerialized_data data = \<lparr>sz_status = kOk, sz_data = data\<rparr>"

definition SerializedByteArrayAdapter :: "byte list \<Rightarrow> Serialized" where
  "SerializedByteArrayAdapter data = \<lparr>sz_status = kOk, sz_data = data\<rparr>"

section \<open>The dynamic buffer\<close>

record DynamicSerialized =
  ds_status :: RpcStatus
  ds_data :: "byte list"
  ds_pos :: nat

definition DynamicSerialized_new :: DynamicSerialized where
  "DynamicSerialized_new = \<lparr>ds_status = kOk, ds_data = [], ds_pos = 0\<rparr>"

definition DynamicSerialized_fail :: "DynamicSerialized \<Rightarrow> RpcStatus \<Rightarrow> DynamicSerialized" where
  "DynamicSerialized_fail r status = r\<lparr>ds_status := status, ds_data := [], ds_pos := 0\<rparr>"

definition DynamicSerialized_eos :: "DynamicSerialized \<Rightarrow> bool" where
  "DynamicSerialized_eos r \<longleftrightarrow> ds_pos r \<ge> length (ds_data r)"

definition DynamicSerialized_write_byte :: "DynamicSerialized \<Rightarrow> byte \<Rightarrow> DynamicSerialized" where
  "DynamicSerialized_write_byte r b =
     (let r = (if DynamicSerialized_eos r then
                 (let r = (if ds_pos r > length (ds_data r)
                           then r\<lparr>ds_data := ds_data r @ replicate (ds_pos r - length (ds_data r)) 0\<rparr> else r)
                  in r\<lparr>ds_data := ds_data r @ [b]\<rparr>)
               else r\<lparr>ds_data := (ds_data r)[ds_pos r := b]\<rparr>)
      in r\<lparr>ds_pos := ds_pos r + 1\<rparr>)"

text \<open>\<open>write(buf, count)\<close>: the buffer and the returned count.\<close>

definition DynamicSerialized_write :: "DynamicSerialized \<Rightarrow> byte list \<Rightarrow> DynamicSerialized \<times> nat" where
  "DynamicSerialized_write r buf =
     (let count = length buf;
          r = (if ds_pos r > length (ds_data r)
               then r\<lparr>ds_data := ds_data r @ replicate (ds_pos r - length (ds_data r)) 0\<rparr> else r);
          copy_over = length (ds_data r) - ds_pos r;
          copy_over = (if copy_over > count then count else copy_over);
          r = r\<lparr>ds_data := memcpy_at (ds_data r) (ds_pos r) (take copy_over buf), ds_pos := ds_pos r + copy_over\<rparr>;
          buf = drop copy_over buf;
          remaining = count - copy_over
      in if remaining = 0 then (r, copy_over)
         else (r\<lparr>ds_data := ds_data r @ buf, ds_pos := ds_pos r + remaining\<rparr>, count))"

definition DynamicSerialized_seek :: "DynamicSerialized \<Rightarrow> nat \<Rightarrow> DynamicSerialized" where
  "DynamicSerialized_seek r position = r\<lparr>ds_pos := position\<rparr>"

text \<open>The result as its users see it.\<close>

definition DynamicSerialized_view :: "DynamicSerialized \<Rightarrow> Serialized" where
  "DynamicSerialized_view r = \<lparr>sz_status = ds_status r, sz_data = ds_data r\<rparr>"

section \<open>Basic types\<close>

definition Serializer_Void :: "unit \<Rightarrow> Serialized" where
  "Serializer_Void val = NullSerialized"

definition Deserializer_Void :: "byte list \<Rightarrow> RpcStatus + unit" where
  "Deserializer_Void data = (if length data \<noteq> 0 then Inl kInvalidArgument else Inr ())"

definition Serializer_bool :: "data_lib \<Rightarrow> bool \<Rightarrow> Serialized" where
  "Serializer_bool D val = StaticSerialized (StoreU8 D (if val then 1 else 0))"

definition Deserializer_bool :: "data_lib \<Rightarrow> byte list \<Rightarrow> RpcStatus + bool" where
  "Deserializer_bool D data =
     (if length data \<noteq> 1 then Inl kInvalidArgument
      else let val = LoadU8 D data
           in if val > 1 then Inl kInvalidArgument else Inr (val \<noteq> 0))"

definition Serializer_int8 :: "data_lib \<Rightarrow> u8 \<Rightarrow> Serialized" where
  "Serializer_int8 D val = StaticSerialized (StoreS8 D val)"

definition Deserializer_int8 :: "data_lib \<Rightarrow> byte list \<Rightarrow> RpcStatus + u8" where
  "Deserializer_int8 D data = (if length data \<noteq> 1 then Inl kInvalidArgument else Inr (LoadS8 D data))"

definition Serializer_uint8 :: "data_lib \<Rightarrow> u8 \<Rightarrow> Serialized" where
  "Serializer_uint8 D val = StaticSerialized (StoreU8 D val)"

definition Deserializer_uint8 :: "data_lib \<Rightarrow> byte list \<Rightarrow> RpcStatus + u8" where
  "Deserializer_uint8 D data = (if length data \<noteq> 1 then Inl kInvalidArgument else Inr (LoadU8 D data))"

definition Serializer_int16 :: "data_lib \<Rightarrow> u16 \<Rightarrow> Serialized" where
  "Serializer_int16 D val = StaticSerialized (StoreBeS16 D val)"

definition Deserializer_int16 :: "data_lib \<Rightarrow> byte list \<Rightarrow> RpcStatus + u16" where
  "Deserializer_int16 D data = (if length data \<noteq> 2 then Inl kInvalidArgument else Inr (LoadBeS16 D data))"

definition Serializer_uint16 :: "lib \<Rightarrow> u16 \<Rightarrow> Serialized" where
  "Serializer_uint16 L val = StaticSerialized (StoreBeU16 L val)"

definition Deserializer_uint16 :: "lib \<Rightarrow> byte list \<Rightarrow> RpcStatus + u16" where
  "Deserializer_uint16 L data = (if length data \<noteq> 2 then Inl kInvalidArgument else Inr (LoadBeU16 L data))"

definition Serializer_int32 :: "data_lib \<Rightarrow> u32 \<Rightarrow> Serialized" where
  "Serializer_int32 D val = StaticSerialized (StoreBeS32 D val)"

definition Deserializer_int32 :: "data_lib \<Rightarrow> byte list \<Rightarrow> RpcStatus + u32" where
  "Deserializer_int32 D data = (if length data \<noteq> 4 then Inl kInvalidArgument else Inr (LoadBeS32 D data))"

definition Serializer_uint32 :: "lib \<Rightarrow> u32 \<Rightarrow> Serialized" where
  "Serializer_uint32 L val = StaticSerialized (StoreBeU32 L val)"

definition Deserializer_uint32 :: "lib \<Rightarrow> byte list \<Rightarrow> RpcStatus + u32" where
  "Deserializer_uint32 L data = (if length data \<noteq> 4 then Inl kInvalidArgument else Inr (LoadBeU32 L data))"

definition Serializer_int64 :: "data_lib \<Rightarrow> u64 \<Rightarrow> Serialized" where
  "Serializer_int64 D val = StaticSerialized (StoreBeS64 D val)"

definition Deserializer_int64 :: "data_lib \<Rightarrow> byte list \<Rightarrow> RpcStatus + u64" where
  "Deserializer_int64 D data = (if length data \<noteq> 8 then Inl kInvalidArgument else Inr (LoadBeS64 D data))"

definition Serializer_uint64 :: "lib \<Rightarrow> u64 \<Rightarrow> Serialized" where
  "Serializer_uint64 L val = StaticSerialized (StoreBeU64 L val)"

definition Deserializer_uint64 :: "data_lib \<Rightarrow> byte list \<Rightarrow> RpcStatus + u64" where
  "Deserializer_uint64 D data = (if length data \<noteq> 8 then Inl kInvalidArgument else Inr (LoadBeU64 D data))"

definition Serializer_string_view :: "byte list \<Rightarrow> Serialized" where
  "Serializer_string_view val = SerializedByteArrayAdapter val"

definition Deserializer_string_view :: "byte list \<Rightarrow> RpcStatus + byte list" where
  "Deserializer_string_view data = Inr data"

section \<open>Members\<close>

text \<open>The bridge for types that only have \<open>serialize\<close>.\<close>

definition IntoSerializer_default :: "Serialized \<Rightarrow> DynamicSerialized \<Rightarrow> DynamicSerialized" where
  "IntoSerializer_default serialized r = fst (DynamicSerialized_write r (sz_data serialized))"

text \<open>
  \<open>into\<close> is \<open>SerializeInto(val, result)\<close> for the member; \<open>WriteBeU16\<close> writes the two bytes that
  \<open>StoreBeU16\<close> stores.
\<close>

definition SerializeMemberInto ::
  "lib \<Rightarrow> (DynamicSerialized \<Rightarrow> DynamicSerialized) \<Rightarrow> DynamicSerialized \<Rightarrow> DynamicSerialized" where
  "SerializeMemberInto L into r =
     (let begin0 = ds_pos r;
          r = into (DynamicSerialized_seek r (begin0 + 2))
      in if ds_status r \<noteq> kOk then r
         else
           (let end0 = ds_pos r; len = end0 - (begin0 + 2)
            in if len > 65535 then DynamicSerialized_fail r kInvalidArgument
               else
                 (let r = DynamicSerialized_seek r begin0;
                      r = fst (DynamicSerialized_write r (StoreBeU16 L (of_nat len)))
                  in DynamicSerialized_seek r end0)))"

text \<open>The remaining input is returned with the value.\<close>

definition DeserializeMember ::
  "lib \<Rightarrow> (byte list \<Rightarrow> RpcStatus + 'a) \<Rightarrow> byte list \<Rightarrow> RpcStatus + ('a \<times> byte list)" where
  "DeserializeMember L deserialize data =
     (if length data < 2 then Inl kInvalidArgument
      else
        (let member_len = LoadBeU16 L data
         in if length data - 2 < unat member_len then Inl kInvalidArgument
            else
              (case deserialize (take (unat member_len) (drop 2 data)) of
                 Inl status \<Rightarrow> Inl status
               | Inr result \<Rightarrow> Inr (result, drop (unat member_len) (drop 2 data)))))"

section \<open>Pairs and tuples\<close>

text \<open>\<open>into1\<close> and \<open>into2\<close> are \<open>SerializeInto\<close> on the two components of the value.\<close>

definition Serializer_pair_serializeInto ::
  "lib \<Rightarrow> (DynamicSerialized \<Rightarrow> DynamicSerialized) \<Rightarrow> (DynamicSerialized \<Rightarrow> DynamicSerialized) \<Rightarrow>
   DynamicSerialized \<Rightarrow> DynamicSerialized" where
  "Serializer_pair_serializeInto L into1 into2 r =
     (let r = SerializeMemberInto L into1 r
      in if ds_status r \<noteq> kOk then r else SerializeMemberInto L into2 r)"

definition Serializer_pair_serialize ::
  "lib \<Rightarrow> (DynamicSerialized \<Rightarrow> DynamicSerialized) \<Rightarrow> (DynamicSerialized \<Rightarrow> DynamicSerialized) \<Rightarrow> Serialized" where
  "Serializer_pair_serialize L into1 into2 =
     DynamicSerialized_view (Serializer_pair_serializeInto L into1 into2 DynamicSerialized_new)"

definition Deserializer_pair ::
  "lib \<Rightarrow> (byte list \<Rightarrow> RpcStatus + 'a) \<Rightarrow> (byte list \<Rightarrow> RpcStatus + 'b) \<Rightarrow> byte list \<Rightarrow> RpcStatus + ('a \<times> 'b)" where
  "Deserializer_pair L d1 d2 data =
     (case DeserializeMember L d1 data of
        Inl status \<Rightarrow> Inl status
      | Inr (x, data) \<Rightarrow>
          (case DeserializeMember L d2 data of
             Inl status \<Rightarrow> Inl status
           | Inr (y, data) \<Rightarrow> if length data \<noteq> 0 then Inl kInvalidArgument else Inr (x, y)))"

text \<open>
  The recursion over the indices of a tuple, on the list of what it does for each member. A
  tuple has at least one member.
\<close>

fun SerializeTupleRecursive ::
  "lib \<Rightarrow> (DynamicSerialized \<Rightarrow> DynamicSerialized) list \<Rightarrow> DynamicSerialized \<Rightarrow> DynamicSerialized" where
  "SerializeTupleRecursive L [] r = r"
| "SerializeTupleRecursive L (into # intos) r =
     (let r = SerializeMemberInto L into r
      in if ds_status r \<noteq> kOk then r
         else if intos \<noteq> [] then SerializeTupleRecursive L intos r else r)"

definition Serializer_tuple_serialize :: "lib \<Rightarrow> (DynamicSerialized \<Rightarrow> DynamicSerialized) list \<Rightarrow> Serialized" where
  "Serializer_tuple_serialize L intos =
     DynamicSerialized_view (SerializeTupleRecursive L intos DynamicSerialized_new)"

fun DeserializeTupleRecursive ::
  "lib \<Rightarrow> (byte list \<Rightarrow> RpcStatus + 'v) list \<Rightarrow> byte list \<Rightarrow> RpcStatus + 'v list" where
  "DeserializeTupleRecursive L [] data = Inr []"
| "DeserializeTupleRecursive L (d # ds) data =
     (case DeserializeMember L d data of
        Inl status \<Rightarrow> Inl status
      | Inr (x, data) \<Rightarrow>
          if ds \<noteq> [] then
            (case DeserializeTupleRecursive L ds data of Inl status \<Rightarrow> Inl status | Inr xs \<Rightarrow> Inr (x # xs))
          else if length data \<noteq> 0 then Inl kInvalidArgument
          else Inr [x])"

section \<open>Template instantiation\<close>

text \<open>
  The types that have a serializer, their values, and the instances the compiler selects for
  them.
\<close>

datatype rpc_type = T_Void | T_bool | T_int8 | T_uint8 | T_int16 | T_uint16 | T_int32 | T_uint32 | T_int64
  | T_uint64 | T_string_view | T_pair rpc_type rpc_type | T_tuple "rpc_type list"

datatype rpc_value = V_Void | V_bool bool | V_int8 u8 | V_uint8 u8 | V_int16 u16 | V_uint16 u16 | V_int32 u32
  | V_uint32 u32 | V_int64 u64 | V_uint64 u64 | V_string_view "byte list" | V_pair rpc_value rpc_value
  | V_tuple "rpc_value list"

fun SerializeInto :: "lib \<Rightarrow> data_lib \<Rightarrow> rpc_value \<Rightarrow> DynamicSerialized \<Rightarrow> DynamicSerialized" where
  "SerializeInto L D V_Void = IntoSerializer_default (Serializer_Void ())"
| "SerializeInto L D (V_bool b) = IntoSerializer_default (Serializer_bool D b)"
| "SerializeInto L D (V_int8 x) = IntoSerializer_default (Serializer_int8 D x)"
| "SerializeInto L D (V_uint8 x) = IntoSerializer_default (Serializer_uint8 D x)"
| "SerializeInto L D (V_int16 x) = IntoSerializer_default (Serializer_int16 D x)"
| "SerializeInto L D (V_uint16 x) = IntoSerializer_default (Serializer_uint16 L x)"
| "SerializeInto L D (V_int32 x) = IntoSerializer_default (Serializer_int32 D x)"
| "SerializeInto L D (V_uint32 x) = IntoSerializer_default (Serializer_uint32 L x)"
| "SerializeInto L D (V_int64 x) = IntoSerializer_default (Serializer_int64 D x)"
| "SerializeInto L D (V_uint64 x) = IntoSerializer_default (Serializer_uint64 L x)"
| "SerializeInto L D (V_string_view s) = IntoSerializer_default (Serializer_string_view s)"
| "SerializeInto L D (V_pair v w) = Serializer_pair_serializeInto L (SerializeInto L D v) (SerializeInto L D w)"
| "SerializeInto L D (V_tuple vs) = SerializeTupleRecursive L (map (SerializeInto L D) vs)"

fun Serialize :: "lib \<Rightarrow> data_lib \<Rightarrow> rpc_value \<Rightarrow> Serialized" where
  "Serialize L D V_Void = Serializer_Void ()"
| "Serialize L D (V_bool b) = Serializer_bool D b"
| "Serialize L D (V_int8 x) = Serializer_int8 D x"
| "Serialize L D (V_uint8 x) = Serializer_uint8 D x"
| "Serialize L D (V_int16 x) = Serializer_int16 D x"
| "Serialize L D (V_uint16 x) = Serializer_uint16 L x"
| "Serialize L D (V_int32 x) = Serializer_int32 D x"
| "Serialize L D (V_uint32 x) = Serializer_uint32 L x"
| "Serialize L D (V_int64 x) = Serializer_int64 D x"
| "Serialize L D (V_uint64 x) = Serializer_uint64 L x"
| "Serialize L D (V_string_view s) = Serializer_string_view s"
| "Serialize L D (V_pair v w) = Serializer_pair_serialize L (SerializeInto L D v) (SerializeInto L D w)"
| "Serialize L D (V_tuple vs) = Serializer_tuple_serialize L (map (SerializeInto L D) vs)"

definition tag :: "('a \<Rightarrow> 'b) \<Rightarrow> RpcStatus + 'a \<Rightarrow> RpcStatus + 'b" where
  "tag f = map_sum id f"

fun Deserialize :: "lib \<Rightarrow> data_lib \<Rightarrow> rpc_type \<Rightarrow> byte list \<Rightarrow> RpcStatus + rpc_value" where
  "Deserialize L D T_Void data = tag (\<lambda>_. V_Void) (Deserializer_Void data)"
| "Deserialize L D T_bool data = tag V_bool (Deserializer_bool D data)"
| "Deserialize L D T_int8 data = tag V_int8 (Deserializer_int8 D data)"
| "Deserialize L D T_uint8 data = tag V_uint8 (Deserializer_uint8 D data)"
| "Deserialize L D T_int16 data = tag V_int16 (Deserializer_int16 D data)"
| "Deserialize L D T_uint16 data = tag V_uint16 (Deserializer_uint16 L data)"
| "Deserialize L D T_int32 data = tag V_int32 (Deserializer_int32 D data)"
| "Deserialize L D T_uint32 data = tag V_uint32 (Deserializer_uint32 L data)"
| "Deserialize L D T_int64 data = tag V_int64 (Deserializer_int64 D data)"
| "Deserialize L D T_uint64 data = tag V_uint64 (Deserializer_uint64 D data)"
| "Deserialize L D T_string_view data = tag V_string_view (Deserializer_string_view data)"
| "Deserialize L D (T_pair t u) data = tag (\<lambda>(v, w). V_pair v w) (Deserializer_pair L (Deserialize L D t) (Deserialize L D u) data)"
| "Deserialize L D (T_tuple ts) data = tag V_tuple (DeserializeTupleRecursive L (map (Deserialize L D) ts) data)"

end
