(* ===== verification/Serialization_Spec.thy ===== *)
theory Serialization_Spec
  imports Serialization Big_Endian
begin

text \<open>
  What serialization promises: a reference encoding of values, that the buffer manipulating
  serializers compute it (or fail, with the documented status, exactly when a nested member is
  longer than its 16-bit length prefix can say), that decoding inverts it, and that the decoder
  accepts nothing else.
\<close>

section \<open>Laws of the library\<close>

text \<open>A fixed-size pair of store and load functions that are inverse to each other.\<close>

definition codec_ok :: "nat \<Rightarrow> ('a \<Rightarrow> byte list) \<Rightarrow> (byte list \<Rightarrow> 'a) \<Rightarrow> bool" where
  "codec_ok n store load \<longleftrightarrow>
     (\<forall>x. length (store x) = n \<and> load (store x) = x) \<and> (\<forall>bs. length bs = n \<longrightarrow> store (load bs) = bs)"

lemma codec_okI:
  assumes "\<And>x. length (store x) = n" "\<And>x. load (store x) = x"
    and "\<And>bs. length bs = n \<Longrightarrow> store (load bs) = bs"
  shows "codec_ok n store load"
  using assms by (simp add: codec_ok_def)

lemma codec_okD:
  assumes "codec_ok n store load"
  shows "length (store x) = n" "load (store x) = x" "length bs = n \<Longrightarrow> store (load bs) = bs"
  using assms by (simp_all add: codec_ok_def)

locale roo_data = roo_lib +
  fixes D :: data_lib
  assumes store_load_16: "2 \<le> length bs \<Longrightarrow> StoreBeU16 L (LoadBeU16 L bs) = take 2 bs"
    and store_load_32: "length bs = 4 \<Longrightarrow> StoreBeU32 L (LoadBeU32 L bs) = bs"
    and codec_U8: "codec_ok 1 (StoreU8 D) (LoadU8 D)"
    and codec_S8: "codec_ok 1 (StoreS8 D) (LoadS8 D)"
    and codec_S16: "codec_ok 2 (StoreBeS16 D) (LoadBeS16 D)"
    and codec_S32: "codec_ok 4 (StoreBeS32 D) (LoadBeS32 D)"
    and codec_S64: "codec_ok 8 (StoreBeS64 D) (LoadBeS64 D)"
    and codec_U64: "codec_ok 8 (StoreBeU64 L) (LoadBeU64 D)"
begin

lemma codec_U16: "codec_ok 2 (StoreBeU16 L) (LoadBeU16 L)"
  by (rule codec_okI) (simp_all add: length_StoreBeU16 load_store_16_nil store_load_16)

lemma codec_U32: "codec_ok 4 (StoreBeU32 L) (LoadBeU32 L)"
  using load_store_32 [of _ "[]"] by (intro codec_okI) (simp_all add: length_StoreBeU32 store_load_32)

lemmas codecs = codec_U8 codec_S8 codec_S16 codec_S32 codec_S64 codec_U64 codec_U16 codec_U32

lemmas stores [simp] = codecs [THEN codec_okD(1)]

lemmas loads [simp] = codecs [THEN codec_okD(2)]

lemmas unloads = codecs [THEN codec_okD(3)]

end

section \<open>The reference encoding\<close>

text \<open>A nested member: its length in two bytes, then its encoding.\<close>

definition member_bytes :: "lib \<Rightarrow> byte list \<Rightarrow> byte list" where
  "member_bytes L bs = StoreBeU16 L (of_nat (length bs)) @ bs"

fun encode :: "lib \<Rightarrow> data_lib \<Rightarrow> rpc_value \<Rightarrow> byte list" where
  "encode L D V_Void = []"
| "encode L D (V_bool b) = StoreU8 D (if b then 1 else 0)"
| "encode L D (V_int8 x) = StoreS8 D x"
| "encode L D (V_uint8 x) = StoreU8 D x"
| "encode L D (V_int16 x) = StoreBeS16 D x"
| "encode L D (V_uint16 x) = StoreBeU16 L x"
| "encode L D (V_int32 x) = StoreBeS32 D x"
| "encode L D (V_uint32 x) = StoreBeU32 L x"
| "encode L D (V_int64 x) = StoreBeS64 D x"
| "encode L D (V_uint64 x) = StoreBeU64 L x"
| "encode L D (V_string_view s) = s"
| "encode L D (V_pair v w) = member_bytes L (encode L D v) @ member_bytes L (encode L D w)"
| "encode L D (V_tuple vs) = concat (map (\<lambda>v. member_bytes L (encode L D v)) vs)"

text \<open>Every nested member is at most 65535 bytes long.\<close>

fun fits :: "lib \<Rightarrow> data_lib \<Rightarrow> rpc_value \<Rightarrow> bool" where
  "fits L D (V_pair v w) \<longleftrightarrow> fits L D v \<and> length (encode L D v) \<le> 65535 \<and> fits L D w \<and> length (encode L D w) \<le> 65535"
| "fits L D (V_tuple vs) \<longleftrightarrow> (\<forall>v \<in> set vs. fits L D v \<and> length (encode L D v) \<le> 65535)"
| "fits L D _ \<longleftrightarrow> True"

text \<open>The serializers exist for tuples of at least one member only.\<close>

fun wf_type :: "rpc_type \<Rightarrow> bool" where
  "wf_type (T_pair t u) \<longleftrightarrow> wf_type t \<and> wf_type u"
| "wf_type (T_tuple ts) \<longleftrightarrow> ts \<noteq> [] \<and> (\<forall>t \<in> set ts. wf_type t)"
| "wf_type _ \<longleftrightarrow> True"

fun type_of_value :: "rpc_value \<Rightarrow> rpc_type" where
  "type_of_value V_Void = T_Void"
| "type_of_value (V_bool _) = T_bool"
| "type_of_value (V_int8 _) = T_int8"
| "type_of_value (V_uint8 _) = T_uint8"
| "type_of_value (V_int16 _) = T_int16"
| "type_of_value (V_uint16 _) = T_uint16"
| "type_of_value (V_int32 _) = T_int32"
| "type_of_value (V_uint32 _) = T_uint32"
| "type_of_value (V_int64 _) = T_int64"
| "type_of_value (V_uint64 _) = T_uint64"
| "type_of_value (V_string_view _) = T_string_view"
| "type_of_value (V_pair v w) = T_pair (type_of_value v) (type_of_value w)"
| "type_of_value (V_tuple vs) = T_tuple (map type_of_value vs)"

section \<open>The dynamic buffer\<close>

text \<open>The bytes of the buffer up to its position, when the position is at or past its end.\<close>

definition padded :: "DynamicSerialized \<Rightarrow> byte list" where
  "padded r = ds_data r @ replicate (ds_pos r - length (ds_data r)) 0"

definition at_end :: "DynamicSerialized \<Rightarrow> bool" where
  "at_end r \<longleftrightarrow> ds_status r = kOk \<and> length (ds_data r) \<le> ds_pos r"

text \<open>A successful buffer whose position is at its end; a failed one.\<close>

definition ds_ok :: "byte list \<Rightarrow> DynamicSerialized" where
  "ds_ok bs = \<lparr>ds_status = kOk, ds_data = bs, ds_pos = length bs\<rparr>"

definition ds_failed :: DynamicSerialized where
  "ds_failed = \<lparr>ds_status = kInvalidArgument, ds_data = [], ds_pos = 0\<rparr>"

lemma ds_ok_simps [simp]:
  "ds_status (ds_ok bs) = kOk" "ds_data (ds_ok bs) = bs" "ds_pos (ds_ok bs) = length bs"
  "at_end (ds_ok bs)" "padded (ds_ok bs) = bs"
  by (simp_all add: ds_ok_def at_end_def padded_def)

lemma ds_failed_simps [simp]: "ds_status ds_failed = kInvalidArgument" "ds_data ds_failed = []"
  by (simp_all add: ds_failed_def)

lemma length_padded: "at_end r \<Longrightarrow> length (padded r) = ds_pos r"
  by (simp add: at_end_def padded_def)

text \<open>Writing at the end appends; the gap left by a seek is filled with zeros.\<close>

lemma write_at_end:
  assumes "at_end r"
  shows "DynamicSerialized_write r buf = (ds_ok (padded r @ buf), length buf)"
proof (cases "ds_pos r > length (ds_data r)")
  case True
  then show ?thesis
    using assms
    by (simp add: DynamicSerialized_write_def Let_def at_end_def padded_def ds_ok_def memcpy_at_def
        DynamicSerialized.equality)
next
  case False
  then have "ds_pos r = length (ds_data r)"
    using assms by (simp add: at_end_def)
  then show ?thesis
    using assms
    by (simp add: DynamicSerialized_write_def Let_def at_end_def padded_def ds_ok_def memcpy_at_def
        DynamicSerialized.equality)
qed

text \<open>Writing inside the buffer overwrites.\<close>

lemma write_inside:
  assumes "ds_pos r + length buf \<le> length (ds_data r)"
  shows "DynamicSerialized_write r buf =
    (r\<lparr>ds_data := memcpy_at (ds_data r) (ds_pos r) buf, ds_pos := ds_pos r + length buf\<rparr>, length buf)"
  using assms by (simp add: DynamicSerialized_write_def Let_def)

text \<open>Writing a block is writing its bytes one after the other.\<close>

definition write_bytes :: "byte list \<Rightarrow> DynamicSerialized \<Rightarrow> DynamicSerialized" where
  "write_bytes bs r = fold (\<lambda>b r. DynamicSerialized_write_byte r b) bs r"

lemma write_bytes_inside:
  "ds_pos r \<le> length (ds_data r) \<Longrightarrow> write_bytes bs r = fst (DynamicSerialized_write r bs)"
proof (induction bs arbitrary: r)
  case Nil
  then show ?case
    by (simp add: write_bytes_def DynamicSerialized_write_def Let_def memcpy_at_def)
next
  case (Cons b bs)
  let ?r = "DynamicSerialized_write_byte r b"
  have "ds_pos ?r \<le> length (ds_data ?r)"
    using Cons.prems by (auto simp: DynamicSerialized_write_byte_def DynamicSerialized_eos_def Let_def)
  then have "write_bytes (b # bs) r = fst (DynamicSerialized_write ?r bs)"
    using Cons.IH [of ?r] by (simp add: write_bytes_def)
  also have "\<dots> = fst (DynamicSerialized_write r (b # bs))"
  proof (cases "ds_pos r < length (ds_data r)")
    case True
    then obtain n where "length (ds_data r) - ds_pos r = Suc n"
      by (metis Suc_diff_Suc)
    with True show ?thesis
      by (auto simp: DynamicSerialized_write_byte_def DynamicSerialized_eos_def DynamicSerialized_write_def
          Let_def memcpy_at_def upd_conv_take_nth_drop min_def Suc_diff_Suc ac_simps)
  next
    case False
    then show ?thesis
      using Cons.prems
      by (auto simp: DynamicSerialized_write_byte_def DynamicSerialized_eos_def DynamicSerialized_write_def
          Let_def memcpy_at_def)
  qed
  finally show ?case .
qed

lemma write_bytes_eq_write:
  assumes "bs \<noteq> []"
  shows "write_bytes bs r = fst (DynamicSerialized_write r bs)"
proof (cases "ds_pos r \<le> length (ds_data r)")
  case False
  let ?r = "r\<lparr>ds_data := ds_data r @ replicate (ds_pos r - length (ds_data r)) 0\<rparr>"
  have "write_bytes bs r = write_bytes bs ?r"
    using False assms
    by (cases bs) (simp_all add: write_bytes_def DynamicSerialized_write_byte_def DynamicSerialized_eos_def)
  also have "\<dots> = fst (DynamicSerialized_write ?r bs)"
    using False by (intro write_bytes_inside) simp
  also have "\<dots> = fst (DynamicSerialized_write r bs)"
    using False by (simp add: DynamicSerialized_write_def Let_def)
  finally show ?thesis .
qed (rule write_bytes_inside)

lemma SerializeMemberInto_ok:
  assumes L: "roo_lib L" and r: "at_end r"
    and into: "\<And>r. at_end r \<Longrightarrow> into r = ds_ok (padded r @ bs)"
  shows "SerializeMemberInto L into r = (if length bs \<le> 65535 then ds_ok (padded r @ member_bytes L bs) else ds_failed)"
proof -
  let ?r1 = "DynamicSerialized_seek r (ds_pos r + 2)"
  let ?p = "padded r"
  have "at_end ?r1"
    using r by (simp add: at_end_def DynamicSerialized_seek_def)
  moreover have "padded ?r1 = ?p @ replicate 2 0"
    using r by (simp add: at_end_def padded_def DynamicSerialized_seek_def Suc_diff_le flip: replicate_add)
  ultimately have r2: "into ?r1 = ds_ok (?p @ replicate 2 0 @ bs)"
    using into by simp
  have len: "length (?p @ replicate 2 0 @ bs) - (ds_pos r + 2) = length bs"
    using length_padded [OF r] by simp
  have wr: "DynamicSerialized_write (DynamicSerialized_seek (ds_ok (?p @ replicate 2 0 @ bs)) (ds_pos r)) (StoreBeU16 L x) =
      (\<lparr>ds_status = kOk, ds_data = ?p @ StoreBeU16 L x @ bs, ds_pos = ds_pos r + 2\<rparr>, 2)" for x
    using length_padded [OF r]
    by (subst write_inside)
      (simp_all add: DynamicSerialized_seek_def roo_lib.length_StoreBeU16 [OF L] memcpy_at_def ds_ok_def)
  show ?thesis
    using length_padded [OF r]
    unfolding SerializeMemberInto_def Let_def r2 ds_ok_simps len wr fst_conv
    by (simp add: DynamicSerialized_seek_def DynamicSerialized_fail_def ds_ok_def ds_failed_def member_bytes_def
        roo_lib.length_StoreBeU16 [OF L])
qed

lemma SerializeMemberInto_failed:
  assumes "at_end r" and "\<And>r. at_end r \<Longrightarrow> into r = ds_failed"
  shows "SerializeMemberInto L into r = ds_failed"
proof -
  have "at_end (DynamicSerialized_seek r (ds_pos r + 2))"
    using assms(1) by (simp add: at_end_def DynamicSerialized_seek_def)
  then show ?thesis
    by (simp add: SerializeMemberInto_def Let_def assms(2))
qed

text \<open>What \<open>SerializeInto\<close> does to a buffer for a value that has the encoding \<open>bs\<close>, if it fits.\<close>

definition into_spec :: "(DynamicSerialized \<Rightarrow> DynamicSerialized) \<Rightarrow> bool \<Rightarrow> byte list \<Rightarrow> bool" where
  "into_spec into ok bs \<longleftrightarrow> (\<forall>r. at_end r \<longrightarrow> into r = (if ok then ds_ok (padded r @ bs) else ds_failed))"

lemma into_spec_member:
  assumes "roo_lib L" "into_spec into ok bs"
  shows "into_spec (SerializeMemberInto L into) (ok \<and> length bs \<le> 65535) (member_bytes L bs)"
  using assms SerializeMemberInto_ok [OF assms(1)] SerializeMemberInto_failed
  by (cases ok) (auto simp: into_spec_def)

lemma into_spec_default: "sz_data s = bs \<Longrightarrow> into_spec (IntoSerializer_default s) True bs"
  by (auto simp: into_spec_def IntoSerializer_default_def write_at_end)

lemmas serializer_defs = Serializer_Void_def NullSerialized_def Serializer_bool_def StaticSerialized_def
  Serializer_int8_def Serializer_uint8_def Serializer_int16_def Serializer_uint16_def Serializer_int32_def
  Serializer_uint32_def Serializer_int64_def Serializer_uint64_def Serializer_string_view_def
  SerializedByteArrayAdapter_def

lemma into_spec_tuple:
  assumes L: "roo_lib L" and "list_all (\<lambda>(into, ok, bs). into_spec into ok bs) ms" and "ms \<noteq> []"
  shows "into_spec (SerializeTupleRecursive L (map fst ms))
    (list_all (\<lambda>(into, ok, bs). ok \<and> length bs \<le> 65535) ms)
    (concat (map (\<lambda>(into, ok, bs). member_bytes L bs) ms))"
  using assms(2-)
proof (induction ms)
  case (Cons m ms)
  obtain into ok bs where m: "m = (into, ok, bs)"
    by (cases m)
  have member: "into_spec (SerializeMemberInto L into) (ok \<and> length bs \<le> 65535) (member_bytes L bs)"
    using Cons.prems L m by (intro into_spec_member) simp_all
  show ?case
  proof (cases "ms = []")
    case True
    then show ?thesis
      using member by (simp add: into_spec_def m Let_def)
  next
    case False
    then have "into_spec (SerializeTupleRecursive L (map fst ms))
        (list_all (\<lambda>(into, ok, bs). ok \<and> length bs \<le> 65535) ms) (concat (map (\<lambda>(into, ok, bs). member_bytes L bs) ms))"
      using Cons by simp
    with member False show ?thesis
      by (simp add: into_spec_def m Let_def)
  qed
qed simp

lemma SerializeInto_spec:
  assumes L: "roo_lib L" and "wf_type (type_of_value v)"
  shows "into_spec (SerializeInto L D v) (fits L D v) (encode L D v)"
  using assms(2)
proof (induction v)
  case (V_pair v w)
  then have "into_spec (SerializeMemberInto L (SerializeInto L D v)) (fits L D v \<and> length (encode L D v) \<le> 65535)
      (member_bytes L (encode L D v))"
    "into_spec (SerializeMemberInto L (SerializeInto L D w)) (fits L D w \<and> length (encode L D w) \<le> 65535)
      (member_bytes L (encode L D w))"
    by (simp_all add: into_spec_member [OF L])
  then show ?case
    by (simp add: into_spec_def Serializer_pair_serializeInto_def Let_def)
next
  case (V_tuple vs)
  let ?ms = "map (\<lambda>v. (SerializeInto L D v, fits L D v, encode L D v)) vs"
  have "into_spec (SerializeTupleRecursive L (map fst ?ms))
      (list_all (\<lambda>(into, ok, bs). ok \<and> length bs \<le> 65535) ?ms) (concat (map (\<lambda>(into, ok, bs). member_bytes L bs) ?ms))"
    using V_tuple by (intro into_spec_tuple [OF L]) (auto simp: list_all_iff)
  then show ?case
    by (simp add: comp_def list_all_iff)
qed (simp_all add: into_spec_default serializer_defs)

lemma new_at_end [simp]: "at_end DynamicSerialized_new" "padded DynamicSerialized_new = []"
  by (simp_all add: at_end_def padded_def DynamicSerialized_new_def)

lemma Serialize_into:
  "Serialize L D v =
     DynamicSerialized_view (if (\<exists>vs. v = V_tuple vs) \<or> (\<exists>w u. v = V_pair w u)
       then SerializeInto L D v DynamicSerialized_new else ds_ok (encode L D v))"
  by (cases v) (simp_all add: Serializer_pair_serialize_def Serializer_tuple_serialize_def
    DynamicSerialized_view_def serializer_defs)

lemma Serialize_spec:
  assumes L: "roo_lib L" and wf: "wf_type (type_of_value v)"
  shows "Serialize L D v =
    (if fits L D v then \<lparr>sz_status = kOk, sz_data = encode L D v\<rparr> else \<lparr>sz_status = kInvalidArgument, sz_data = []\<rparr>)"
proof -
  have "SerializeInto L D v DynamicSerialized_new = (if fits L D v then ds_ok (encode L D v) else ds_failed)"
    using SerializeInto_spec [OF assms, of D] by (simp add: into_spec_def)
  moreover have "fits L D v" if "\<not> (\<exists>vs. v = V_tuple vs)" "\<not> (\<exists>w u. v = V_pair w u)"
    using that by (cases v) auto
  ultimately show ?thesis
    by (auto simp: Serialize_into DynamicSerialized_view_def)
qed

section \<open>Decoding\<close>

lemma map_sum_Inr_iff: "map_sum id f x = Inr y \<longleftrightarrow> (\<exists>z. x = Inr z \<and> y = f z)"
  by (cases x) auto

lemma word_le_1_iff: "(x :: u8) \<le> 1 \<longleftrightarrow> x = 0 \<or> x = 1"
proof
  assume "x \<le> 1"
  then have "unat x = 0 \<or> unat x = 1"
    by (auto simp: word_le_nat_alt)
  then show "x = 0 \<or> x = 1"
    by (metis unat_0 unat_1 word_unat_eq_iff)
qed auto

lemma DeserializeMember_member_bytes:
  assumes L: "roo_lib L" and "length bs \<le> 65535"
  shows "DeserializeMember L d (member_bytes L bs @ rest) =
    (case d bs of Inl status \<Rightarrow> Inl status | Inr x \<Rightarrow> Inr (x, rest))"
proof -
  have "unat (of_nat (length bs) :: u16) = length bs"
    using assms(2) by (simp add: unsigned_of_nat take_bit_nat_eq_self)
  then show ?thesis
    by (simp add: DeserializeMember_def Let_def member_bytes_def roo_lib.load_store_16 [OF L]
        roo_lib.length_StoreBeU16 [OF L] split: sum.split)
qed

lemma DeserializeTupleRecursive_concat:
  assumes L: "roo_lib L"
    and "list_all (\<lambda>(d, v, bs). d bs = Inr v \<and> length bs \<le> 65535) ms"
  shows "DeserializeTupleRecursive L (map fst ms) (concat (map (\<lambda>(d, v, bs). member_bytes L bs) ms)) =
    Inr (map (\<lambda>(d, v, bs). v) ms)"
  using assms(2)
proof (induction ms)
  case (Cons m ms)
  then show ?case
    by (cases m; cases "ms = []") (auto simp: DeserializeMember_member_bytes [OF L, of _ _ "[]", simplified]
      DeserializeMember_member_bytes [OF L])
qed simp

text \<open>What the decoder accepts is the encoding of the value it returns.\<close>

definition exact :: "lib \<Rightarrow> data_lib \<Rightarrow> (byte list \<Rightarrow> RpcStatus + rpc_value) \<Rightarrow> rpc_type \<Rightarrow> bool" where
  "exact L D d t \<longleftrightarrow> (\<forall>bs v. d bs = Inr v \<longrightarrow> type_of_value v = t \<and> fits L D v \<and> encode L D v = bs)"

context roo_data
begin

lemma Deserialize_encode:
  "fits L D v \<Longrightarrow> Deserialize L D (type_of_value v) (encode L D v) = Inr v"
proof (induction v)
  case (V_pair v w)
  then show ?case
    by (simp add: Deserializer_pair_def tag_def DeserializeMember_member_bytes [OF roo_lib_axioms]
        DeserializeMember_member_bytes [OF roo_lib_axioms, of _ _ "[]", simplified])
next
  case (V_tuple vs)
  let ?ms = "map (\<lambda>v. (Deserialize L D (type_of_value v), v, encode L D v)) vs"
  have "DeserializeTupleRecursive L (map fst ?ms) (concat (map (\<lambda>(d, v, bs). member_bytes L bs) ?ms)) =
      Inr (map (\<lambda>(d, v, bs). v) ?ms)"
    using V_tuple by (intro DeserializeTupleRecursive_concat [OF roo_lib_axioms]) (auto simp: list_all_iff)
  then show ?case
    by (simp add: comp_def tag_def)
qed (simp_all add: tag_def Deserializer_Void_def Deserializer_bool_def Deserializer_int8_def Deserializer_uint8_def
  Deserializer_int16_def Deserializer_uint16_def Deserializer_int32_def Deserializer_uint32_def
  Deserializer_int64_def Deserializer_uint64_def Deserializer_string_view_def)

lemma DeserializeMember_exact:
  assumes "exact L D d t" "DeserializeMember L d bs = Inr (v, rest)"
  shows "type_of_value v = t \<and> fits L D v \<and> length (encode L D v) \<le> 65535 \<and> member_bytes L (encode L D v) @ rest = bs"
proof -
  let ?n = "LoadBeU16 L bs"
  have len: "2 \<le> length bs" "unat ?n \<le> length bs - 2"
    and d: "d (take (unat ?n) (drop 2 bs)) = Inr v" and rest: "rest = drop (unat ?n) (drop 2 bs)"
    using assms(2) by (auto simp: DeserializeMember_def Let_def not_less split: if_splits sum.splits)
  then have v: "type_of_value v = t" "fits L D v" "encode L D v = take (unat ?n) (drop 2 bs)"
    using assms(1) by (auto simp: exact_def)
  have "length (encode L D v) = unat ?n"
    using len by (simp add: v(3))
  moreover from this have "member_bytes L (encode L D v) = take 2 bs @ take (unat ?n) (drop 2 bs)"
    using len by (simp add: member_bytes_def store_load_16 v(3))
  moreover have "unat ?n \<le> 65535"
    using unsigned_less [of ?n, where ?'a = nat] by simp
  moreover have "take 2 bs @ take (unat ?n) (drop 2 bs) @ drop (unat ?n) (drop 2 bs) = bs"
    by (simp only: append_take_drop_id)
  ultimately show ?thesis
    using v(1,2) by (simp add: rest del: drop_drop)
qed

lemma DeserializeTupleRecursive_exact:
  assumes "\<And>t. t \<in> set ts \<Longrightarrow> exact L D (Deserialize L D t) t" "ts \<noteq> []"
    and "DeserializeTupleRecursive L (map (Deserialize L D) ts) bs = Inr vs"
  shows "map type_of_value vs = ts \<and> fits L D (V_tuple vs) \<and> encode L D (V_tuple vs) = bs"
  using assms
proof (induction ts arbitrary: bs vs)
  case (Cons t ts)
  have t: "exact L D (Deserialize L D t) t"
    using Cons.prems(1) by simp
  obtain v rest where v: "DeserializeMember L (Deserialize L D t) bs = Inr (v, rest)"
    using Cons.prems(3) by (auto split: sum.splits)
  note m = DeserializeMember_exact [OF t v]
  show ?case
  proof (cases "ts = []")
    case True
    then show ?thesis
      using Cons.prems(3) v m by (auto split: if_splits)
  next
    case False
    then obtain ws where ws: "DeserializeTupleRecursive L (map (Deserialize L D) ts) rest = Inr ws" and vs: "vs = v # ws"
      using Cons.prems(3) v by (auto split: sum.splits)
    then have "map type_of_value ws = ts \<and> fits L D (V_tuple ws) \<and> encode L D (V_tuple ws) = rest"
      using Cons.IH [of rest ws] Cons.prems(1) False by simp
    then show ?thesis
      using m by (auto simp: vs)
  qed
qed simp

lemma Deserialize_exact: "wf_type t \<Longrightarrow> exact L D (Deserialize L D t) t"
proof (induction t)
  case (T_pair t u)
  then have t: "exact L D (Deserialize L D t) t" and u: "exact L D (Deserialize L D u) u"
    by simp_all
  show ?case
    unfolding exact_def
  proof (intro allI impI)
    fix bs v assume "Deserialize L D (T_pair t u) bs = Inr v"
    then obtain x y rest where x: "DeserializeMember L (Deserialize L D t) bs = Inr (x, rest)"
      and y: "DeserializeMember L (Deserialize L D u) rest = Inr (y, [])" and v: "v = V_pair x y"
      by (auto simp: tag_def Deserializer_pair_def split: sum.splits if_splits)
    show "type_of_value v = T_pair t u \<and> fits L D v \<and> encode L D v = bs"
      using DeserializeMember_exact [OF t x] DeserializeMember_exact [OF u y] by (auto simp: v)
  qed
next
  case (T_tuple ts)
  then show ?case
    using DeserializeTupleRecursive_exact [of ts] by (auto simp: exact_def tag_def map_sum_Inr_iff)
next
  case T_bool
  have "StoreU8 D (if LoadU8 D bs \<noteq> 0 then 1 else 0) = bs" if "length bs = 1" "\<not> LoadU8 D bs > 1" for bs
  proof -
    have "(if LoadU8 D bs \<noteq> 0 then 1 else 0) = LoadU8 D bs"
      using that(2) by (auto simp: not_less word_le_1_iff)
    then show ?thesis
      using codec_U8 that(1) by (simp add: codec_okD(3))
  qed
  then show ?case
    by (auto simp: exact_def tag_def map_sum_Inr_iff Deserializer_bool_def Let_def split: if_splits)
qed (auto simp: exact_def tag_def map_sum_Inr_iff unloads Deserializer_Void_def Deserializer_int8_def Deserializer_uint8_def
  Deserializer_int16_def Deserializer_uint16_def Deserializer_int32_def Deserializer_uint32_def
  Deserializer_int64_def Deserializer_uint64_def Deserializer_string_view_def split: if_splits)

end

section \<open>Network byte order\<close>

definition load64 :: "byte list \<Rightarrow> u64" where
  "load64 bs = push_bit 56 (ucast (bs ! 0)) OR push_bit 48 (ucast (bs ! 1)) OR push_bit 40 (ucast (bs ! 2))
     OR push_bit 32 (ucast (bs ! 3)) OR push_bit 24 (ucast (bs ! 4)) OR push_bit 16 (ucast (bs ! 5))
     OR push_bit 8 (ucast (bs ! 6)) OR ucast (bs ! 7)"

definition be_data :: data_lib where
  "be_data = \<lparr>StoreU8 = \<lambda>x. [x], LoadU8 = hd, StoreS8 = \<lambda>x. [x], LoadS8 = hd,
     StoreBeS16 = store16, LoadBeS16 = load16, StoreBeS32 = store32, LoadBeS32 = load32,
     StoreBeS64 = be_bytes 8, LoadBeS64 = load64, LoadBeU64 = load64\<rparr>"

lemma be_data_simps [simp]:
  "StoreU8 be_data x = [x]" "LoadU8 be_data = hd" "StoreS8 be_data x = [x]" "LoadS8 be_data = hd"
  "StoreBeS16 be_data = store16" "LoadBeS16 be_data = load16" "StoreBeS32 be_data = store32"
  "LoadBeS32 be_data = load32" "StoreBeS64 be_data = be_bytes 8" "LoadBeS64 be_data = load64"
  "LoadBeU64 be_data = load64"
  by (simp_all add: be_data_def)

lemma be_bytes_8:
  "be_bytes 8 w = [ucast (drop_bit 56 w), ucast (drop_bit 48 w), ucast (drop_bit 40 w), ucast (drop_bit 32 w),
     ucast (drop_bit 24 w), ucast (drop_bit 16 w), ucast (drop_bit 8 w), ucast w]"
  by (simp add: be_bytes_def upt_rec)

lemma byte_high_bit: "8 \<le> n \<Longrightarrow> \<not> bit (b :: u8) n"
  using bit_imp_le_length [of b n] by auto

lemmas byte_bits = bit_or_iff bit_push_bit_iff bit_ucast_iff bit_drop_bit_eq not_le byte_high_bit

lemma load64_be_bytes: "load64 (be_bytes 8 x) = x"
proof (rule bit_word_eqI)
  fix n assume "n < LENGTH(64)"
  then show "bit (load64 (be_bytes 8 x)) n \<longleftrightarrow> bit x n"
    by (cases "n < 8"; cases "n < 16"; cases "n < 24"; cases "n < 32"; cases "n < 40"; cases "n < 48"; cases "n < 56")
      (auto simp: load64_def be_bytes_8 byte_bits)
qed

lemma two_bytes: "2 \<le> length bs \<Longrightarrow> \<exists>a b r. bs = a # b # r"
  by (cases bs; cases "tl bs") auto

lemma store16_load16:
  assumes "2 \<le> length bs"
  shows "store16 (load16 bs) = take 2 bs"
proof -
  obtain a b r where bs: "bs = a # b # r"
    using two_bytes [OF assms] by blast
  show ?thesis
    by (auto simp: bs store16_def load16_def byte_bits intro!: bit_word_eqI)
qed

lemma store32_load32:
  assumes "length bs = 4"
  shows "store32 (load32 bs) = bs"
proof -
  obtain a b c d where bs: "bs = [a, b, c, d]"
    using assms by (auto simp: numeral_eq_Suc length_Suc_conv)
  show ?thesis
    by (auto simp: bs store32_def load32_def byte_bits intro!: bit_word_eqI)
qed

lemma be_bytes_load64:
  assumes "length bs = 8"
  shows "be_bytes 8 (load64 bs) = bs"
proof -
  obtain a b c d e f g h where bs: "bs = [a, b, c, d, e, f, g, h]"
    using assms by (auto simp: numeral_eq_Suc length_Suc_conv)
  show ?thesis
    by (auto simp: bs be_bytes_8 load64_def byte_bits intro!: bit_word_eqI)
qed

lemma codec_1: "codec_ok 1 (\<lambda>x :: u8. [x]) hd"
  by (auto simp: codec_ok_def length_Suc_conv)

lemma codec_16: "codec_ok 2 store16 load16"
  using load16_store16 [of _ "[]"] by (intro codec_okI) (simp_all add: store16_load16, simp add: store16_def)

lemma codec_32: "codec_ok 4 store32 load32"
  using load32_store32 [of _ "[]"] by (intro codec_okI) (simp_all add: store32_load32, simp add: store32_def)

lemma codec_64: "codec_ok 8 (be_bytes 8) load64"
  by (intro codec_okI) (simp_all add: load64_be_bytes be_bytes_load64)

interpretation bed: roo_data be_lib be_data
proof unfold_locales
  show "codec_ok 1 (StoreU8 be_data) (LoadU8 be_data)" "codec_ok 1 (StoreS8 be_data) (LoadS8 be_data)"
    using codec_1 by (simp_all add: be_data_def)
qed (simp_all add: store16_load16 store32_load32 codec_16 codec_32 codec_64)

end
