(* ===== verification/Messaging_Mux.thy ===== *)
theory Messaging_Mux
  imports Serialization_Spec
begin

text \<open>
  The messaging interface and its multiplexer (\<^verbatim>\<open>messaging/messaging.{h,cpp}\<close>,
  \<^verbatim>\<open>messaging/mux_messaging.{h,cpp}\<close>). Objects that receive messages are identified by a
  reference; what a call does to a receiver is an event. The transport below the multiplexer is a
  parameter: the function that its virtual \<open>send\<close> or \<open>sendContinuation\<close> is. The hash map is a
  map; the order in which a loop visits it is an argument.
\<close>

section \<open>Messaging\<close>

type_synonym ConnectionId = u32
type_synonym receiver_ref = nat

datatype msg_event = Received receiver_ref ConnectionId "byte list" | Reset receiver_ref ConnectionId

record Messaging =
  ms_receiver :: "receiver_ref option"

definition Messaging_new :: Messaging where
  "Messaging_new = \<lparr>ms_receiver = None\<rparr>"

definition setReceiver :: "'a Messaging_scheme \<Rightarrow> receiver_ref \<Rightarrow> 'a Messaging_scheme" where
  "setReceiver m receiver = m\<lparr>ms_receiver := Some receiver\<rparr>"

definition unsetReceiver :: "'a Messaging_scheme \<Rightarrow> 'a Messaging_scheme" where
  "unsetReceiver m = m\<lparr>ms_receiver := None\<rparr>"

definition Messaging_received :: "'a Messaging_scheme \<Rightarrow> ConnectionId \<Rightarrow> byte list \<Rightarrow> msg_event list" where
  "Messaging_received m connection_id data =
     (case ms_receiver m of None \<Rightarrow> [] | Some r \<Rightarrow> [Received r connection_id data])"

definition Messaging_reset :: "'a Messaging_scheme \<Rightarrow> ConnectionId \<Rightarrow> msg_event list" where
  "Messaging_reset m connection_id = (case ms_receiver m of None \<Rightarrow> [] | Some r \<Rightarrow> [Reset r connection_id])"

text \<open>
  The overloads without a header, over the virtual functions. The flag says whether the caller
  asks for the connection id.
\<close>

definition send_payload :: "(byte list \<Rightarrow> byte list \<Rightarrow> bool \<Rightarrow> 'r) \<Rightarrow> byte list \<Rightarrow> bool \<Rightarrow> 'r" where
  "send_payload send payload want_connection_id = send [] payload want_connection_id"

definition send_stateless :: "(byte list \<Rightarrow> byte list \<Rightarrow> bool \<Rightarrow> 'r) \<Rightarrow> byte list \<Rightarrow> 'r" where
  "send_stateless send payload = send_payload send payload False"

definition sendContinuation_payload ::
  "(ConnectionId \<Rightarrow> byte list \<Rightarrow> byte list \<Rightarrow> 'r) \<Rightarrow> ConnectionId \<Rightarrow> byte list \<Rightarrow> 'r" where
  "sendContinuation_payload sendContinuation connection_id payload = sendContinuation connection_id [] payload"

section \<open>The multiplexer\<close>

type_synonym ChannelId = u8
type_synonym channel_ref = nat

text \<open>A channel is a \<open>Messaging\<close> with an id. The multiplexer keeps references to its channels.\<close>

record MuxChannel = Messaging +
  mc_id :: ChannelId

record MuxMessaging =
  mux_receivers :: "ChannelId \<rightharpoonup> channel_ref"

text \<open>The multiplexer, and the transport below with the dispatcher as its receiver.\<close>

definition MuxMessaging_new :: "Messaging \<Rightarrow> receiver_ref \<Rightarrow> MuxMessaging \<times> Messaging" where
  "MuxMessaging_new messaging dispatcher =
     (\<lparr>mux_receivers = (\<lambda>_. None)\<rparr>, setReceiver messaging dispatcher)"

definition registerChannel :: "MuxMessaging \<Rightarrow> channel_ref \<Rightarrow> MuxChannel \<Rightarrow> MuxMessaging option" where
  "registerChannel mux ref channel = do {
     CHECK (mux_receivers mux (mc_id channel) = None);
     Some (mux\<lparr>mux_receivers := (mux_receivers mux)(mc_id channel \<mapsto> ref)\<rparr>)
   }"

definition unregisterChannel :: "MuxMessaging \<Rightarrow> MuxChannel \<Rightarrow> MuxMessaging option" where
  "unregisterChannel mux channel = do {
     CHECK (mux_receivers mux (mc_id channel) \<noteq> None);
     Some (mux\<lparr>mux_receivers := (mux_receivers mux)(mc_id channel := None)\<rparr>)
   }"

definition MuxChannel_new :: "MuxMessaging \<Rightarrow> channel_ref \<Rightarrow> ChannelId \<Rightarrow> (MuxMessaging \<times> MuxChannel) option" where
  "MuxChannel_new mux ref id0 = do {
     let channel = \<lparr>ms_receiver = None, mc_id = id0\<rparr>;
     mux \<leftarrow> registerChannel mux ref channel;
     Some (mux, channel)
   }"

definition MuxChannel_destroy :: "MuxMessaging \<Rightarrow> MuxChannel \<Rightarrow> MuxMessaging option" where
  "MuxChannel_destroy mux channel = unregisterChannel mux channel"

text \<open>The channels of the multiplexer, by reference.\<close>

type_synonym mux_heap = "channel_ref \<Rightarrow> MuxChannel"

definition MuxMessaging_received ::
  "mux_heap \<Rightarrow> MuxMessaging \<Rightarrow> ConnectionId \<Rightarrow> ChannelId \<Rightarrow> byte list \<Rightarrow> msg_event list" where
  "MuxMessaging_received heap mux connection_id channel_id data =
     (case mux_receivers mux channel_id of
        None \<Rightarrow> []
      | Some ref \<Rightarrow> Messaging_received (heap ref) connection_id data)"

definition Dispatcher_received ::
  "data_lib \<Rightarrow> mux_heap \<Rightarrow> MuxMessaging \<Rightarrow> ConnectionId \<Rightarrow> byte list \<Rightarrow> msg_event list" where
  "Dispatcher_received D heap mux connection_id data =
     (if length data < 1 then []
      else let channel_id = LoadU8 D (take 1 data)
           in MuxMessaging_received heap mux connection_id channel_id (drop 1 data))"

text \<open>\<open>order\<close> lists the ids in the order of the loop over \<open>receivers_\<close>.\<close>

definition MuxMessaging_reset ::
  "mux_heap \<Rightarrow> ChannelId list \<Rightarrow> MuxMessaging \<Rightarrow> ConnectionId \<Rightarrow> msg_event list" where
  "MuxMessaging_reset heap order mux connection_id =
     concat (map (\<lambda>i. case mux_receivers mux i of
       None \<Rightarrow> [] | Some ref \<Rightarrow> Messaging_reset (heap ref) connection_id) order)"

definition MuxChannel_send ::
  "data_lib \<Rightarrow> (byte list \<Rightarrow> byte list \<Rightarrow> bool \<Rightarrow> 'r) \<Rightarrow> MuxChannel \<Rightarrow> byte list \<Rightarrow> byte list \<Rightarrow> bool \<Rightarrow> 'r" where
  "MuxChannel_send D send channel header payload want_connection_id =
     (let new_header = StoreU8 D (mc_id channel) @ header
      in send new_header payload want_connection_id)"

definition MuxChannel_sendContinuation ::
  "data_lib \<Rightarrow> (ConnectionId \<Rightarrow> byte list \<Rightarrow> byte list \<Rightarrow> 'r) \<Rightarrow> MuxChannel \<Rightarrow>
   ConnectionId \<Rightarrow> byte list \<Rightarrow> byte list \<Rightarrow> 'r" where
  "MuxChannel_sendContinuation D sendContinuation channel connection_id header payload =
     (let new_header = StoreU8 D (mc_id channel) @ header
      in sendContinuation connection_id new_header payload)"

section \<open>Isolation of the channels\<close>

text \<open>Every registered reference is to a channel with the id it is registered under.\<close>

definition mux_ok :: "mux_heap \<Rightarrow> MuxMessaging \<Rightarrow> bool" where
  "mux_ok heap mux \<longleftrightarrow> (\<forall>i ref. mux_receivers mux i = Some ref \<longrightarrow> mc_id (heap ref) = i)"

lemma mux_ok_new: "mux_ok heap (fst (MuxMessaging_new m d))"
  by (simp add: mux_ok_def MuxMessaging_new_def)

lemma mux_ok_register:
  assumes "mux_ok heap mux" "\<forall>i. mux_receivers mux i \<noteq> Some ref" "MuxChannel_new mux ref i = Some (mux', c)"
  shows "mux_ok (heap(ref := c)) mux'" "mc_id c = i" "mux_receivers mux' i = Some ref"
  using assms
  by (auto simp: mux_ok_def MuxChannel_new_def registerChannel_def CHECK_bind Let_def split: if_splits)

lemma mux_ok_unregister:
  assumes "mux_ok heap mux" "MuxChannel_destroy mux c = Some mux'"
  shows "mux_ok heap mux'" "mux_receivers mux' (mc_id c) = None"
  using assms by (auto simp: mux_ok_def MuxChannel_destroy_def unregisterChannel_def CHECK_bind split: if_splits)

text \<open>Two channels never have the same id: constructing the second one aborts.\<close>

lemma register_twice: "mux_receivers mux i = Some ref \<Longrightarrow> MuxChannel_new mux ref' i = None"
  by (simp add: MuxChannel_new_def registerChannel_def)

text \<open>
  What the peer's dispatcher does with a message sent on a channel: exactly the receiver of the
  channel with that id gets it, without the prefix.
\<close>

lemma dispatch_prefixed:
  assumes D: "codec_ok 1 (StoreU8 D) (LoadU8 D)"
  shows "Dispatcher_received D heap mux connection_id (StoreU8 D i @ data) =
    (case mux_receivers mux (i) of
       None \<Rightarrow> []
     | Some ref \<Rightarrow> (case ms_receiver (heap ref) of None \<Rightarrow> [] | Some r \<Rightarrow> [Received r connection_id (data)]))"
proof -
  have "length (StoreU8 D i) = 1" "LoadU8 D (StoreU8 D i) = i"
    using codec_okD(1,2) [OF D, of i] by simp_all
  then show ?thesis
    by (cases "StoreU8 D i")
      (simp_all add: Dispatcher_received_def MuxMessaging_received_def Messaging_received_def Let_def split: option.split)
qed

lemma dispatch_sent:
  assumes D: "codec_ok 1 (StoreU8 D) (LoadU8 D)"
  shows "MuxChannel_send D (\<lambda>header payload w. Dispatcher_received D heap mux connection_id (header @ payload))
      c header payload want =
    (case mux_receivers mux (mc_id c) of
       None \<Rightarrow> []
     | Some ref \<Rightarrow> (case ms_receiver (heap ref) of None \<Rightarrow> [] | Some r \<Rightarrow> [Received r connection_id (header @ payload)]))"
  by (simp add: MuxChannel_send_def dispatch_prefixed [OF D])

lemma dispatch_sent_continuation:
  assumes D: "codec_ok 1 (StoreU8 D) (LoadU8 D)"
  shows "MuxChannel_sendContinuation D (\<lambda>cid header payload. Dispatcher_received D heap mux cid (header @ payload))
      c connection_id header payload =
    (case mux_receivers mux (mc_id c) of
       None \<Rightarrow> []
     | Some ref \<Rightarrow> (case ms_receiver (heap ref) of None \<Rightarrow> [] | Some r \<Rightarrow> [Received r connection_id (header @ payload)]))"
  by (simp add: MuxChannel_sendContinuation_def dispatch_prefixed [OF D])

text \<open>A reset of the transport reaches the receiver of every registered channel.\<close>

lemma mux_reset_all:
  assumes "set order = dom (mux_receivers mux)"
  shows "set (MuxMessaging_reset heap order mux cid) =
    {Reset r cid | r i ref. mux_receivers mux i = Some ref \<and> ms_receiver (heap ref) = Some r}"
  using assms
  by (fastforce simp: MuxMessaging_reset_def Messaging_reset_def dom_def
      split: option.splits)

end
