(* ===== verification/Rpc_Client.thy ===== *)
theory Rpc_Client
  imports Rpc_Header Messaging_Mux
begin

text \<open>
  The RPC client (\<^verbatim>\<open>rpc/client.{h,cpp}\<close>). An \<open>OutgoingCall\<close> is a cell of a heap (its \<open>shared_ptr\<close> is
  an index); a completion callback is identified by a number, and invoking it is an event with the
  payload and the status it gets. The sections of a method that hold a mutex are definitions of
  their own: the methods compose them, and the step relation interleaves them.
\<close>

section \<open>State\<close>

type_synonym cb_ref = nat
type_synonym call_ref = nat

record OutgoingCall =
  oc_cb :: "cb_ref option"

record RpcClient =
  rc_next_stream_id :: u32
  rc_outgoing_calls :: "RpcStreamId \<rightharpoonup> call_ref"
  rc_calls :: "OutgoingCall list"

type_synonym cb_event = "cb_ref \<times> byte list \<times> RpcStatus"

definition RpcClient_new :: RpcClient where
  "RpcClient_new = \<lparr>rc_next_stream_id = 1, rc_outgoing_calls = (\<lambda>_. None), rc_calls = []\<rparr>"

definition RpcClient_begin :: "Messaging \<Rightarrow> receiver_ref \<Rightarrow> Messaging" where
  "RpcClient_begin messaging dispatcher = setReceiver messaging dispatcher"

definition RpcClient_end :: "Messaging \<Rightarrow> Messaging" where
  "RpcClient_end messaging = unsetReceiver messaging"

text \<open>\<open>std::make_shared<OutgoingCall>(cb)\<close>\<close>

definition OutgoingCall_make :: "RpcClient \<Rightarrow> cb_ref \<Rightarrow> RpcClient \<times> call_ref" where
  "OutgoingCall_make c cb = (c\<lparr>rc_calls := rc_calls c @ [\<lparr>oc_cb = Some cb\<rparr>]\<rparr>, length (rc_calls c))"

section \<open>Operations\<close>

text \<open>The map's \<open>insert\<close> keeps an entry that is already there.\<close>

definition new_stream :: "RpcClient \<Rightarrow> call_ref \<Rightarrow> RpcClient \<times> RpcStreamId" where
  "new_stream c call =
     (let stream_id = rc_next_stream_id c;
          next = stream_id + 1;
          next = (if next > 0x00FFFFFF then 1 else next);
          calls = (if rc_outgoing_calls c stream_id = None then (rc_outgoing_calls c)(stream_id \<mapsto> call)
                   else rc_outgoing_calls c)
      in (c\<lparr>rc_next_stream_id := next, rc_outgoing_calls := calls\<rparr>, stream_id))"

definition cancelSend_erase :: "RpcClient \<Rightarrow> RpcStreamId \<Rightarrow> RpcClient" where
  "cancelSend_erase c stream_id = c\<lparr>rc_outgoing_calls := (rc_outgoing_calls c)(stream_id := None)\<rparr>"

definition cancelSend_clear :: "RpcClient \<Rightarrow> call_ref \<Rightarrow> RpcClient" where
  "cancelSend_clear c call = c\<lparr>rc_calls := (rc_calls c)[call := \<lparr>oc_cb = None\<rparr>]\<rparr>"

definition cancelSend :: "RpcClient \<Rightarrow> RpcStreamId \<Rightarrow> call_ref \<Rightarrow> RpcClient" where
  "cancelSend c stream_id call = cancelSend_clear (cancelSend_erase c stream_id) call"

definition RpcClient_complete ::
  "RpcClient \<Rightarrow> call_ref \<Rightarrow> byte list \<Rightarrow> RpcStatus \<Rightarrow> RpcClient \<times> cb_event list" where
  "RpcClient_complete c call data status =
     (let cb = oc_cb (rc_calls c ! call)
      in (c\<lparr>rc_calls := (rc_calls c)[call := \<lparr>oc_cb = None\<rparr>]\<rparr>,
          case cb of None \<Rightarrow> [] | Some f \<Rightarrow> [(f, data, status)]))"

text \<open>
  \<open>send\<close> is \<open>messaging_.send\<close> on the header and the payload: its result, what other threads do to
  the client while it runs, and the callbacks they invoke.
\<close>

type_synonym send_fn = "RpcClient \<Rightarrow> byte list \<Rightarrow> byte list \<Rightarrow> RpcClient \<times> cb_event list \<times> bool"

definition send_request ::
  "io_lib \<Rightarrow> send_fn \<Rightarrow> RpcClient \<Rightarrow> RpcHeader \<Rightarrow> RpcStreamId \<Rightarrow> call_ref \<Rightarrow> byte list \<Rightarrow>
   (RpcClient \<times> cb_event list \<times> RpcStatus) option" where
  "send_request IO send c header stream_id call payload = do {
     bytes \<leftarrow> RpcHeader_serialize IO header kMaxSerializedSize;
     CHECK (length bytes > 0);
     let (c, events, sent) = send c bytes payload;
     if sent then Some (c, events, kOk)
     else Some (cancelSend c stream_id call, events, kUnavailable)
   }"

definition sendUnaryRpc ::
  "io_lib \<Rightarrow> send_fn \<Rightarrow> RpcClient \<Rightarrow> RpcFunctionId \<Rightarrow> byte list \<Rightarrow> cb_ref \<Rightarrow>
   (RpcClient \<times> cb_event list \<times> RpcStatus) option" where
  "sendUnaryRpc IO send c function_id payload cb =
     (let (c, call) = OutgoingCall_make c cb;
          (c, stream_id) = new_stream c call;
          header = NewUnaryRequest function_id stream_id
      in send_request IO send c header stream_id call payload)"

definition sendUnaryRpcWithTimeout ::
  "io_lib \<Rightarrow> send_fn \<Rightarrow> RpcClient \<Rightarrow> RpcFunctionId \<Rightarrow> byte list \<Rightarrow> u32 \<Rightarrow> cb_ref \<Rightarrow>
   (RpcClient \<times> cb_event list \<times> RpcStatus) option" where
  "sendUnaryRpcWithTimeout IO send c function_id payload timeout_ms cb =
     (let (c, call) = OutgoingCall_make c cb;
          (c, stream_id) = new_stream c call;
          header = NewUnaryRequest_timeout function_id stream_id timeout_ms
      in send_request IO send c header stream_id call payload)"

text \<open>
  \<open>handleResponse\<close> up to the end of its critical section: the call it claims, with the payload and
  the status for its callback.
\<close>

definition handleResponse_claim ::
  "io_lib \<Rightarrow> RpcClient \<Rightarrow> byte list \<Rightarrow> (RpcClient \<times> (call_ref \<times> byte list \<times> RpcStatus) option) option" where
  "handleResponse_claim IO c data =
     (let (header_len, header) = RpcHeader_deserialize IO RpcHeader_new data
      in if header_len = 0 then Some (c, None)
         else
           (let data = drop header_len data
            in if hd_type header \<noteq> kResponse then Some (c, None)
               else case rc_outgoing_calls c (hd_stream_id header) of
                      None \<Rightarrow> Some (c, None)
                    | Some call \<Rightarrow> do {
                        let c = c\<lparr>rc_outgoing_calls := (rc_outgoing_calls c)(hd_stream_id header := None)\<rparr>;
                        status \<leftarrow> (if hd_last_message header then responseStatus header else Some kOk);
                        Some (c, Some (call, data, status))
                      }))"

definition handleResponse :: "io_lib \<Rightarrow> RpcClient \<Rightarrow> byte list \<Rightarrow> (RpcClient \<times> cb_event list) option" where
  "handleResponse IO c data = do {
     (c, claimed) \<leftarrow> handleResponse_claim IO c data;
     case claimed of
       None \<Rightarrow> Some (c, [])
     | Some (call, data, status) \<Rightarrow> Some (RpcClient_complete c call data status)
   }"

text \<open>\<open>order\<close> lists the stream ids in the order of the loop over the map.\<close>

definition client_reset_claim :: "RpcClient \<Rightarrow> RpcStreamId list \<Rightarrow> RpcClient \<times> call_ref list" where
  "client_reset_claim c order =
     (c\<lparr>rc_outgoing_calls := (\<lambda>_. None)\<rparr>, List.map_filter (rc_outgoing_calls c) order)"

fun complete_all :: "RpcClient \<Rightarrow> call_ref list \<Rightarrow> RpcClient \<times> cb_event list" where
  "complete_all c [] = (c, [])"
| "complete_all c (call # calls) =
     (let (c, events) = RpcClient_complete c call [] kUnavailable;
          (c, events') = complete_all c calls
      in (c, events @ events'))"

definition client_connectionReset :: "RpcClient \<Rightarrow> RpcStreamId list \<Rightarrow> RpcClient \<times> cb_event list" where
  "client_connectionReset c order =
     (let (c, calls_to_cancel) = client_reset_claim c order in complete_all c calls_to_cancel)"

section \<open>The stub\<close>

text \<open>The callbacks of \<open>call\<close> and \<open>callAsync\<close>: the status and, if it is \<open>kOk\<close>, the response.\<close>

definition stub_callback :: "(byte list \<Rightarrow> RpcStatus + 'v) \<Rightarrow> byte list \<Rightarrow> RpcStatus \<Rightarrow> RpcStatus \<times> 'v option" where
  "stub_callback deserialize data resp_status =
     (if resp_status = kOk
      then case deserialize data of Inl e \<Rightarrow> (e, None) | Inr v \<Rightarrow> (kOk, Some v)
      else (resp_status, None))"

definition UnaryStub_callAsync ::
  "io_lib \<Rightarrow> send_fn \<Rightarrow> RpcClient \<Rightarrow> RpcFunctionId \<Rightarrow> Serialized \<Rightarrow> cb_ref \<Rightarrow>
   (RpcClient \<times> cb_event list \<times> RpcStatus) option" where
  "UnaryStub_callAsync IO send c function_id serialized cb =
     (if sz_status serialized \<noteq> kOk then Some (c, [], sz_status serialized)
      else sendUnaryRpc IO send c function_id (sz_data serialized) cb)"

text \<open>
  \<open>call\<close> up to the latch: \<open>Inl\<close> the status it returns at once, or \<open>Inr\<close>: it waits for its
  callback and then returns what \<open>stub_callback\<close> gives.
\<close>

definition UnaryStub_call ::
  "io_lib \<Rightarrow> send_fn \<Rightarrow> RpcClient \<Rightarrow> RpcFunctionId \<Rightarrow> Serialized \<Rightarrow> cb_ref \<Rightarrow>
   (RpcClient \<times> cb_event list \<times> (RpcStatus + unit)) option" where
  "UnaryStub_call IO send c function_id serialized cb =
     (if sz_status serialized \<noteq> kOk then Some (c, [], Inl (sz_status serialized))
      else do {
        (c, events, req_status) \<leftarrow> sendUnaryRpc IO send c function_id (sz_data serialized) cb;
        Some (c, events, if req_status \<noteq> kOk then Inl req_status else Inr ())
      })"

section \<open>Interleaving\<close>

text \<open>
  Threads in \<open>sendUnaryRpc\<close> (by the call they send), calls that a response or a reset has claimed
  and not completed yet, and what has happened.
\<close>

datatype sender = Sending RpcStreamId | Erased

datatype client_event = Ev_send call_ref RpcStreamId | Ev_return call_ref RpcStatus
  | Ev_callback call_ref "byte list" RpcStatus

record client_sys =
  cs_client :: RpcClient
  cs_senders :: "call_ref \<rightharpoonup> sender"
  cs_claimed :: "(call_ref \<times> byte list \<times> RpcStatus) list"
  cs_log :: "client_event list"

definition client_start :: client_sys where
  "client_start = \<lparr>cs_client = RpcClient_new, cs_senders = (\<lambda>_. None), cs_claimed = [], cs_log = []\<rparr>"

inductive client_step :: "io_lib \<Rightarrow> client_sys \<Rightarrow> client_sys \<Rightarrow> bool" for IO where
  submit: "OutgoingCall_make (cs_client s) cb = (c1, call) \<Longrightarrow> new_stream c1 call = (c2, stream_id) \<Longrightarrow>
    client_step IO s (s\<lparr>cs_client := c2, cs_senders := (cs_senders s)(call \<mapsto> Sending stream_id),
      cs_log := cs_log s @ [Ev_send call stream_id]\<rparr>)"
| send_ok: "cs_senders s call = Some (Sending stream_id) \<Longrightarrow>
    client_step IO s (s\<lparr>cs_senders := (cs_senders s)(call := None), cs_log := cs_log s @ [Ev_return call kOk]\<rparr>)"
| send_fail: "cs_senders s call = Some (Sending stream_id) \<Longrightarrow>
    client_step IO s (s\<lparr>cs_client := cancelSend_erase (cs_client s) stream_id,
      cs_senders := (cs_senders s)(call \<mapsto> Erased)\<rparr>)"
| send_cancel: "cs_senders s call = Some Erased \<Longrightarrow>
    client_step IO s (s\<lparr>cs_client := cancelSend_clear (cs_client s) call,
      cs_senders := (cs_senders s)(call := None), cs_log := cs_log s @ [Ev_return call kUnavailable]\<rparr>)"
| response: "handleResponse_claim IO (cs_client s) data = Some (c, claimed) \<Longrightarrow>
    client_step IO s (s\<lparr>cs_client := c,
      cs_claimed := cs_claimed s @ (case claimed of None \<Rightarrow> [] | Some x \<Rightarrow> [x])\<rparr>)"
| reset: "set order = dom (rc_outgoing_calls (cs_client s)) \<Longrightarrow> client_reset_claim (cs_client s) order = (c, calls) \<Longrightarrow>
    client_step IO s (s\<lparr>cs_client := c,
      cs_claimed := cs_claimed s @ map (\<lambda>call. (call, [], kUnavailable)) calls\<rparr>)"
| finish: "cs_claimed s = xs @ (call, data, status) # ys \<Longrightarrow>
    RpcClient_complete (cs_client s) call data status = (c, events) \<Longrightarrow>
    client_step IO s (s\<lparr>cs_client := c, cs_claimed := xs @ ys,
      cs_log := cs_log s @ map (\<lambda>(cb, d, st). Ev_callback call d st) events\<rparr>)"

definition client_reachable :: "io_lib \<Rightarrow> client_sys \<Rightarrow> bool" where
  "client_reachable IO s \<longleftrightarrow> (client_step IO)\<^sup>*\<^sup>* client_start s"

section \<open>Invariants\<close>

definition cb_live :: "RpcClient \<Rightarrow> call_ref \<Rightarrow> bool" where
  "cb_live c call \<longleftrightarrow> call < length (rc_calls c) \<and> oc_cb (rc_calls c ! call) \<noteq> None"

definition callbacks :: "call_ref \<Rightarrow> client_event list \<Rightarrow> nat" where
  "callbacks call log = length (filter (\<lambda>e. \<exists>d st. e = Ev_callback call d st) log)"

text \<open>No callback of a call runs after \<open>kUnavailable\<close> was returned for it.\<close>

fun no_late_callback :: "client_event list \<Rightarrow> bool" where
  "no_late_callback [] \<longleftrightarrow> True"
| "no_late_callback (e # log) \<longleftrightarrow>
     (\<forall>call d st. e = Ev_return call kUnavailable \<longrightarrow> Ev_callback call d st \<notin> set log) \<and> no_late_callback log"

definition returned :: "call_ref \<Rightarrow> client_event list \<Rightarrow> bool" where
  "returned call log \<longleftrightarrow> (\<exists>st. Ev_return call st \<in> set log)"

definition refs_inv :: "client_sys \<Rightarrow> bool" where
  "refs_inv s \<longleftrightarrow>
     (let n = length (rc_calls (cs_client s)) in
      (\<forall>i call. rc_outgoing_calls (cs_client s) i = Some call \<longrightarrow> call < n) \<and>
      (\<forall>call d st. (call, d, st) \<in> set (cs_claimed s) \<longrightarrow> call < n) \<and>
      (\<forall>call. cs_senders s call \<noteq> None \<longrightarrow> call < n))"

text \<open>The history of one call.\<close>

definition call_inv :: "client_sys \<Rightarrow> call_ref \<Rightarrow> bool" where
  "call_inv s call \<longleftrightarrow>
     (let c = cs_client s; log = cs_log s in
      callbacks call log \<le> 1 \<and>
      (cb_live c call \<longrightarrow> callbacks call log = 0 \<and> Ev_return call kUnavailable \<notin> set log) \<and>
      (cs_senders s call \<noteq> None \<longrightarrow> \<not> returned call log) \<and>
      (length (rc_calls c) \<le> call \<longrightarrow> callbacks call log = 0 \<and> \<not> returned call log) \<and>
      (call < length (rc_calls c) \<and> \<not> cb_live c call \<longrightarrow>
         callbacks call log = 1 \<or> Ev_return call kUnavailable \<in> set log))"

definition client_inv :: "client_sys \<Rightarrow> bool" where
  "client_inv s \<longleftrightarrow> refs_inv s \<and> (\<forall>call. call_inv s call) \<and> no_late_callback (cs_log s)"

text \<open>
  As long as stream ids have not wrapped around, every call has an id of its own, and a call
  that may still complete is found by a response or a reset, or is being cancelled.
\<close>

definition call_id :: "call_ref \<Rightarrow> RpcStreamId" where
  "call_id call = of_nat (call + 1)"

definition findable :: "client_sys \<Rightarrow> call_ref \<Rightarrow> bool" where
  "findable s call \<longleftrightarrow>
     rc_outgoing_calls (cs_client s) (call_id call) = Some call \<or>
     call \<in> fst ` set (cs_claimed s) \<or> cs_senders s call = Some Erased"

definition id_inv :: "client_sys \<Rightarrow> bool" where
  "id_inv s \<longleftrightarrow>
     rc_next_stream_id (cs_client s) =
       (if length (rc_calls (cs_client s)) < 0xFFFFFF then call_id (length (rc_calls (cs_client s))) else 1) \<and>
     (\<forall>i call. rc_outgoing_calls (cs_client s) i = Some call \<longrightarrow> i = call_id call) \<and>
     (\<forall>call i. cs_senders s call = Some (Sending i) \<longrightarrow> i = call_id call) \<and>
     (\<forall>call. cb_live (cs_client s) call \<longrightarrow> findable s call)"

section \<open>Effects of the steps\<close>

lemma callbacks_append [simp]: "callbacks call (log @ log') = callbacks call log + callbacks call log'"
  by (simp add: callbacks_def)

lemma callbacks_simps [simp]:
  "callbacks call [] = 0"
  "callbacks call (Ev_send x i # log) = callbacks call log"
  "callbacks call (Ev_return x st # log) = callbacks call log"
  "callbacks call (Ev_callback x d st # log) = (if x = call then 1 else 0) + callbacks call log"
  by (auto simp: callbacks_def)

lemma callbacks_0: "callbacks call log = 0 \<longleftrightarrow> (\<forall>d st. Ev_callback call d st \<notin> set log)"
  by (auto simp: callbacks_def filter_empty_conv)

lemma no_late_append:
  "no_late_callback (log @ [e]) \<longleftrightarrow>
     no_late_callback log \<and> (\<forall>call d st. e = Ev_callback call d st \<longrightarrow> Ev_return call kUnavailable \<notin> set log)"
  by (induction log) auto

lemma submit_effect:
  assumes "OutgoingCall_make c cb = (c1, call)" "new_stream c1 call = (c2, i)"
  shows "call = length (rc_calls c)" "length (rc_calls c2) = Suc (length (rc_calls c))"
    "cb_live c2 x \<longleftrightarrow> cb_live c x \<or> x = length (rc_calls c)"
    "i = rc_next_stream_id c" "rc_next_stream_id c2 = (if i + 1 > 0xFFFFFF then 1 else i + 1)"
    "rc_outgoing_calls c2 =
       (if rc_outgoing_calls c i = None then (rc_outgoing_calls c)(i \<mapsto> length (rc_calls c)) else rc_outgoing_calls c)"
  using assms by (auto simp: OutgoingCall_make_def new_stream_def Let_def cb_live_def nth_append)

lemma clear_effect:
  "rc_outgoing_calls (cancelSend_clear c call) = rc_outgoing_calls c"
  "rc_next_stream_id (cancelSend_clear c call) = rc_next_stream_id c"
  "length (rc_calls (cancelSend_clear c call)) = length (rc_calls c)"
  "cb_live (cancelSend_clear c call) x \<longleftrightarrow> cb_live c x \<and> x \<noteq> call"
  by (simp_all add: cancelSend_clear_def cb_live_def) (cases "call = x"; auto)

lemma erase_effect:
  "rc_calls (cancelSend_erase c i) = rc_calls c"
  "rc_next_stream_id (cancelSend_erase c i) = rc_next_stream_id c"
  "rc_outgoing_calls (cancelSend_erase c i) = (rc_outgoing_calls c)(i := None)"
  "cb_live (cancelSend_erase c i) x = cb_live c x"
  by (simp_all add: cancelSend_erase_def cb_live_def)

lemma complete_effect:
  assumes "RpcClient_complete c call data status = (c', events)"
  shows "c' = cancelSend_clear c call"
    and "call < length (rc_calls c) \<Longrightarrow>
      events = (case oc_cb (rc_calls c ! call) of None \<Rightarrow> [] | Some f \<Rightarrow> [(f, data, status)])"
  using assms by (auto simp: RpcClient_complete_def cancelSend_clear_def)

lemma complete_events:
  assumes "RpcClient_complete c call data status = (c', events)" "call < length (rc_calls c)"
  shows "map (\<lambda>(cb, d, st). Ev_callback call d st) events = (if cb_live c call then [Ev_callback call data status] else [])"
  using assms by (auto simp: RpcClient_complete_def cb_live_def)

lemma claim_effect:
  assumes "handleResponse_claim IO c data = Some (c', claimed)"
  obtains (none) "c' = c" "claimed = None"
  | (some) i call d st where "rc_outgoing_calls c i = Some call" "claimed = Some (call, d, st)" "c' = cancelSend_erase c i"
proof -
  obtain n h where h: "RpcHeader_deserialize IO RpcHeader_new data = (n, h)"
    by (metis surj_pair)
  show ?thesis
  proof (cases "n = 0 \<or> hd_type h \<noteq> kResponse \<or> rc_outgoing_calls c (hd_stream_id h) = None")
    case True
    then have "c' = c \<and> claimed = None"
      using assms h by (auto simp: handleResponse_claim_def Let_def split: if_splits)
    then show ?thesis
      using none by blast
  next
    case False
    then obtain call where call: "rc_outgoing_calls c (hd_stream_id h) = Some call"
      by auto
    then have "\<exists>st. claimed = Some (call, drop n data, st) \<and> c' = cancelSend_erase c (hd_stream_id h)"
      using assms h False by (auto simp: handleResponse_claim_def Let_def cancelSend_erase_def bind_eq_Some_conv)
    then show ?thesis
      using some call by blast
  qed
qed

lemma reset_effect:
  assumes "client_reset_claim c order = (c', calls)" "set order = dom (rc_outgoing_calls c)"
  shows "rc_outgoing_calls c' = (\<lambda>_. None)" "rc_next_stream_id c' = rc_next_stream_id c" "rc_calls c' = rc_calls c"
    "cb_live c' x = cb_live c x" "set calls = ran (rc_outgoing_calls c)"
proof -
  have c: "c' = c\<lparr>rc_outgoing_calls := (\<lambda>_. None)\<rparr>" "calls = List.map_filter (rc_outgoing_calls c) order"
    using assms(1) by (auto simp: client_reset_claim_def)
  show "rc_outgoing_calls c' = (\<lambda>_. None)" "rc_next_stream_id c' = rc_next_stream_id c" "rc_calls c' = rc_calls c"
    "cb_live c' x = cb_live c x"
    by (simp_all add: c cb_live_def)
  show "set calls = ran (rc_outgoing_calls c)"
  proof (intro set_eqI iffI)
    fix y assume "y \<in> set calls"
    then show "y \<in> ran (rc_outgoing_calls c)"
      by (auto simp: c map_filter_def intro: ranI)
  next
    fix y assume "y \<in> ran (rc_outgoing_calls c)"
    then obtain i where i: "rc_outgoing_calls c i = Some y"
      by (auto simp: ran_def)
    then have "i \<in> set order"
      using assms(2) by auto
    with i show "y \<in> set calls"
      by (force simp: c map_filter_def)
  qed
qed

lemma returned_append [simp]: "returned call (log @ log') \<longleftrightarrow> returned call log \<or> returned call log'"
  by (auto simp: returned_def)

lemma returned_simps [simp]:
  "\<not> returned call []" "returned call (Ev_send x i # log) = returned call log"
  "returned call (Ev_return x st # log) \<longleftrightarrow> call = x \<or> returned call log"
  "returned call (Ev_callback x d st # log) = returned call log"
  by (auto simp: returned_def)

lemma returned_unavailable: "Ev_return call st \<in> set log \<Longrightarrow> returned call log"
  by (auto simp: returned_def)

lemma cb_live_ref: "cb_live c call \<Longrightarrow> call < length (rc_calls c)"
  by (simp add: cb_live_def)

lemma refs_invI:
  assumes "\<And>i call. rc_outgoing_calls (cs_client s) i = Some call \<Longrightarrow> call < length (rc_calls (cs_client s))"
    and "\<And>call d st. (call, d, st) \<in> set (cs_claimed s) \<Longrightarrow> call < length (rc_calls (cs_client s))"
    and "\<And>call x. cs_senders s call = Some x \<Longrightarrow> call < length (rc_calls (cs_client s))"
  shows "refs_inv s"
  using assms by (auto simp: refs_inv_def Let_def)

lemma refs_invD:
  assumes "refs_inv s"
  shows "rc_outgoing_calls (cs_client s) i = Some call \<Longrightarrow> call < length (rc_calls (cs_client s))"
    and "(call, d, st) \<in> set (cs_claimed s) \<Longrightarrow> call < length (rc_calls (cs_client s))"
    and "cs_senders s call = Some x \<Longrightarrow> call < length (rc_calls (cs_client s))"
  using assms unfolding refs_inv_def Let_def by blast+

lemma refs_inv_step: "client_step IO s s' \<Longrightarrow> refs_inv s \<Longrightarrow> refs_inv s'"
proof (induction rule: client_step.induct)
  case (submit s cb c1 call c2 stream_id)
  note e = submit_effect [OF submit.hyps]
  show ?case
    by (intro refs_invI) (auto simp: e(1,2,6) intro: less_SucI refs_invD [OF submit.prems] split: if_splits)
next
  case (send_ok s call stream_id)
  show ?case
    by (intro refs_invI) (auto intro: refs_invD [OF send_ok.prems] split: if_splits)
next
  case (send_fail s call stream_id)
  show ?case
    using send_fail.hyps
    by (intro refs_invI) (auto simp: erase_effect intro: refs_invD [OF send_fail.prems] split: if_splits)
next
  case (send_cancel s call)
  show ?case
    by (intro refs_invI) (auto simp: clear_effect intro: refs_invD [OF send_cancel.prems] split: if_splits)
next
  case (response s data c claimed)
  show ?case
    using response.hyps
    by (cases rule: claim_effect)
      (auto simp: erase_effect intro!: refs_invI intro: refs_invD [OF response.prems] split: if_splits)
next
  case (reset order s c calls)
  have "call < length (rc_calls (cs_client s))" if "call \<in> set calls" for call
    using that reset.hyps(2) refs_invD(1) [OF reset.prems] by (auto simp: client_reset_claim_def map_filter_def)
  then show ?case
    using reset.hyps(2)
    by (intro refs_invI) (auto simp: client_reset_claim_def intro: refs_invD(2,3) [OF reset.prems])
next
  case (finish s xs call data status ys c events)
  note c = complete_effect(1) [OF finish.hyps(2)]
  have claimed: "x < length (rc_calls (cs_client s))" if "(x, d, st) \<in> set (xs @ ys)" for x d st
    using that refs_invD(2) [OF finish.prems, of x d st] unfolding finish.hyps(1) by auto
  show ?case
    by (rule refs_invI) (simp_all add: c clear_effect refs_invD(1,3) [OF finish.prems] claimed)
qed

lemma call_inv_step: "client_step IO s s' \<Longrightarrow> refs_inv s \<Longrightarrow> call_inv s x \<Longrightarrow> call_inv s' x"
proof (induction rule: client_step.induct)
  case (submit s cb c1 call c2 stream_id)
  note e = submit_effect [OF submit.hyps]
  have "\<not> cb_live (cs_client s) (length (rc_calls (cs_client s)))"
    by (simp add: cb_live_def)
  then show ?case
    using submit.prems(2) returned_unavailable [of x kUnavailable "cs_log s"] unfolding call_inv_def Let_def
    by (cases "x = length (rc_calls (cs_client s))") (auto simp: e(1,2,3))
next
  case (send_ok s call stream_id)
  then show ?case
    using refs_invD(3) [OF send_ok.prems(1) send_ok.hyps]
    by (cases "x = call") (auto simp: call_inv_def Let_def)
next
  case (send_fail s call stream_id)
  then show ?case
    by (cases "x = call") (auto simp: call_inv_def Let_def erase_effect)
next
  case (send_cancel s call)
  then show ?case
    using refs_invD(3) [OF send_cancel.prems(1) send_cancel.hyps]
    by (cases "x = call") (auto simp: call_inv_def Let_def clear_effect)
next
  case (response s data c claimed)
  show ?case
    using response.hyps
    by (cases rule: claim_effect) (use response.prems(2) in \<open>auto simp: call_inv_def Let_def erase_effect\<close>)
next
  case (reset order s c calls)
  then show ?case
    by (auto simp: call_inv_def Let_def client_reset_claim_def cb_live_def)
next
  case (finish s xs call data status ys c events)
  have n: "call < length (rc_calls (cs_client s))"
    using refs_invD(2) [OF finish.prems(1), of call data status] by (simp add: finish.hyps(1))
  show ?case
    using finish.prems(2) n unfolding call_inv_def Let_def
    by (cases "x = call")
      (auto simp: complete_events [OF finish.hyps(2) n] complete_effect(1) [OF finish.hyps(2)] clear_effect)
qed

lemma no_late_step:
  "client_step IO s s' \<Longrightarrow> refs_inv s \<Longrightarrow> (\<forall>x. call_inv s x) \<Longrightarrow> no_late_callback (cs_log s) \<Longrightarrow> no_late_callback (cs_log s')"
proof (induction rule: client_step.induct)
  case (finish s xs call data status ys c events)
  have n: "call < length (rc_calls (cs_client s))"
    using refs_invD(2) [OF finish.prems(1), of call data status] by (simp add: finish.hyps(1))
  have "call_inv s call"
    using finish.prems(2) by simp
  then show ?case
    using finish.prems(3)
    by (auto simp: complete_events [OF finish.hyps(2) n] no_late_append call_inv_def Let_def)
qed (simp_all add: no_late_append)

lemma client_inv_start: "client_inv client_start"
  by (simp add: client_inv_def refs_inv_def call_inv_def client_start_def RpcClient_new_def cb_live_def)

lemma client_inv_step: "client_step IO s s' \<Longrightarrow> client_inv s \<Longrightarrow> client_inv s'"
  using refs_inv_step call_inv_step no_late_step by (simp add: client_inv_def)

lemma client_reachable_inv: "client_reachable IO s \<Longrightarrow> client_inv s"
  unfolding client_reachable_def by (induction rule: rtranclp_induct) (auto intro: client_inv_start client_inv_step)

section \<open>No call is lost\<close>

lemma id_inj:
  assumes "call_id a = call_id b" "a < 0xFFFFFF" "b < 0xFFFFFF"
  shows "a = b"
proof -
  have "unat (of_nat n :: u32) = n" if "n \<le> 0xFFFFFF" for n
    using that by (simp add: unsigned_of_nat take_bit_nat_eq_self)
  from this [of "a + 1"] this [of "b + 1"] have "unat (of_nat (a + 1) :: u32) = a + 1" "unat (of_nat (b + 1) :: u32) = b + 1"
    using assms(2,3) by linarith+
  then show ?thesis
    using assms(1) unfolding call_id_def by (metis add_right_cancel)
qed

lemma id_inv_start: "id_inv client_start"
  by (simp add: id_inv_def client_start_def RpcClient_new_def cb_live_def call_id_def)

lemma id_invI:
  assumes "rc_next_stream_id (cs_client s) =
      (if length (rc_calls (cs_client s)) < 0xFFFFFF then call_id (length (rc_calls (cs_client s))) else 1)"
    and "\<And>i call. rc_outgoing_calls (cs_client s) i = Some call \<Longrightarrow> i = call_id call"
    and "\<And>call i. cs_senders s call = Some (Sending i) \<Longrightarrow> i = call_id call"
    and "\<And>call. cb_live (cs_client s) call \<Longrightarrow> findable s call"
  shows "id_inv s"
  unfolding id_inv_def using assms by blast

lemma id_invD:
  assumes "id_inv s"
  shows "rc_next_stream_id (cs_client s) =
      (if length (rc_calls (cs_client s)) < 0xFFFFFF then call_id (length (rc_calls (cs_client s))) else 1)"
    and "rc_outgoing_calls (cs_client s) i = Some call \<Longrightarrow> i = call_id call"
    and "cs_senders s call = Some (Sending i) \<Longrightarrow> i = call_id call"
    and "cb_live (cs_client s) call \<Longrightarrow> findable s call"
  using assms unfolding id_inv_def by blast+

lemma calls_grow: "client_step IO s s' \<Longrightarrow> length (rc_calls (cs_client s)) \<le> length (rc_calls (cs_client s'))"
proof (induction rule: client_step.induct)
  case (submit s cb c1 call c2 stream_id)
  show ?case
    by (simp add: submit_effect [OF submit.hyps])
next
  case (response s data c claimed)
  then show ?case
    by (cases rule: claim_effect) (simp_all add: erase_effect)
next
  case (reset order s c calls)
  then show ?case
    by (auto simp: client_reset_claim_def)
next
  case (finish s xs call data status ys c events)
  show ?case
    by (simp add: complete_effect(1) [OF finish.hyps(2)] clear_effect)
qed (simp_all add: erase_effect clear_effect)

lemma id_inv_submit:
  assumes hyps: "OutgoingCall_make (cs_client s) cb = (c1, call)" "new_stream c1 call = (c2, stream_id)"
    and refs: "refs_inv s" and inv: "id_inv s" and n: "length (rc_calls (cs_client s)) < 0xFFFFFF"
  shows "id_inv (s\<lparr>cs_client := c2, cs_senders := (cs_senders s)(call \<mapsto> Sending stream_id),
      cs_log := cs_log s @ [Ev_send call stream_id]\<rparr>)" (is "id_inv ?s")
proof -
  let ?n = "length (rc_calls (cs_client s))"
  note e = submit_effect [OF hyps]
  have id: "stream_id = call_id ?n"
    using id_invD(1) [OF inv] n by (simp add: e(4))
  have fresh: "rc_outgoing_calls (cs_client s) stream_id = None"
  proof (rule ccontr)
    assume "rc_outgoing_calls (cs_client s) stream_id \<noteq> None"
    then obtain x where x: "rc_outgoing_calls (cs_client s) stream_id = Some x"
      by auto
    then have "x < ?n" "stream_id = call_id x"
      using refs_invD(1) [OF refs] id_invD(2) [OF inv] by blast+
    then show False
      using id_inj [of x ?n] id n by simp
  qed
  have unat_id: "unat (stream_id + 1) = ?n + 2"
    using n by (simp add: id call_id_def unat_word_ariths unsigned_of_nat take_bit_nat_eq_self)
  show ?thesis
  proof (rule id_invI)
    show "rc_next_stream_id (cs_client ?s) =
        (if length (rc_calls (cs_client ?s)) < 0xFFFFFF then call_id (length (rc_calls (cs_client ?s))) else 1)"
      using n unat_id by (auto simp: e(2,5) word_less_nat_alt id call_id_def)
  next
    fix i x assume "rc_outgoing_calls (cs_client ?s) i = Some x"
    then show "i = call_id x"
      using id_invD(2) [OF inv] fresh id by (auto simp: e(6) split: if_splits)
  next
    fix x i assume "cs_senders ?s x = Some (Sending i)"
    then show "i = call_id x"
      using id_invD(3) [OF inv] id e(1) by (auto split: if_splits)
  next
    fix x assume "cb_live (cs_client ?s) x"
    then consider "x = ?n" | "cb_live (cs_client s) x" "x < ?n"
      using cb_live_ref [of "cs_client s" x] by (auto simp: e(3))
    then show "findable ?s x"
    proof cases
      case 2
      have "call_id x \<noteq> stream_id"
        using id_inj [of x ?n] 2(2) n id by auto
      with 2 show ?thesis
        using id_invD(4) [OF inv 2(1)] fresh by (auto simp: findable_def e(1,6))
    qed (use fresh id in \<open>simp add: findable_def e(6)\<close>)
  qed
qed

text \<open>The other steps leave the calls and their ids as they are.\<close>

lemma id_inv_step:
  "client_step IO s s' \<Longrightarrow> refs_inv s \<Longrightarrow> id_inv s \<Longrightarrow> length (rc_calls (cs_client s')) \<le> 0xFFFFFF \<Longrightarrow> id_inv s'"
proof (induction rule: client_step.induct)
  case (submit s cb c1 call c2 stream_id)
  then show ?case
    using submit_effect(2) [OF submit.hyps] by (intro id_inv_submit) simp_all
next
  case (send_ok s call stream_id)
  note d = id_invD [OF send_ok.prems(2)]
  show ?case
    using send_ok.hyps by (intro id_invI) (auto simp: d(1) findable_def dest!: d(4) intro: d(2,3) split: if_splits)
next
  case (send_fail s call stream_id)
  note d = id_invD [OF send_fail.prems(2)]
  have id: "stream_id = call_id call"
    by (rule d(3) [OF send_fail.hyps])
  have "x = call" if "call_id x = call_id call" "cb_live (cs_client s) x" for x
    using id_inj [OF that(1)] refs_invD(3) [OF send_fail.prems(1) send_fail.hyps] that(2) send_fail.prems(3)
    by (simp add: erase_effect cb_live_def)
  then show ?case
    by (intro id_invI)
      (auto simp: d(1) findable_def erase_effect id dest!: d(4) intro: d(2,3) split: if_splits)
next
  case (send_cancel s call)
  note d = id_invD [OF send_cancel.prems(2)]
  show ?case
    by (intro id_invI) (auto simp: d(1) findable_def clear_effect dest!: d(4) intro: d(2,3) split: if_splits)
next
  case (response s data c claimed)
  note d = id_invD [OF response.prems(2)]
  show ?case
    using response.hyps
  proof (cases rule: claim_effect)
    case (some i call dt st)
    then show ?thesis
      by (intro id_invI) (auto simp: d(1) findable_def erase_effect image_Un dest!: d(4) intro: d(2,3) split: if_splits)
  qed (use response.prems in simp)
next
  case (reset order s c calls)
  note d = id_invD [OF reset.prems(2)]
  note e = reset_effect [OF reset.hyps(2,1)]
  show ?case
    by (intro id_invI) (auto simp: d(1) findable_def e image_Un image_image dest!: d(4) intro: d(3) ranI)
next
  case (finish s xs call data status ys c events)
  note d = id_invD [OF finish.prems(2)]
  show ?case
    by (intro id_invI)
      (auto simp: d(1) findable_def complete_effect(1) [OF finish.hyps(2)] clear_effect finish.hyps(1) dest!: d(4)
        intro: d(2,3))
qed

lemma client_reachable_id_inv:
  assumes "client_reachable IO s" "length (rc_calls (cs_client s)) \<le> 0xFFFFFF"
  shows "id_inv s"
  using assms unfolding client_reachable_def
proof (induction rule: rtranclp_induct)
  case (step s s')
  then show ?case
    using calls_grow [OF step.hyps(2)] client_reachable_inv [of IO s] id_inv_step [OF step.hyps(2)]
    by (simp add: client_reachable_def client_inv_def)
qed (rule id_inv_start)

section \<open>The methods\<close>

lemma RpcClient_complete_eq:
  assumes "call < length (rc_calls c)"
  shows "RpcClient_complete c call data status =
    (cancelSend_clear c call, case oc_cb (rc_calls c ! call) of None \<Rightarrow> [] | Some f \<Rightarrow> [(f, data, status)])"
  by (simp add: RpcClient_complete_def cancelSend_clear_def)

text \<open>A response to a known stream completes exactly that call, whatever the order of the calls.\<close>

lemma handleResponse_known:
  assumes "RpcHeader_deserialize IO RpcHeader_new data = (n, h)" "0 < n" "hd_type h = kResponse" "hd_last_message h"
    and "responseStatus h = Some status" "rc_outgoing_calls c (hd_stream_id h) = Some call"
  shows "handleResponse IO c data =
    Some (RpcClient_complete (cancelSend_erase c (hd_stream_id h)) call (drop n data) status)"
  using assms by (simp add: handleResponse_def handleResponse_claim_def cancelSend_erase_def)

text \<open>No input makes the client abort.\<close>

lemma handleResponse_total: "\<exists>c' events. handleResponse IO c data = Some (c', events)"
proof -
  obtain n h where h: "RpcHeader_deserialize IO RpcHeader_new data = (n, h)"
    by (metis surj_pair)
  have "\<exists>st. responseStatus h = Some st" if "n \<noteq> 0" "hd_type h = kResponse" "hd_last_message h"
    using deserialize_status [OF h] that by (auto simp: responseStatus_def)
  then show ?thesis
    using h by (cases "rc_outgoing_calls c (hd_stream_id h)") (auto simp: handleResponse_def handleResponse_claim_def Let_def)
qed

lemma clear_nth: "x \<noteq> call \<Longrightarrow> rc_calls (cancelSend_clear c call) ! x = rc_calls c ! x"
  by (simp add: cancelSend_clear_def)

lemma complete_all_eq:
  assumes "distinct calls" "\<forall>call \<in> set calls. call < length (rc_calls c)"
  shows "snd (complete_all c calls) =
    concat (map (\<lambda>call. case oc_cb (rc_calls c ! call) of None \<Rightarrow> [] | Some f \<Rightarrow> [(f, [], kUnavailable)]) calls)"
  using assms
proof (induction calls arbitrary: c)
  case (Cons call calls)
  have "snd (complete_all (cancelSend_clear c call) calls) =
      concat (map (\<lambda>x. case oc_cb (rc_calls (cancelSend_clear c call) ! x) of None \<Rightarrow> [] | Some f \<Rightarrow> [(f, [], kUnavailable)]) calls)"
    using Cons.prems by (intro Cons.IH) (simp_all add: clear_effect)
  also have "\<dots> = concat (map (\<lambda>x. case oc_cb (rc_calls c ! x) of None \<Rightarrow> [] | Some f \<Rightarrow> [(f, [], kUnavailable)]) calls)"
    using Cons.prems(1)
    by (intro arg_cong [where f = concat] map_cong refl) (metis clear_nth distinct.simps(2))
  finally show ?case
    using Cons.prems(2) by (simp add: RpcClient_complete_eq split_beta Let_def)
qed simp

end
