(* ===== verification/Rpc_Server.thy ===== *)
theory Rpc_Server
  imports Rpc_Header Messaging_Mux
begin

text \<open>
  The RPC server (\<^verbatim>\<open>rpc/server.{h,cpp}\<close>, \<^verbatim>\<open>rpc/internal/server\<close>). Application handlers are
  identified by a number; running one, sending a message and notifying the deadline thread are
  effects. A handler answers whenever it likes through its handle, which is a call of
  \<open>sendSuccessResponse\<close> or \<open>sendFailureResponse\<close>. Readings of the clock are arguments. The
  sections that hold the mutex are definitions of their own; the methods compose them, and the
  step relation interleaves them with the deadline thread and the handlers.
\<close>

section \<open>State\<close>

type_synonym handler_ref = nat
type_synonym FunctionTable = "RpcFunctionId \<rightharpoonup> handler_ref"

record RpcRequest =
  rq_connection_id :: ConnectionId
  rq_function_id :: RpcFunctionId
  rq_stream_id :: RpcStreamId
  rq_deadline :: uptime
  rq_client_closed :: bool
  rq_server_closed :: bool

definition RpcRequest_new ::
  "ConnectionId \<Rightarrow> RpcFunctionId \<Rightarrow> RpcStreamId \<Rightarrow> uptime \<Rightarrow> bool \<Rightarrow> RpcRequest" where
  "RpcRequest_new connection_id function_id stream_id deadline fin =
     \<lparr>rq_connection_id = connection_id, rq_function_id = function_id, rq_stream_id = stream_id,
      rq_deadline = deadline, rq_client_closed = fin, rq_server_closed = False\<rparr>"

record RequestHandle =
  rh_connection_id :: ConnectionId
  rh_stream_id :: RpcStreamId

record RpcServer =
  rs_handlers :: FunctionTable
  rs_connection_id :: ConnectionId
  rs_deadline_thread :: bool
  rs_active :: bool
  rs_pending_calls :: "RpcStreamId \<rightharpoonup> RpcRequest"

datatype server_effect = Notify_deadlines | Start_deadline_thread
  | Send_continuation ConnectionId "byte list" "byte list"
  | Run_handler handler_ref RequestHandle "byte list" bool

definition RpcServer_new :: "FunctionTable \<Rightarrow> RpcServer" where
  "RpcServer_new function_table =
     \<lparr>rs_handlers = function_table, rs_connection_id = 0, rs_deadline_thread = False, rs_active = False,
      rs_pending_calls = (\<lambda>_. None)\<rparr>"

text \<open>The messaging transport, with the dispatcher of the server as its receiver.\<close>

definition RpcServer_begin :: "RpcServer \<Rightarrow> Messaging \<Rightarrow> receiver_ref \<Rightarrow> RpcServer \<times> Messaging" where
  "RpcServer_begin s messaging dispatcher = (s\<lparr>rs_active := True\<rparr>, setReceiver messaging dispatcher)"

text \<open>The deadline thread has ended when \<open>join\<close> returns.\<close>

definition RpcServer_end :: "RpcServer \<Rightarrow> Messaging \<Rightarrow> RpcServer \<times> Messaging \<times> server_effect list" where
  "RpcServer_end s messaging =
     (let messaging = unsetReceiver messaging;
          s = s\<lparr>rs_active := False, rs_pending_calls := (\<lambda>_. None)\<rparr>;
          s = (if rs_deadline_thread s then s\<lparr>rs_deadline_thread := False\<rparr> else s)
      in (s, messaging, [Notify_deadlines]))"

section \<open>Responses\<close>

definition server_sendResponse ::
  "io_lib \<Rightarrow> ConnectionId \<Rightarrow> RpcStreamId \<Rightarrow> RpcStatus \<Rightarrow> byte list \<Rightarrow> server_effect option" where
  "server_sendResponse IO connection_id stream_id status data = do {
     let header = NewUnaryResponse stream_id status;
     bytes \<leftarrow> RpcHeader_serialize IO header kMaxSerializedSize;
     Some (Send_continuation connection_id bytes data)
   }"

text \<open>The result, and the status as it is after the call.\<close>

definition prepForResponse ::
  "RpcServer \<Rightarrow> ConnectionId \<Rightarrow> RpcStreamId \<Rightarrow> RpcStatus \<Rightarrow> uptime \<Rightarrow> RpcServer \<times> bool \<times> RpcStatus" where
  "prepForResponse s connection_id stream_id status now =
     (if connection_id \<noteq> rs_connection_id s then (s, False, status)
      else case rs_pending_calls s stream_id of
             None \<Rightarrow> (s, False, status)
           | Some request \<Rightarrow>
               if rq_connection_id request \<noteq> connection_id then (s, False, status)
               else
                 (let status = (if rq_deadline request \<le> now then kDeadlineExceeded else status)
                  in (s\<lparr>rs_pending_calls := (rs_pending_calls s)(stream_id := None)\<rparr>, True, status)))"

definition ascii :: "string \<Rightarrow> byte list" where
  "ascii s = map of_char s"

definition server_sendSuccessResponse ::
  "io_lib \<Rightarrow> RpcServer \<Rightarrow> ConnectionId \<Rightarrow> RpcStreamId \<Rightarrow> byte list \<Rightarrow> uptime \<Rightarrow>
   (RpcServer \<times> server_effect list) option" where
  "server_sendSuccessResponse IO s connection_id stream_id data now =
     (let (s, ok, status) = prepForResponse s connection_id stream_id kOk now
      in if \<not> ok then Some (s, [])
         else
           (let data = (if status = kDeadlineExceeded then [] else data)
            in do {
              e \<leftarrow> server_sendResponse IO connection_id stream_id status data;
              Some (s, [Notify_deadlines, e])
            }))"

definition server_sendFailureResponse ::
  "io_lib \<Rightarrow> RpcServer \<Rightarrow> ConnectionId \<Rightarrow> RpcStreamId \<Rightarrow> RpcStatus \<Rightarrow> byte list \<Rightarrow> uptime \<Rightarrow>
   (RpcServer \<times> server_effect list) option" where
  "server_sendFailureResponse IO s connection_id stream_id status msg now =
     (let (s, ok, status) = prepForResponse s connection_id stream_id status now
      in if \<not> ok then Some (s, [])
         else
           (let msg = (if status = kDeadlineExceeded then ascii ''deadline exceeded'' else msg)
            in do {
              e \<leftarrow> server_sendResponse IO connection_id stream_id status msg;
              Some (s, [Notify_deadlines, e])
            }))"

text \<open>The handle of a request. The argument \<open>last\<close> of \<open>sendSuccessResponse\<close> is not used.\<close>

definition RequestHandle_sendSuccessResponse ::
  "io_lib \<Rightarrow> RpcServer \<Rightarrow> RequestHandle \<Rightarrow> byte list \<Rightarrow> bool \<Rightarrow> uptime \<Rightarrow> (RpcServer \<times> server_effect list) option" where
  "RequestHandle_sendSuccessResponse IO s handle payload last0 now =
     server_sendSuccessResponse IO s (rh_connection_id handle) (rh_stream_id handle) payload now"

definition RequestHandle_sendFailureResponse ::
  "io_lib \<Rightarrow> RpcServer \<Rightarrow> RequestHandle \<Rightarrow> RpcStatus \<Rightarrow> byte list \<Rightarrow> uptime \<Rightarrow>
   (RpcServer \<times> server_effect list) option" where
  "RequestHandle_sendFailureResponse IO s handle status msg now =
     server_sendFailureResponse IO s (rh_connection_id handle) (rh_stream_id handle) status msg now"

section \<open>Typed handlers\<close>

text \<open>What a handler answers.\<close>

datatype reply = Success "byte list" bool | Failure RpcStatus "byte list"

definition RequestHandle_reply ::
  "io_lib \<Rightarrow> RpcServer \<Rightarrow> RequestHandle \<Rightarrow> reply \<Rightarrow> uptime \<Rightarrow> (RpcServer \<times> server_effect list) option" where
  "RequestHandle_reply IO s handle r now =
     (case r of
        Success payload last0 \<Rightarrow> RequestHandle_sendSuccessResponse IO s handle payload last0 now
      | Failure status msg \<Rightarrow> RequestHandle_sendFailureResponse IO s handle status msg now)"

definition UnaryHandler_call ::
  "(byte list \<Rightarrow> RpcStatus + 'q) \<Rightarrow> ('q \<Rightarrow> RpcStatus \<times> 'r) \<Rightarrow> ('r \<Rightarrow> Serialized) \<Rightarrow> byte list \<Rightarrow> reply" where
  "UnaryHandler_call deserialize fn serialize payload =
     (case deserialize payload of
        Inl status \<Rightarrow> Failure status (ascii ''request deserialization failed'')
      | Inr req \<Rightarrow>
          (let (status, resp) = fn req
           in if status \<noteq> kOk then Failure status (ascii ''application error'')
              else let serialized = serialize resp in Success (sz_data serialized) True))"

text \<open>
  The asynchronous adapter: it answers at once, or passes the request on; \<open>AsyncUnaryHandler_done\<close>
  is the function the application calls with its result.
\<close>

definition AsyncUnaryHandler_call :: "(byte list \<Rightarrow> RpcStatus + 'q) \<Rightarrow> byte list \<Rightarrow> reply + 'q" where
  "AsyncUnaryHandler_call deserialize payload =
     (case deserialize payload of
        Inl status \<Rightarrow> Inl (Failure status (ascii ''request deserialization failed''))
      | Inr req \<Rightarrow> Inr req)"

definition AsyncUnaryHandler_done :: "('r \<Rightarrow> Serialized) \<Rightarrow> RpcStatus \<Rightarrow> 'r \<Rightarrow> reply" where
  "AsyncUnaryHandler_done serialize resp_status resp_val =
     (if resp_status \<noteq> kOk then Failure resp_status (ascii ''application error'')
      else let serialized = serialize resp_val in Success (sz_data serialized) True)"

section \<open>Requests\<close>

definition RpcServer_reconnected :: "RpcServer \<Rightarrow> ConnectionId \<Rightarrow> RpcServer \<times> server_effect list" where
  "RpcServer_reconnected s connection_id =
     (if connection_id = rs_connection_id s then (s, [])
      else (s\<lparr>rs_connection_id := connection_id, rs_pending_calls := (\<lambda>_. None)\<rparr>, [Notify_deadlines]))"

definition server_connectionReset :: "RpcServer \<Rightarrow> ConnectionId \<Rightarrow> RpcServer \<times> server_effect list" where
  "server_connectionReset s connection_id =
     (if connection_id \<noteq> rs_connection_id s then (s, [])
      else (s\<lparr>rs_pending_calls := (\<lambda>_. None), rs_connection_id := 0\<rparr>, [Notify_deadlines]))"

text \<open>
  \<open>handleRequest\<close> after \<open>reconnected\<close>, to the end of its critical section: the request it has
  admitted with its payload, and the effects. \<open>None\<close> is an abort.
\<close>

definition handleRequest_admit ::
  "lib \<Rightarrow> io_lib \<Rightarrow> RpcServer \<Rightarrow> ConnectionId \<Rightarrow> byte list \<Rightarrow> uptime \<Rightarrow>
   (RpcServer \<times> server_effect list \<times> (RpcRequest \<times> byte list) option) option" where
  "handleRequest_admit L IO s connection_id data now =
     (let (header_len, header) = RpcHeader_deserialize IO RpcHeader_new data
      in if header_len = 0 then Some (s, [], None)
         else if hd_type header \<noteq> kRequest then Some (s, [], None)
         else if \<not> hd_first_message header then None
         else do {
           function_id \<leftarrow> functionId header;
           deadline \<leftarrow> (if hd_has_timeout header
                       then do { ms \<leftarrow> timeoutMs header; Some (now + 1000 * uint ms) }
                       else Some (Uptime_Max L));
           if rs_pending_calls s (hd_stream_id header) \<noteq> None then Some (s, [], None)
           else if \<not> rs_active s then Some (s, [], None)
           else
             (let request = RpcRequest_new connection_id function_id (hd_stream_id header) deadline (hd_last_message header);
                  s = s\<lparr>rs_pending_calls := (rs_pending_calls s)(hd_stream_id header \<mapsto> request)\<rparr>;
                  start = hd_has_timeout header \<and> \<not> rs_deadline_thread s;
                  s = (if start then s\<lparr>rs_deadline_thread := True\<rparr> else s)
              in Some (s, (if start then [Start_deadline_thread] else []) @ [Notify_deadlines],
                       Some (request, drop header_len data)))
         })"

text \<open>The rest of \<open>handleRequest\<close>; \<open>now\<close> and \<open>now'\<close> are the readings of the clock.\<close>

definition handleRequest_dispatch ::
  "io_lib \<Rightarrow> RpcServer \<Rightarrow> RpcRequest \<Rightarrow> byte list \<Rightarrow> uptime \<Rightarrow> uptime \<Rightarrow> (RpcServer \<times> server_effect list) option" where
  "handleRequest_dispatch IO s request data now now' =
     (if rq_deadline request \<le> now
      then server_sendFailureResponse IO s (rq_connection_id request) (rq_stream_id request) kDeadlineExceeded
             (ascii ''deadline exceeded'') now'
      else case rs_handlers s (rq_function_id request) of
             None \<Rightarrow> server_sendFailureResponse IO s (rq_connection_id request) (rq_stream_id request) kUnimplemented
               (ascii ''Unknown function ID'') now'
           | Some handler \<Rightarrow>
               Some (s, [Run_handler handler
                 \<lparr>rh_connection_id = rq_connection_id request, rh_stream_id = rq_stream_id request\<rparr> data
                 (rq_client_closed request)]))"

definition handleRequest ::
  "lib \<Rightarrow> io_lib \<Rightarrow> RpcServer \<Rightarrow> ConnectionId \<Rightarrow> byte list \<Rightarrow> uptime \<Rightarrow> uptime \<Rightarrow> uptime \<Rightarrow>
   (RpcServer \<times> server_effect list) option" where
  "handleRequest L IO s connection_id data now1 now2 now3 = do {
     let (s, effects1) = RpcServer_reconnected s connection_id;
     (s, effects2, admitted) \<leftarrow> handleRequest_admit L IO s connection_id data now1;
     case admitted of
       None \<Rightarrow> Some (s, effects1 @ effects2)
     | Some (request, payload) \<Rightarrow> do {
         (s, effects3) \<leftarrow> handleRequest_dispatch IO s request payload now2 now3;
         Some (s, effects1 @ effects2 @ effects3)
       }
   }"

section \<open>The deadline thread\<close>

text \<open>The search for the earliest deadline, in the order of the loop over the map.\<close>

fun next_deadline ::
  "(RpcStreamId \<rightharpoonup> RpcRequest) \<Rightarrow> RpcStreamId list \<Rightarrow> uptime \<Rightarrow> RpcStreamId option \<Rightarrow> uptime \<times> RpcStreamId option" where
  "next_deadline pending [] deadline next0 = (deadline, next0)"
| "next_deadline pending (i # order) deadline next0 =
     (case pending i of
        None \<Rightarrow> next_deadline pending order deadline next0
      | Some r \<Rightarrow>
          if rq_deadline r < deadline then next_deadline pending order (rq_deadline r) (Some i)
          else next_deadline pending order deadline next0)"

text \<open>
  One iteration of the loop up to its wait or to where it releases the mutex; an expired request
  has been removed and is answered next.
\<close>

datatype deadline_action = Exit | Wait | Wait_until uptime | Expired RpcRequest

definition deadlineLoop_pass ::
  "lib \<Rightarrow> RpcServer \<Rightarrow> RpcStreamId list \<Rightarrow> uptime \<Rightarrow> RpcServer \<times> deadline_action" where
  "deadlineLoop_pass L s order now =
     (if \<not> rs_active s then (s, Exit)
      else
        (case next_deadline (rs_pending_calls s) order (Uptime_Max L) None of
           (deadline, None) \<Rightarrow> (s, Wait)
         | (deadline, Some i) \<Rightarrow>
             if deadline > now then (s, Wait_until deadline)
             else (s\<lparr>rs_pending_calls := (rs_pending_calls s)(i := None)\<rparr>,
                   Expired (the (rs_pending_calls s i)))))"

definition deadlineLoop_expire :: "io_lib \<Rightarrow> RpcRequest \<Rightarrow> server_effect option" where
  "deadlineLoop_expire IO request =
     server_sendResponse IO (rq_connection_id request) (rq_stream_id request) kDeadlineExceeded []"

end
