(* ===== verification/Rpc_Server_Proof.thy ===== *)
theory Rpc_Server_Proof
  imports Rpc_Server
begin

text \<open>
  Correctness of the RPC server under every interleaving of requests, answers of the handlers,
  resets and the deadline thread: each admitted request is answered at most once, none is
  forgotten while its connection lasts, and an answer after the deadline says so. The only
  message that can abort the server is a continuation of a streaming request.
\<close>

section \<open>Responses\<close>

lemma prepForResponse_cases:
  obtains (no) "prepForResponse s c i status now = (s, False, status)"
  | (yes) r where "c = rs_connection_id s" "rs_pending_calls s i = Some r" "rq_connection_id r = c"
      "prepForResponse s c i status now =
         (s\<lparr>rs_pending_calls := (rs_pending_calls s)(i := None)\<rparr>, True,
          if rq_deadline r \<le> now then kDeadlineExceeded else status)"
proof (cases "c = rs_connection_id s")
  case True
  show ?thesis
  proof (cases "rs_pending_calls s i")
    case (Some r)
    then show ?thesis
      using True no yes by (cases "rq_connection_id r = c") (auto simp: prepForResponse_def Let_def)
  qed (use True no in \<open>simp add: prepForResponse_def\<close>)
qed (use no in \<open>simp add: prepForResponse_def\<close>)

lemma sendResponse_total:
  assumes "rpc_io IO u24b varb"
  shows "server_sendResponse IO c i status data =
    Some (Send_continuation c (header_bytes u24b varb (NewUnaryResponse i status)) data)"
  using rpc_io.serialize_header_bytes [OF assms new_header_shape(3)]
  by (simp add: server_sendResponse_def kMaxSerializedSize_def)

section \<open>Interleaving\<close>

text \<open>
  A response event has the status sent, the time at which the server committed to it, and the
  deadline of the request. \<open>Ev_clear\<close> stands for the pending requests being dropped.
\<close>

datatype server_event = Ev_accept ConnectionId RpcStreamId | Ev_clear
  | Ev_response ConnectionId RpcStreamId RpcStatus uptime uptime

record server_sys =
  ss_server :: RpcServer
  ss_dispatching :: "(RpcRequest \<times> byte list) list"
  ss_log :: "server_event list"

definition server_start :: "FunctionTable \<Rightarrow> server_sys" where
  "server_start handlers = \<lparr>ss_server = RpcServer_new handlers, ss_dispatching = [], ss_log = []\<rparr>"

text \<open>The event of a response to the stream, if there was one: it has left the map.\<close>

definition response_events :: "RpcServer \<Rightarrow> ConnectionId \<Rightarrow> RpcStreamId \<Rightarrow> RpcStatus \<Rightarrow> uptime \<Rightarrow> server_event list" where
  "response_events s c i status now =
     (case prepForResponse s c i status now of
        (s', ok, status') \<Rightarrow>
          if ok then [Ev_response c i status' now (rq_deadline (the (rs_pending_calls s i)))] else [])"

definition reply_status :: "reply \<Rightarrow> RpcStatus" where
  "reply_status r = (case r of Success _ _ \<Rightarrow> kOk | Failure st _ \<Rightarrow> st)"

definition dispatch_status :: "RpcServer \<Rightarrow> RpcRequest \<Rightarrow> uptime \<Rightarrow> RpcStatus option" where
  "dispatch_status s r now =
     (if rq_deadline r \<le> now then Some kDeadlineExceeded
      else if rs_handlers s (rq_function_id r) = None then Some kUnimplemented else None)"

inductive server_step :: "lib \<Rightarrow> io_lib \<Rightarrow> server_sys \<Rightarrow> server_sys \<Rightarrow> bool" for L IO where
  begin_: "RpcServer_begin (ss_server s) m d = (s', m') \<Longrightarrow> server_step L IO s (s\<lparr>ss_server := s'\<rparr>)"
| end_: "RpcServer_end (ss_server s) m = (s', m', e) \<Longrightarrow>
    server_step L IO s (s\<lparr>ss_server := s', ss_log := ss_log s @ [Ev_clear]\<rparr>)"
| reconnect: "RpcServer_reconnected (ss_server s) c = (s', e) \<Longrightarrow> c \<noteq> rs_connection_id (ss_server s) \<Longrightarrow>
    server_step L IO s (s\<lparr>ss_server := s', ss_log := ss_log s @ [Ev_clear]\<rparr>)"
| request: "handleRequest_admit L IO (ss_server s) c data now = Some (s', e, admitted) \<Longrightarrow>
    c = rs_connection_id (ss_server s) \<Longrightarrow>
    server_step L IO s (s\<lparr>ss_server := s',
      ss_dispatching := ss_dispatching s @ (case admitted of None \<Rightarrow> [] | Some x \<Rightarrow> [x]),
      ss_log := ss_log s @ (case admitted of None \<Rightarrow> [] | Some (r, _) \<Rightarrow> [Ev_accept c (rq_stream_id r)])\<rparr>)"
| dispatch: "ss_dispatching s = xs @ (r, payload) # ys \<Longrightarrow>
    handleRequest_dispatch IO (ss_server s) r payload now now' = Some (s', e) \<Longrightarrow>
    server_step L IO s (s\<lparr>ss_server := s', ss_dispatching := xs @ ys,
      ss_log := ss_log s @ (case dispatch_status (ss_server s) r now of None \<Rightarrow> []
        | Some st \<Rightarrow> response_events (ss_server s) (rq_connection_id r) (rq_stream_id r) st now')\<rparr>)"
| reply: "RequestHandle_reply IO (ss_server s) h r now = Some (s', e) \<Longrightarrow>
    server_step L IO s (s\<lparr>ss_server := s',
      ss_log := ss_log s @ response_events (ss_server s) (rh_connection_id h) (rh_stream_id h) (reply_status r) now\<rparr>)"
| reset: "server_connectionReset (ss_server s) c = (s', e) \<Longrightarrow>
    server_step L IO s (s\<lparr>ss_server := s', ss_log := ss_log s @ (if c = rs_connection_id (ss_server s) then [Ev_clear] else [])\<rparr>)"
| deadline: "deadlineLoop_pass L (ss_server s) order now = (s', a) \<Longrightarrow>
    set order = dom (rs_pending_calls (ss_server s)) \<Longrightarrow>
    server_step L IO s (s\<lparr>ss_server := s',
      ss_log := ss_log s @ (case a of
        Expired r \<Rightarrow> [Ev_response (rq_connection_id r) (rq_stream_id r) kDeadlineExceeded now (rq_deadline r)]
      | _ \<Rightarrow> [])\<rparr>)"

definition server_reachable :: "lib \<Rightarrow> io_lib \<Rightarrow> FunctionTable \<Rightarrow> server_sys \<Rightarrow> bool" where
  "server_reachable L IO handlers s \<longleftrightarrow> (server_step L IO)\<^sup>*\<^sup>* (server_start handlers) s"

section \<open>Counting\<close>

definition accepts :: "ConnectionId \<Rightarrow> RpcStreamId \<Rightarrow> server_event list \<Rightarrow> nat" where
  "accepts c i log = length (filter (\<lambda>e. e = Ev_accept c i) log)"

definition responses :: "ConnectionId \<Rightarrow> RpcStreamId \<Rightarrow> server_event list \<Rightarrow> nat" where
  "responses c i log = length (filter (\<lambda>e. \<exists>st t d. e = Ev_response c i st t d) log)"

definition pending :: "ConnectionId \<Rightarrow> RpcStreamId \<Rightarrow> RpcServer \<Rightarrow> nat" where
  "pending c i s = (if \<exists>r. rs_pending_calls s i = Some r \<and> rq_connection_id r = c then 1 else 0)"

lemma accepts_simps [simp]:
  "accepts c i [] = 0" "accepts c i (log @ log') = accepts c i log + accepts c i log'"
  "accepts c i (Ev_accept c' i' # log) = (if c' = c \<and> i' = i then 1 else 0) + accepts c i log"
  "accepts c i (Ev_clear # log) = accepts c i log"
  "accepts c i (Ev_response c' i' st t d # log) = accepts c i log"
  by (simp_all add: accepts_def)

lemma responses_simps [simp]:
  "responses c i [] = 0" "responses c i (log @ log') = responses c i log + responses c i log'"
  "responses c i (Ev_accept c' i' # log) = responses c i log"
  "responses c i (Ev_clear # log) = responses c i log"
  "responses c i (Ev_response c' i' st t d # log) = (if c' = c \<and> i' = i then 1 else 0) + responses c i log"
  by (simp_all add: responses_def)

text \<open>The pending map has every request under its own stream id, for the current connection.\<close>

definition pending_ok :: "RpcServer \<Rightarrow> bool" where
  "pending_ok s \<longleftrightarrow>
     (\<forall>i r. rs_pending_calls s i = Some r \<longrightarrow> rq_stream_id r = i \<and> rq_connection_id r = rs_connection_id s)"

text \<open>The events since the pending requests were last dropped, which is those of the current connection.\<close>

definition since_clear :: "server_event list \<Rightarrow> server_event list" where
  "since_clear log = rev (takeWhile (\<lambda>e. e \<noteq> Ev_clear) (rev log))"

lemma since_clear_simps [simp]:
  "since_clear [] = []" "since_clear (log @ [e]) = (if e = Ev_clear then [] else since_clear log @ [e])"
  by (simp_all add: since_clear_def)

definition count_inv :: "server_sys \<Rightarrow> ConnectionId \<Rightarrow> RpcStreamId \<Rightarrow> bool" where
  "count_inv s c i \<longleftrightarrow>
     responses c i (ss_log s) + pending c i (ss_server s) \<le> accepts c i (ss_log s) \<and>
     responses c i (since_clear (ss_log s)) + pending c i (ss_server s) = accepts c i (since_clear (ss_log s))"

definition late_ok :: "server_event \<Rightarrow> bool" where
  "late_ok e \<longleftrightarrow> (\<forall>c i st t d. e = Ev_response c i st t d \<and> d \<le> t \<longrightarrow> st = kDeadlineExceeded)"

definition server_inv :: "server_sys \<Rightarrow> bool" where
  "server_inv s \<longleftrightarrow> pending_ok (ss_server s) \<and> (\<forall>c i. count_inv s c i) \<and> (\<forall>e \<in> set (ss_log s). late_ok e)"

text \<open>What a step does to the pending map and the log: a request enters, an answered one leaves.\<close>

inductive server_change :: "RpcServer \<Rightarrow> RpcServer \<Rightarrow> server_event list \<Rightarrow> bool" where
  same: "rs_pending_calls s' = rs_pending_calls s \<Longrightarrow> rs_connection_id s' = rs_connection_id s \<Longrightarrow> server_change s s' []"
| clear: "rs_pending_calls s' = (\<lambda>_. None) \<Longrightarrow> server_change s s' [Ev_clear]"
| enter: "rs_pending_calls s i = None \<Longrightarrow> rs_pending_calls s' = (rs_pending_calls s)(i \<mapsto> r) \<Longrightarrow>
    rs_connection_id s' = rs_connection_id s \<Longrightarrow> rq_stream_id r = i \<Longrightarrow> rq_connection_id r = rs_connection_id s \<Longrightarrow>
    server_change s s' [Ev_accept (rs_connection_id s) i]"
| leave: "rs_pending_calls s i = Some r \<Longrightarrow> rs_pending_calls s' = (rs_pending_calls s)(i := None) \<Longrightarrow>
    rs_connection_id s' = rs_connection_id s \<Longrightarrow> c = rq_connection_id r \<Longrightarrow>
    (rq_deadline r \<le> t \<Longrightarrow> st = kDeadlineExceeded) \<Longrightarrow>
    server_change s s' [Ev_response c i st t (rq_deadline r)]"

lemma server_change_inv:
  assumes "server_change (ss_server s) s' es" and inv: "server_inv s"
  shows "server_inv (s\<lparr>ss_server := s', ss_log := ss_log s @ es\<rparr>)"
proof -
  have ok: "pending_ok (ss_server s)" and count: "\<And>c i. count_inv s c i" and late: "\<forall>e \<in> set (ss_log s). late_ok e"
    using inv by (simp_all add: server_inv_def)
  let ?s = "s\<lparr>ss_server := s', ss_log := ss_log s @ es\<rparr>"
  have le: "responses x j (ss_log s) \<le> accepts x j (ss_log s)" for x j
    using count [of x j] by (simp add: count_inv_def)
  have "pending_ok s' \<and> (\<forall>x j. count_inv ?s x j) \<and> (\<forall>e \<in> set es. late_ok e)"
    using assms(1)
  proof cases
    case same
    have "pending x j s' = pending x j (ss_server s)" for x j
      by (simp add: pending_def same)
    then show ?thesis
      using ok count by (simp add: pending_ok_def count_inv_def same)
  next
    case clear
    have "pending x j s' = 0" for x j
      by (simp add: pending_def clear)
    then show ?thesis
      using le by (simp add: pending_ok_def count_inv_def clear late_ok_def)
  next
    case (enter i r)
    have "pending x j s' = pending x j (ss_server s) + (if x = rs_connection_id (ss_server s) \<and> j = i then 1 else 0)" for x j
      using enter by (auto simp: pending_def)
    then have "count_inv ?s x j" for x j
      using count [of x j] enter(1) by (auto simp: count_inv_def)
    then show ?thesis
      using ok enter by (simp add: pending_ok_def late_ok_def)
  next
    case (leave i r c t st)
    have "pending x j (ss_server s) = pending x j s' + (if x = c \<and> j = i then 1 else 0)" for x j
      using leave by (auto simp: pending_def)
    then have "count_inv ?s x j" for x j
      using count [of x j] leave(1) by (auto simp: count_inv_def)
    then show ?thesis
      using ok leave by (simp add: pending_ok_def late_ok_def)
  qed
  then show ?thesis
    using late by (auto simp: server_inv_def)
qed

section \<open>Every step\<close>

lemma response_change:
  "server_change s (fst (prepForResponse s c i st now)) (response_events s c i st now)"
proof (cases rule: prepForResponse_cases [of s c i st now])
  case (yes r)
  then show ?thesis
    by (auto simp: response_events_def intro!: server_change.leave)
qed (simp add: response_events_def server_change.same)

lemma sendFailure_server:
  "server_sendFailureResponse IO s c i st msg now = Some (s', e) \<Longrightarrow> s' = fst (prepForResponse s c i st now)"
  by (auto simp: server_sendFailureResponse_def Let_def split: prod.splits if_splits bind_splits)

lemma sendSuccess_server:
  "server_sendSuccessResponse IO s c i data now = Some (s', e) \<Longrightarrow> s' = fst (prepForResponse s c i kOk now)"
  by (auto simp: server_sendSuccessResponse_def Let_def split: prod.splits if_splits bind_splits)

lemma reply_server:
  "RequestHandle_reply IO s h r now = Some (s', e) \<Longrightarrow>
   s' = fst (prepForResponse s (rh_connection_id h) (rh_stream_id h) (reply_status r) now)"
  by (cases r) (auto simp: RequestHandle_reply_def RequestHandle_sendSuccessResponse_def reply_status_def
    RequestHandle_sendFailureResponse_def dest: sendSuccess_server sendFailure_server)

lemma dispatch_server:
  "handleRequest_dispatch IO s r payload now now' = Some (s', e) \<Longrightarrow>
   s' = (case dispatch_status s r now of None \<Rightarrow> s
         | Some st \<Rightarrow> fst (prepForResponse s (rq_connection_id r) (rq_stream_id r) st now'))"
  by (auto simp: handleRequest_dispatch_def dispatch_status_def dest: sendFailure_server split: if_splits option.splits)

lemma admit_change:
  assumes "handleRequest_admit L IO s c data now = Some (s', e, admitted)" "c = rs_connection_id s"
  shows "server_change s s' (case admitted of None \<Rightarrow> [] | Some (r, _) \<Rightarrow> [Ev_accept c (rq_stream_id r)])"
proof -
  obtain n h where h: "RpcHeader_deserialize IO RpcHeader_new data = (n, h)"
    by (metis surj_pair)
  show ?thesis
  proof (cases admitted)
    case None
    then have "s' = s"
      using assms(1) h by (auto simp: handleRequest_admit_def Let_def bind_eq_Some_conv split: if_splits)
    then show ?thesis
      by (simp add: None server_change.same)
  next
    case (Some x)
    then obtain f d where "rs_pending_calls s (hd_stream_id h) = None"
      "fst x = RpcRequest_new c f (hd_stream_id h) d (hd_last_message h)"
      "rs_pending_calls s' = (rs_pending_calls s)(hd_stream_id h \<mapsto> fst x)" "rs_connection_id s' = rs_connection_id s"
      using assms(1) h by (auto simp: handleRequest_admit_def Let_def bind_eq_Some_conv split: if_splits)
    then show ?thesis
      using assms(2) Some by (cases x) (auto simp: RpcRequest_new_def intro!: server_change.enter)
  qed
qed

lemma next_deadline_found:
  assumes "next_deadline p order d0 n0 = (d, Some i)"
  shows "(d = d0 \<and> n0 = Some i) \<or> (\<exists>r. p i = Some r \<and> rq_deadline r = d)"
  using assms by (induction p order d0 n0 rule: next_deadline.induct) (auto split: option.splits if_splits)

lemma deadline_change:
  assumes "deadlineLoop_pass L s order now = (s', a)" "pending_ok s"
  shows "server_change s s' (case a of
      Expired r \<Rightarrow> [Ev_response (rq_connection_id r) (rq_stream_id r) kDeadlineExceeded now (rq_deadline r)]
    | _ \<Rightarrow> [])"
proof (cases "rs_active s")
  case True
  obtain d n where dn: "next_deadline (rs_pending_calls s) order (Uptime_Max L) None = (d, n)"
    by (metis surj_pair)
  show ?thesis
  proof (cases "\<exists>i. n = Some i \<and> \<not> d > now")
    case True
    then obtain i where i: "n = Some i" "\<not> d > now"
      by blast
    obtain r where r: "rs_pending_calls s i = Some r"
      using next_deadline_found [of "rs_pending_calls s" order "Uptime_Max L" None d i] dn i by auto
    then have "rq_stream_id r = i"
      using assms(2) by (simp add: pending_ok_def)
    then show ?thesis
      using assms(1) \<open>rs_active s\<close> dn i r by (auto simp: deadlineLoop_pass_def intro!: server_change.leave)
  next
    case False
    then have "s' = s \<and> (\<forall>r. a \<noteq> Expired r)"
      using assms(1) \<open>rs_active s\<close> dn by (auto simp: deadlineLoop_pass_def split: option.splits if_splits)
    then show ?thesis
      by (cases a) (auto intro: server_change.same)
  qed
qed (use assms in \<open>auto simp: deadlineLoop_pass_def intro: server_change.same\<close>)

lemma server_change_inv_dispatching:
  assumes "server_change (ss_server s) s' es" "server_inv s"
  shows "server_inv (s\<lparr>ss_server := s', ss_dispatching := q, ss_log := ss_log s @ es\<rparr>)"
  using server_change_inv [OF assms] by (simp add: server_inv_def count_inv_def)

lemma server_inv_step: "server_step L IO s s' \<Longrightarrow> server_inv s \<Longrightarrow> server_inv s'"
proof (induction rule: server_step.induct)
  case (begin_ s m d s' m')
  then have "server_change (ss_server s) s' []"
    by (auto simp: RpcServer_begin_def intro: server_change.same)
  then show ?case
    using server_change_inv [of s s' "[]"] begin_.prems by simp
next
  case (end_ s m s' m' e)
  then show ?case
    by (intro server_change_inv) (auto simp: RpcServer_end_def Let_def intro!: server_change.clear)
next
  case (reconnect s c s' e)
  then show ?case
    by (intro server_change_inv) (auto simp: RpcServer_reconnected_def intro!: server_change.clear)
next
  case (request s c data now s' e admitted)
  show ?case
    by (rule server_change_inv_dispatching [OF admit_change [OF request.hyps] request.prems])
next
  case (dispatch s xs r payload ys now now' s' e)
  have "server_change (ss_server s) s' (case dispatch_status (ss_server s) r now of None \<Rightarrow> []
      | Some st \<Rightarrow> response_events (ss_server s) (rq_connection_id r) (rq_stream_id r) st now')"
    using dispatch_server [OF dispatch.hyps(2)] by (auto intro: response_change server_change.same split: option.split)
  then show ?case
    by (rule server_change_inv_dispatching [OF _ dispatch.prems])
next
  case (reply s h r now s' e)
  then show ?case
    using reply_server [OF reply.hyps] by (intro server_change_inv) (auto intro: response_change)
next
  case (reset s c s' e)
  then show ?case
    by (intro server_change_inv) (auto simp: server_connectionReset_def intro!: server_change.clear server_change.same)
next
  case (deadline s order now s' a)
  have "pending_ok (ss_server s)"
    using deadline.prems by (simp add: server_inv_def)
  then show ?case
    by (intro server_change_inv deadline_change [OF deadline.hyps(1)] deadline.prems)
qed

lemma server_reachable_inv: "server_reachable L IO handlers s \<Longrightarrow> server_inv s"
  unfolding server_reachable_def
proof (induction rule: rtranclp_induct)
  case base
  show ?case
    by (simp add: server_inv_def server_start_def RpcServer_new_def pending_ok_def count_inv_def pending_def)
qed (rule server_inv_step)

section \<open>Aborts\<close>

text \<open>A request aborts the server only if its header has the request bit without the first-message bit.\<close>

lemma handleRequest_aborts:
  assumes IO: "rpc_io IO u24b varb"
  shows "handleRequest L IO s c data now1 now2 now3 = None \<longleftrightarrow>
    (case RpcHeader_deserialize IO RpcHeader_new data of
       (n, h) \<Rightarrow> 0 < n \<and> hd_type h = kRequest \<and> \<not> hd_first_message h)"
proof -
  obtain n h where h: "RpcHeader_deserialize IO RpcHeader_new data = (n, h)"
    by (metis surj_pair)
  obtain s1 e1 where s1: "RpcServer_reconnected s c = (s1, e1)"
    by (metis surj_pair)
  have fail: "server_sendFailureResponse IO s c i st msg now \<noteq> None" for s c i st msg now
    by (auto simp: server_sendFailureResponse_def sendResponse_total [OF IO] Let_def split: prod.split)
  have dispatch: "handleRequest_dispatch IO s r payload now now' \<noteq> None" for s r payload now now'
    using fail by (auto simp: handleRequest_dispatch_def split: option.split)
  have "handleRequest_admit L IO s1 c data now1 = None \<longleftrightarrow> 0 < n \<and> hd_type h = kRequest \<and> \<not> hd_first_message h"
  proof (cases "0 < n \<and> hd_type h = kRequest \<and> hd_first_message h")
    case True
    then obtain f t where "hd_union h = new_request f t"
      using deserialize_functionId [OF h] by blast
    then show ?thesis
      using True by (simp add: handleRequest_admit_def h functionId_def timeoutMs_def Let_def)
  qed (auto simp: handleRequest_admit_def h)
  moreover have "handleRequest L IO s c data now1 now2 now3 = None \<longleftrightarrow> handleRequest_admit L IO s1 c data now1 = None"
  proof (cases "handleRequest_admit L IO s1 c data now1")
    case (Some x)
    obtain s2 e2 a where x: "x = (s2, e2, a)"
      by (cases x)
    show ?thesis
    proof (cases a)
      case (Some y)
      then show ?thesis
        using dispatch [of s2 "fst y" "snd y" now2 now3] \<open>handleRequest_admit L IO s1 c data now1 = Some x\<close>
        by (cases y) (auto simp: handleRequest_def s1 x)
    qed (use Some x in \<open>simp add: handleRequest_def s1\<close>)
  qed (simp add: handleRequest_def s1)
  ultimately show ?thesis
    by (simp add: h)
qed

end
