(* ===== verification/Rpc_Session.thy ===== *)
theory Rpc_Session
  imports Rpc_Client Rpc_Server_Proof
begin

text \<open>
  A client and a server that exchange messages: the request header the client writes is the one
  the server reads, the handler gets the payload, and the client's callback gets what the handler
  answered. With the typed stub and handler on top, a remote call is the call of the function.
\<close>

section \<open>Loopback\<close>

text \<open>
  A messaging transport that delivers the request to the server, runs the handler (\<open>app\<close>), and
  delivers the answer to the client before \<open>send\<close> returns.
\<close>

definition deliver_response :: "io_lib \<Rightarrow> RpcClient \<Rightarrow> server_effect list \<Rightarrow> RpcClient \<times> cb_event list \<times> bool" where
  "deliver_response IO c effects =
     (case effects of
        [Notify_deadlines, Send_continuation cid header data] \<Rightarrow>
          (case handleResponse IO c (header @ data) of
             Some (c', events) \<Rightarrow> (c', events, True)
           | None \<Rightarrow> (c, [], False))
      | _ \<Rightarrow> (c, [], False))"

definition loopback ::
  "lib \<Rightarrow> io_lib \<Rightarrow> RpcServer \<Rightarrow> ConnectionId \<Rightarrow> (handler_ref \<Rightarrow> byte list \<Rightarrow> reply) \<Rightarrow> uptime \<Rightarrow> send_fn" where
  "loopback L IO s cid app now c header payload =
     (case handleRequest L IO s cid (header @ payload) now now now of
        Some (s1, [Notify_deadlines, Run_handler hr h data fin]) \<Rightarrow>
          (case RequestHandle_reply IO s1 h (app hr data) now of
             Some (s2, effects) \<Rightarrow> deliver_response IO c effects
           | None \<Rightarrow> (c, [], False))
      | Some (s1, Notify_deadlines # effects) \<Rightarrow> deliver_response IO c effects
      | _ \<Rightarrow> (c, [], False))"

text \<open>What the server and the client are assumed to be in when a call is made.\<close>

definition call_ready :: "lib \<Rightarrow> RpcClient \<Rightarrow> RpcServer \<Rightarrow> ConnectionId \<Rightarrow> uptime \<Rightarrow> bool" where
  "call_ready L c s cid now \<longleftrightarrow>
     rc_next_stream_id c < 0x1000000 \<and> rc_outgoing_calls c (rc_next_stream_id c) = None \<and>
     rs_connection_id s = cid \<and> rs_active s \<and> rs_pending_calls s (rc_next_stream_id c) = None \<and> now < Uptime_Max L"

definition reply_status_data :: "reply \<Rightarrow> RpcStatus \<times> byte list" where
  "reply_status_data r = (case r of Success data _ \<Rightarrow> (kOk, data) | Failure st msg \<Rightarrow> (st, msg))"

lemma header_bytes_nonempty [simp]: "header_bytes u24b varb h \<noteq> []"
  by (simp add: header_bytes_def)

lemma header_fields:
  "hd_type (NewUnaryRequest f i) = kRequest" "hd_first_message (NewUnaryRequest f i)" "hd_last_message (NewUnaryRequest f i)"
  "\<not> hd_has_timeout (NewUnaryRequest f i)" "hd_stream_id (NewUnaryRequest f i) = i"
  "hd_union (NewUnaryRequest f i) = new_request f 0"
  "hd_type (NewUnaryResponse i st) = kResponse" "hd_last_message (NewUnaryResponse i st)"
  "hd_stream_id (NewUnaryResponse i st) = i" "hd_union (NewUnaryResponse i st) = last_response st"
  by (simp_all add: NewUnaryRequest_def NewUnaryResponse_def)

context rpc_io
begin

lemma admit_request:
  assumes "i < 0x1000000" "rs_active s" "rs_pending_calls s i = None"
  shows "handleRequest_admit L IO s cid (header_bytes u24b varb (NewUnaryRequest f i) @ payload) now =
    Some (s\<lparr>rs_pending_calls := (rs_pending_calls s)(i \<mapsto> RpcRequest_new cid f i (Uptime_Max L) True)\<rparr>,
      [Notify_deadlines], Some (RpcRequest_new cid f i (Uptime_Max L) True, payload))"
  using assms length_header_bytes(1) [of "NewUnaryRequest f i"]
  by (simp add: handleRequest_admit_def deserialize_header_bytes new_header_wf(1) functionId_def header_fields Let_def)

lemma handleRequest_runs_handler:
  assumes "i < 0x1000000" "rs_active s" "rs_pending_calls s i = None" "rs_connection_id s = cid"
    and "rs_handlers s f = Some hr" "now < Uptime_Max L"
  shows "handleRequest L IO s cid (header_bytes u24b varb (NewUnaryRequest f i) @ payload) now now now =
    Some (s\<lparr>rs_pending_calls := (rs_pending_calls s)(i \<mapsto> RpcRequest_new cid f i (Uptime_Max L) True)\<rparr>,
      [Notify_deadlines, Run_handler hr \<lparr>rh_connection_id = cid, rh_stream_id = i\<rparr> payload True])"
  using assms
  by (simp add: handleRequest_def RpcServer_reconnected_def admit_request handleRequest_dispatch_def RpcRequest_new_def)

lemma reply_sends:
  assumes "rs_connection_id s = cid" "rs_pending_calls s i = Some r" "rq_connection_id r = cid" "now < rq_deadline r"
    and "reply_status_data rep = (st, data)" "st \<noteq> kDeadlineExceeded"
  shows "\<exists>s'. RequestHandle_reply IO s \<lparr>rh_connection_id = cid, rh_stream_id = i\<rparr> rep now =
    Some (s', [Notify_deadlines, Send_continuation cid (header_bytes u24b varb (NewUnaryResponse i st)) data])"
  using assms
  by (cases rep) (auto simp: RequestHandle_reply_def RequestHandle_sendSuccessResponse_def
    RequestHandle_sendFailureResponse_def server_sendSuccessResponse_def server_sendFailureResponse_def
    prepForResponse_def sendResponse_total [OF rpc_io_axioms] reply_status_data_def Let_def)

lemma deliver_completes:
  assumes "i < 0x1000000" "status_ok st" "rc_outgoing_calls c i = Some call" "call < length (rc_calls c)"
    and "oc_cb (rc_calls c ! call) = Some cb"
  shows "\<exists>c'. deliver_response IO c [Notify_deadlines, Send_continuation cid (header_bytes u24b varb (NewUnaryResponse i st)) data]
    = (c', [(cb, data, st)], True)"
proof -
  let ?h = "NewUnaryResponse i st"
  have "handleResponse IO c (header_bytes u24b varb ?h @ data) =
      Some (RpcClient_complete (cancelSend_erase c (hd_stream_id ?h)) call (drop (length (header_bytes u24b varb ?h))
        (header_bytes u24b varb ?h @ data)) st)"
    using assms length_header_bytes(1) [of ?h]
    by (intro handleResponse_known) (auto simp: deserialize_header_bytes new_header_wf responseStatus_def header_fields)
  then show ?thesis
    using assms(4,5) by (simp add: deliver_response_def RpcClient_complete_eq erase_effect)
qed

lemma sendUnaryRpc_eq:
  "sendUnaryRpc IO send c f payload cb =
     (let c1 = c\<lparr>rc_calls := rc_calls c @ [\<lparr>oc_cb = Some cb\<rparr>]\<rparr>;
          (c2, i) = new_stream c1 (length (rc_calls c));
          (c3, events, sent) = send c2 (header_bytes u24b varb (NewUnaryRequest f i)) payload
      in Some (if sent then (c3, events, kOk) else (cancelSend c3 i (length (rc_calls c)), events, kUnavailable)))"
  using length_header_bytes(1) [of "NewUnaryRequest f (rc_next_stream_id c)"]
    serialize_header_bytes [OF new_header_shape(1)]
  by (auto simp: sendUnaryRpc_def OutgoingCall_make_def send_request_def kMaxSerializedSize_def new_stream_def
      CHECK_bind Let_def split: prod.split)

text \<open>One call: the callback runs once, with the answer of the handler.\<close>

lemma call_through:
  assumes ready: "call_ready L c s cid now" and f: "rs_handlers s f = Some hr"
    and rep: "reply_status_data (app hr payload) = (st, data)" "st \<noteq> kDeadlineExceeded" "status_ok st"
  shows "\<exists>c'. sendUnaryRpc IO (loopback L IO s cid app now) c f payload cb = Some (c', [(cb, data, st)], kOk)"
proof -
  let ?i = "rc_next_stream_id c"
  let ?n = "length (rc_calls c)"
  define c2 where "c2 = fst (new_stream (c\<lparr>rc_calls := rc_calls c @ [\<lparr>oc_cb = Some cb\<rparr>]\<rparr>) ?n)"
  have c2: "new_stream (c\<lparr>rc_calls := rc_calls c @ [\<lparr>oc_cb = Some cb\<rparr>]\<rparr>) ?n = (c2, ?i)"
    "rc_outgoing_calls c2 ?i = Some ?n" "rc_calls c2 = rc_calls c @ [\<lparr>oc_cb = Some cb\<rparr>]"
    using ready by (simp_all add: c2_def new_stream_def call_ready_def Let_def)
  have i: "?i < 0x1000000" "rs_active s" "rs_pending_calls s ?i = None" "rs_connection_id s = cid" "now < Uptime_Max L"
    using ready by (simp_all add: call_ready_def)
  note run = handleRequest_runs_handler [OF i(1-4) f i(5), of payload]
  let ?s1 = "s\<lparr>rs_pending_calls := (rs_pending_calls s)(?i \<mapsto> RpcRequest_new cid f ?i (Uptime_Max L) True)\<rparr>"
  obtain s2 where s2: "RequestHandle_reply IO ?s1 \<lparr>rh_connection_id = cid, rh_stream_id = ?i\<rparr> (app hr payload) now =
      Some (s2, [Notify_deadlines, Send_continuation cid (header_bytes u24b varb (NewUnaryResponse ?i st)) data])"
    using reply_sends [of ?s1 cid ?i "RpcRequest_new cid f ?i (Uptime_Max L) True" now, OF _ _ _ _ rep(1,2)] i
    by (auto simp: RpcRequest_new_def)
  obtain c' where "deliver_response IO c2
      [Notify_deadlines, Send_continuation cid (header_bytes u24b varb (NewUnaryResponse ?i st)) data] = (c', [(cb, data, st)], True)"
    using deliver_completes [OF i(1) rep(3) c2(2), of cb cid data] by (auto simp: c2(3))
  then have "loopback L IO s cid app now c2 (header_bytes u24b varb (NewUnaryRequest f ?i)) payload = (c', [(cb, data, st)], True)"
    by (simp add: loopback_def run s2)
  then show ?thesis
    by (simp add: sendUnaryRpc_eq c2(1))
qed

text \<open>A call of a function the server does not have.\<close>

lemma call_unknown:
  assumes ready: "call_ready L c s cid now" and f: "rs_handlers s f = None"
  shows "\<exists>c'. sendUnaryRpc IO (loopback L IO s cid app now) c f payload cb =
    Some (c', [(cb, ascii ''Unknown function ID'', kUnimplemented)], kOk)"
proof -
  let ?i = "rc_next_stream_id c"
  let ?n = "length (rc_calls c)"
  define c2 where "c2 = fst (new_stream (c\<lparr>rc_calls := rc_calls c @ [\<lparr>oc_cb = Some cb\<rparr>]\<rparr>) ?n)"
  have c2: "new_stream (c\<lparr>rc_calls := rc_calls c @ [\<lparr>oc_cb = Some cb\<rparr>]\<rparr>) ?n = (c2, ?i)"
    "rc_outgoing_calls c2 ?i = Some ?n" "rc_calls c2 = rc_calls c @ [\<lparr>oc_cb = Some cb\<rparr>]"
    using ready by (simp_all add: c2_def new_stream_def call_ready_def Let_def)
  have i: "?i < 0x1000000" "rs_active s" "rs_pending_calls s ?i = None" "rs_connection_id s = cid" "now < Uptime_Max L"
    using ready by (simp_all add: call_ready_def)
  let ?e = "Send_continuation cid (header_bytes u24b varb (NewUnaryResponse ?i kUnimplemented)) (ascii ''Unknown function ID'')"
  obtain s1 where s1: "handleRequest L IO s cid (header_bytes u24b varb (NewUnaryRequest f ?i) @ payload) now now now =
      Some (s1, [Notify_deadlines, Notify_deadlines, ?e])"
    using i f
    by (simp add: handleRequest_def RpcServer_reconnected_def admit_request handleRequest_dispatch_def RpcRequest_new_def
        server_sendFailureResponse_def prepForResponse_def sendResponse_total [OF rpc_io_axioms] Let_def)
  obtain c' where "deliver_response IO c2 [Notify_deadlines, ?e] =
      (c', [(cb, ascii ''Unknown function ID'', kUnimplemented)], True)"
    using deliver_completes [OF i(1) _ c2(2), of kUnimplemented cb cid "ascii ''Unknown function ID''"]
    by (auto simp: c2(3) status_ok_def)
  then have "loopback L IO s cid app now c2 (header_bytes u24b varb (NewUnaryRequest f ?i)) payload =
      (c', [(cb, ascii ''Unknown function ID'', kUnimplemented)], True)"
    by (simp add: loopback_def s1)
  then show ?thesis
    by (simp add: sendUnaryRpc_eq c2(1))
qed

end

section \<open>Typed calls\<close>

text \<open>What the caller of a typed stub gets from a handler that returned the status and the response.\<close>

definition call_outcome :: "lib \<Rightarrow> data_lib \<Rightarrow> RpcStatus \<Rightarrow> rpc_value \<Rightarrow> RpcStatus \<times> rpc_value option" where
  "call_outcome L D st r =
     (if st \<noteq> kOk then (st, None) else if fits L D r then (kOk, Some r) else (kInvalidArgument, None))"

lemma Deserialize_empty_unfit: "\<not> fits L D r \<Longrightarrow> wf_type (type_of_value r) \<Longrightarrow>
    Deserialize L D (type_of_value r) [] = Inl kInvalidArgument"
  by (cases r; cases "case r of V_tuple vs \<Rightarrow> vs | _ \<Rightarrow> []")
    (simp_all add: Deserializer_pair_def DeserializeMember_def tag_def)

lemma typed_reply:
  assumes D: "roo_data L D" and "fits L D q" "fn q = (st, r)" "wf_type (type_of_value r)"
  obtains data st' where
    "reply_status_data (UnaryHandler_call (Deserialize L D (type_of_value q)) fn (Serialize L D) (encode L D q)) = (st', data)"
    "st' = st" "stub_callback (Deserialize L D (type_of_value r)) data st' = call_outcome L D st r"
proof -
  have L: "roo_lib L"
    using D by (simp add: roo_data_def)
  let ?rep = "UnaryHandler_call (Deserialize L D (type_of_value q)) fn (Serialize L D) (encode L D q)"
  have rep: "?rep = (if st \<noteq> kOk then Failure st (ascii ''application error'') else Success (sz_data (Serialize L D r)) True)"
    using assms(3) by (simp add: UnaryHandler_call_def roo_data.Deserialize_encode [OF D assms(2)])
  have "stub_callback (Deserialize L D (type_of_value r)) (snd (reply_status_data ?rep)) st = call_outcome L D st r"
    using roo_data.Deserialize_encode [OF D, of r] Deserialize_empty_unfit [of L D r]
    by (simp add: rep reply_status_data_def stub_callback_def call_outcome_def Serialize_spec [OF L assms(4)] assms(4))
  then show ?thesis
    by (intro that [of st "snd (reply_status_data ?rep)"]) (simp_all add: rep reply_status_data_def)
qed

end
