(* ===== verification/Link_Streams.thy ===== *)
theory Link_Streams
  imports Channel_Session
begin

text \<open>
  The streams and links that applications hold (\<^verbatim>\<open>link/link_input_stream.{h,cpp}\<close>,
  \<^verbatim>\<open>link/link_output_stream.{h,cpp}\<close>, \<^verbatim>\<open>link/link.{h,cpp}\<close>, \<^verbatim>\<open>link/link_transport.{h,cpp}\<close>,
  \<^verbatim>\<open>link/arduino/link_stream.{h,cpp}\<close>). There is one channel; a \<open>Channel*\<close> is a flag that says whether
  it is non-null. Using a null pointer is \<open>None\<close>, like a failed \<open>CHECK\<close>.
\<close>

definition deref :: "bool \<Rightarrow> unit option" where
  "deref p = (if p then Some () else None)"

section \<open>LinkInputStream\<close>

record LinkInputStream =
  li_channel :: bool
  li_my_stream_id :: u32
  li_status :: io_status

definition LinkInputStream_null :: LinkInputStream where
  "LinkInputStream_null = \<lparr>li_channel = False, li_my_stream_id = 0, li_status = io_kClosed\<rparr>"

definition LinkInputStream_new :: "u32 \<Rightarrow> LinkInputStream" where
  "LinkInputStream_new my_stream_id =
     \<lparr>li_channel = True, li_my_stream_id = my_stream_id,
      li_status = (if my_stream_id = 0 then io_kClosed else io_kOk)\<rparr>"

text \<open>The new object, and what is left of the other one.\<close>

definition LinkInputStream_move :: "LinkInputStream \<Rightarrow> LinkInputStream \<times> LinkInputStream" where
  "LinkInputStream_move other =
     (\<lparr>li_channel = li_channel other, li_my_stream_id = li_my_stream_id other, li_status = li_status other\<rparr>,
      other\<lparr>li_channel := False, li_my_stream_id := 0, li_status := io_kClosed\<rparr>)"

definition LinkInputStream_assign :: "LinkInputStream \<Rightarrow> LinkInputStream \<Rightarrow> LinkInputStream \<times> LinkInputStream" where
  "LinkInputStream_assign this other =
     (this\<lparr>li_channel := li_channel other, li_my_stream_id := li_my_stream_id other, li_status := li_status other\<rparr>,
      other\<lparr>li_channel := False, li_my_stream_id := 0, li_status := io_kClosed\<rparr>)"

definition LinkInputStream_close :: "lib \<Rightarrow> Channel \<Rightarrow> LinkInputStream \<Rightarrow> (Channel \<times> LinkInputStream) option" where
  "LinkInputStream_close L ch s =
     (if li_status s \<noteq> io_kOk \<and> li_status s \<noteq> io_kEndOfStream then Some (ch, s)
      else do {
        deref (li_channel s);
        (ch, status) \<leftarrow> Channel_closeInput L ch (li_my_stream_id s);
        let s = s\<lparr>li_status := status\<rparr>;
        if status \<noteq> io_kOk \<and> status \<noteq> io_kEndOfStream then Some (ch, s)
        else Some (ch, s\<lparr>li_status := io_kClosed\<rparr>)
      })"

definition LinkInputStream_read ::
  "lib \<Rightarrow> Channel \<Rightarrow> LinkInputStream \<Rightarrow> nat \<Rightarrow> (Channel \<times> LinkInputStream \<times> byte list blocking) option" where
  "LinkInputStream_read L ch s count =
     (if count = 0 \<or> li_status s \<noteq> io_kOk then Some (ch, s, Returned [])
      else do {
        deref (li_channel s);
        (ch, res) \<leftarrow> Channel_read L ch count (li_my_stream_id s) (li_status s);
        case res of
          Blocked \<Rightarrow> Some (ch, s, Blocked)
        | Returned (out, status) \<Rightarrow> Some (ch, s\<lparr>li_status := status\<rparr>, Returned out)
      })"

definition LinkInputStream_tryRead ::
  "lib \<Rightarrow> Channel \<Rightarrow> LinkInputStream \<Rightarrow> nat \<Rightarrow> (Channel \<times> LinkInputStream \<times> byte list) option" where
  "LinkInputStream_tryRead L ch s count =
     (if count = 0 \<or> li_status s \<noteq> io_kOk then Some (ch, s, [])
      else do {
        deref (li_channel s);
        (ch, out, status) \<leftarrow> Channel_tryRead L ch count (li_my_stream_id s) (li_status s);
        Some (ch, s\<lparr>li_status := status\<rparr>, out)
      })"

definition LinkInputStream_available :: "Channel \<Rightarrow> LinkInputStream \<Rightarrow> (Channel \<times> LinkInputStream \<times> nat) option" where
  "LinkInputStream_available ch s =
     (if li_status s \<noteq> io_kOk then Some (ch, s, 0)
      else do {
        deref (li_channel s);
        let (ch, n, status) = Channel_availableForRead ch (li_my_stream_id s);
        Some (ch, s\<lparr>li_status := status\<rparr>, n)
      })"

definition LinkInputStream_read_byte :: "lib \<Rightarrow> Channel \<Rightarrow> LinkInputStream \<Rightarrow> (Channel \<times> LinkInputStream \<times> int) option" where
  "LinkInputStream_read_byte L ch s =
     (if li_status s \<noteq> io_kOk then Some (ch, s, 0)
      else do {
        deref (li_channel s);
        (ch, out, status) \<leftarrow> Channel_tryRead L ch 1 (li_my_stream_id s) (li_status s);
        Some (ch, s\<lparr>li_status := status\<rparr>, case out of [] \<Rightarrow> - 1 | b # _ \<Rightarrow> uint b)
      })"

definition LinkInputStream_peek :: "Channel \<Rightarrow> LinkInputStream \<Rightarrow> (Channel \<times> LinkInputStream \<times> int) option" where
  "LinkInputStream_peek ch s =
     (if li_status s \<noteq> io_kOk then Some (ch, s, - 1)
      else do {
        deref (li_channel s);
        let (ch, result, status) = Channel_peek ch (li_my_stream_id s);
        Some (ch, s\<lparr>li_status := status\<rparr>, if result \<ge> 0 then result else - 1)
      })"

section \<open>LinkOutputStream\<close>

record LinkOutputStream =
  lo_channel :: bool
  lo_my_stream_id :: u32
  lo_status :: io_status

definition LinkOutputStream_null :: LinkOutputStream where
  "LinkOutputStream_null = \<lparr>lo_channel = False, lo_my_stream_id = 0, lo_status = io_kClosed\<rparr>"

definition LinkOutputStream_new :: "u32 \<Rightarrow> LinkOutputStream" where
  "LinkOutputStream_new my_stream_id = \<lparr>lo_channel = True, lo_my_stream_id = my_stream_id, lo_status = io_kOk\<rparr>"

definition LinkOutputStream_move :: "LinkOutputStream \<Rightarrow> LinkOutputStream \<times> LinkOutputStream" where
  "LinkOutputStream_move other =
     (\<lparr>lo_channel = lo_channel other, lo_my_stream_id = lo_my_stream_id other, lo_status = lo_status other\<rparr>,
      other\<lparr>lo_channel := False, lo_my_stream_id := 0, lo_status := io_kClosed\<rparr>)"

definition LinkOutputStream_assign :: "LinkOutputStream \<Rightarrow> LinkOutputStream \<Rightarrow> LinkOutputStream \<times> LinkOutputStream" where
  "LinkOutputStream_assign this other =
     (this\<lparr>lo_channel := lo_channel other, lo_my_stream_id := lo_my_stream_id other, lo_status := lo_status other\<rparr>,
      other\<lparr>lo_channel := False, lo_my_stream_id := 0, lo_status := io_kClosed\<rparr>)"

definition LinkOutputStream_write ::
  "lib \<Rightarrow> Channel \<Rightarrow> LinkOutputStream \<Rightarrow> byte list \<Rightarrow> (Channel \<times> LinkOutputStream \<times> nat blocking) option" where
  "LinkOutputStream_write L ch s buf =
     (if lo_status s \<noteq> io_kOk then Some (ch, s, Returned 0)
      else if length buf = 0 then Some (ch, s, Returned 0)
      else do {
        deref (lo_channel s);
        (ch, res) \<leftarrow> Channel_write L ch buf (lo_my_stream_id s);
        case res of
          Blocked \<Rightarrow> Some (ch, s, Blocked)
        | Returned (n, status) \<Rightarrow> Some (ch, s\<lparr>lo_status := status\<rparr>, Returned n)
      })"

definition LinkOutputStream_tryWrite ::
  "lib \<Rightarrow> Channel \<Rightarrow> LinkOutputStream \<Rightarrow> byte list \<Rightarrow> (Channel \<times> LinkOutputStream \<times> nat) option" where
  "LinkOutputStream_tryWrite L ch s buf =
     (if lo_status s \<noteq> io_kOk then Some (ch, s, 0)
      else do {
        deref (lo_channel s);
        (ch, n, status) \<leftarrow> Channel_tryWrite L ch buf (lo_my_stream_id s);
        Some (ch, s\<lparr>lo_status := status\<rparr>, n)
      })"

definition LinkOutputStream_availableForWrite :: "Channel \<Rightarrow> LinkOutputStream \<Rightarrow> (LinkOutputStream \<times> nat) option" where
  "LinkOutputStream_availableForWrite ch s =
     (if lo_status s \<noteq> io_kOk then Some (s, 0)
      else do {
        deref (lo_channel s);
        let (n, status) = Channel_availableForWrite ch (lo_my_stream_id s);
        Some (s\<lparr>lo_status := status\<rparr>, n)
      })"

definition LinkOutputStream_flush :: "Channel \<Rightarrow> LinkOutputStream \<Rightarrow> (Channel \<times> LinkOutputStream) option" where
  "LinkOutputStream_flush ch s =
     (if lo_status s \<noteq> io_kOk then Some (ch, s)
      else do {
        deref (lo_channel s);
        let (ch, status) = Channel_flush ch (lo_my_stream_id s);
        Some (ch, s\<lparr>lo_status := status\<rparr>)
      })"

definition LinkOutputStream_close ::
  "lib \<Rightarrow> Channel \<Rightarrow> LinkOutputStream \<Rightarrow> (Channel \<times> LinkOutputStream \<times> unit blocking) option" where
  "LinkOutputStream_close L ch s =
     (if lo_status s \<noteq> io_kOk then Some (ch, s, Returned ())
      else do {
        deref (lo_channel s);
        (ch, res) \<leftarrow> Channel_close L ch (lo_my_stream_id s);
        case res of
          Blocked \<Rightarrow> Some (ch, s, Blocked)
        | Returned status \<Rightarrow> Some (ch, s\<lparr>lo_status := (if status = io_kOk then io_kClosed else status)\<rparr>, Returned ())
      })"

section \<open>Link\<close>

record Link =
  ln_channel :: bool
  ln_my_stream_id :: u32
  ln_in :: LinkInputStream
  ln_out :: LinkOutputStream

definition Link_null :: Link where
  "Link_null = \<lparr>ln_channel = False, ln_my_stream_id = 0, ln_in = LinkInputStream_null, ln_out = LinkOutputStream_null\<rparr>"

definition Link_new :: "u32 \<Rightarrow> Link" where
  "Link_new my_stream_id =
     \<lparr>ln_channel = True, ln_my_stream_id = my_stream_id, ln_in = LinkInputStream_new my_stream_id,
      ln_out = LinkOutputStream_new my_stream_id\<rparr>"

text \<open>The moved-from streams are then overwritten with default constructed ones.\<close>

definition Link_move :: "Link \<Rightarrow> Link \<times> Link" where
  "Link_move other =
     (let (in1, in2) = LinkInputStream_move (ln_in other);
          (out1, out2) = LinkOutputStream_move (ln_out other)
      in (\<lparr>ln_channel = ln_channel other, ln_my_stream_id = ln_my_stream_id other, ln_in = in1, ln_out = out1\<rparr>,
          other\<lparr>ln_channel := False, ln_my_stream_id := 0,
            ln_in := fst (LinkInputStream_assign in2 LinkInputStream_null),
            ln_out := fst (LinkOutputStream_assign out2 LinkOutputStream_null)\<rparr>))"

definition Link_assign :: "Link \<Rightarrow> Link \<Rightarrow> Link \<times> Link" where
  "Link_assign this other =
     (let (in1, in2) = LinkInputStream_assign (ln_in this) (ln_in other);
          (out1, out2) = LinkOutputStream_assign (ln_out this) (ln_out other)
      in (this\<lparr>ln_channel := ln_channel other, ln_my_stream_id := ln_my_stream_id other, ln_in := in1, ln_out := out1\<rparr>,
          other\<lparr>ln_channel := False, ln_my_stream_id := 0,
            ln_in := fst (LinkInputStream_assign in2 LinkInputStream_null),
            ln_out := fst (LinkOutputStream_assign out2 LinkOutputStream_null)\<rparr>))"

definition Link_status :: "Channel \<Rightarrow> Link \<Rightarrow> LinkStatus" where
  "Link_status ch l =
     (if \<not> ln_channel l then Link_kIdle else Channel_getLinkStatusInternal ch (ln_my_stream_id l))"

definition Link_awaitConnected_pass :: "Channel \<Rightarrow> Link \<Rightarrow> unit blocking" where
  "Link_awaitConnected_pass ch l =
     (if \<not> ln_channel l then Returned () else Channel_awaitConnected_pass ch (ln_my_stream_id l))"

definition Link_awaitConnected_timed_pass :: "Channel \<Rightarrow> Link \<Rightarrow> bool \<Rightarrow> bool blocking" where
  "Link_awaitConnected_timed_pass ch l timed_out =
     (if \<not> ln_channel l then Returned True else Channel_awaitConnected_timed_pass ch (ln_my_stream_id l) timed_out)"

definition Link_disconnect :: "lib \<Rightarrow> Channel \<Rightarrow> Link \<Rightarrow> (Channel \<times> Link \<times> ch_effect list) option" where
  "Link_disconnect L ch l =
     (if \<not> ln_channel l then Some (ch, l, [])
      else do {
        (ch, effects) \<leftarrow> Channel_disconnect L ch (ln_my_stream_id l);
        Some (ch, l\<lparr>ln_channel := False\<rparr>, effects)
      })"

section \<open>LinkTransport\<close>

definition LinkTransport_new :: "lib \<Rightarrow> u32 \<Rightarrow> u32 \<Rightarrow> u32 \<Rightarrow> bool \<Rightarrow> Channel option" where
  "LinkTransport_new L sendbuf recvbuf tx_id0 rx_bit0 = Channel_new L sendbuf recvbuf tx_id0 rx_bit0"

definition LinkTransport_processIncomingPacket :: "lib \<Rightarrow> Channel \<Rightarrow> byte list \<Rightarrow> (Channel \<times> ch_effect list) option" where
  "LinkTransport_processIncomingPacket L ch buf = Channel_packetReceived L ch buf"

definition LinkTransport_connectAsync ::
  "lib \<Rightarrow> Channel \<Rightarrow> callback option \<Rightarrow> u32 list \<Rightarrow> (Channel \<times> Link \<times> ch_effect list) option" where
  "LinkTransport_connectAsync L ch disconnect_fn draws = do {
     (ch, my_stream_id, effects) \<leftarrow> Channel_connect L ch disconnect_fn draws;
     Some (ch, Link_new my_stream_id, effects)
   }"

text \<open>\<open>connect\<close> up to the first pass of \<open>awaitConnected\<close>.\<close>

definition LinkTransport_connect ::
  "lib \<Rightarrow> Channel \<Rightarrow> callback option \<Rightarrow> u32 list \<Rightarrow> (Channel \<times> Link \<times> ch_effect list \<times> unit blocking) option" where
  "LinkTransport_connect L ch disconnect_fn draws = do {
     (ch, conn, effects) \<leftarrow> LinkTransport_connectAsync L ch disconnect_fn draws;
     Some (ch, conn, effects, Link_awaitConnected_pass ch conn)
   }"

section \<open>LinkStream\<close>

definition LinkStream_available :: "Channel \<Rightarrow> Link \<Rightarrow> (Channel \<times> Link \<times> nat) option" where
  "LinkStream_available ch l = do {
     (ch, s, n) \<leftarrow> LinkInputStream_available ch (ln_in l);
     Some (ch, l\<lparr>ln_in := s\<rparr>, n)
   }"

definition LinkStream_read :: "lib \<Rightarrow> Channel \<Rightarrow> Link \<Rightarrow> (Channel \<times> Link \<times> int) option" where
  "LinkStream_read L ch l = do {
     (ch, l, n) \<leftarrow> LinkStream_available ch l;
     if n = 0 then Some (ch, l, - 1)
     else do {
       (ch, s, b) \<leftarrow> LinkInputStream_read_byte L ch (ln_in l);
       Some (ch, l\<lparr>ln_in := s\<rparr>, b)
     }
   }"

definition LinkStream_peek :: "Channel \<Rightarrow> Link \<Rightarrow> (Channel \<times> Link \<times> int) option" where
  "LinkStream_peek ch l = do {
     (ch, s, b) \<leftarrow> LinkInputStream_peek ch (ln_in l);
     Some (ch, l\<lparr>ln_in := s\<rparr>, b)
   }"

text \<open>
  \<open>timedRead\<close>: the caller's buffer after the call, and the result (\<open>- 1\<close> converted to \<open>size_t\<close> is
  \<open>None\<close>). \<open>tries\<close> are the results of the successive calls of \<open>tryRead\<close>: the bytes and the status
  of the stream after it. \<open>k\<close> counts the rounds of the inner loop; after each hundredth one the
  clock is read, and \<open>late\<close> says whether the timeout has passed. Running out of \<open>tries\<close> is still
  reading.
\<close>

fun timedRead_loop ::
  "byte list \<Rightarrow> nat \<Rightarrow> nat \<Rightarrow> nat \<Rightarrow> (byte list \<times> io_status \<times> bool) list \<Rightarrow> (byte list \<times> nat option) blocking" where
  "timedRead_loop buf sum0 count k [] = Blocked"
| "timedRead_loop buf sum0 count k ((bytes, status, late) # tries) =
     (if length bytes = 0 \<and> status \<noteq> io_kOk then Returned (buf, None)
      else
        (let buf = memcpy_at buf 0 bytes;
             sum = sum0 + length bytes;
             count = count - length bytes
         in if count = 0 then Returned (buf, Some sum)
            else if k = 99 \<and> late then Returned (buf, Some sum)
            else timedRead_loop buf sum count (if k = 99 then 0 else k + 1) tries))"

definition LinkStream_timedRead ::
  "io_status \<Rightarrow> byte list \<Rightarrow> nat \<Rightarrow> (byte list \<times> io_status \<times> bool) list \<Rightarrow> (byte list \<times> nat option) blocking" where
  "LinkStream_timedRead status buf count tries =
     (if status \<noteq> io_kOk then Returned (buf, None)
      else if count > 0 then timedRead_loop buf 0 count 0 tries
      else Returned (buf, Some 0))"

definition LinkStream_write_byte :: "lib \<Rightarrow> Channel \<Rightarrow> Link \<Rightarrow> byte \<Rightarrow> (Channel \<times> Link \<times> nat blocking) option" where
  "LinkStream_write_byte L ch l val = do {
     (ch, s, res) \<leftarrow> LinkOutputStream_write L ch (ln_out l) [val];
     Some (ch, l\<lparr>ln_out := s\<rparr>, case res of Blocked \<Rightarrow> Blocked | Returned _ \<Rightarrow> Returned 1)
   }"

definition LinkStream_availableForWrite :: "Channel \<Rightarrow> Link \<Rightarrow> (Link \<times> nat) option" where
  "LinkStream_availableForWrite ch l = do {
     (s, n) \<leftarrow> LinkOutputStream_availableForWrite ch (ln_out l);
     Some (l\<lparr>ln_out := s\<rparr>, n)
   }"

definition LinkStream_flush :: "Channel \<Rightarrow> Link \<Rightarrow> (Channel \<times> Link) option" where
  "LinkStream_flush ch l = do {
     (ch, s) \<leftarrow> LinkOutputStream_flush ch (ln_out l);
     Some (ch, l\<lparr>ln_out := s\<rparr>)
   }"

section \<open>No use of a null channel\<close>

definition in_ok :: "LinkInputStream \<Rightarrow> bool" where
  "in_ok s \<longleftrightarrow> (li_status s = io_kOk \<or> li_status s = io_kEndOfStream \<longrightarrow> li_channel s)"

definition out_ok :: "LinkOutputStream \<Rightarrow> bool" where
  "out_ok s \<longleftrightarrow> (lo_status s = io_kOk \<longrightarrow> lo_channel s)"

definition link_ok :: "Link \<Rightarrow> bool" where
  "link_ok l \<longleftrightarrow> in_ok (ln_in l) \<and> out_ok (ln_out l)"

lemma deref_bind [simp]: "Option.bind (deref p) f = (if p then f () else None)"
  by (simp add: deref_def)

lemma link_ok_new: "link_ok Link_null" "link_ok (Link_new i)"
  by (simp_all add: link_ok_def in_ok_def out_ok_def Link_null_def Link_new_def LinkInputStream_null_def
    LinkOutputStream_null_def LinkInputStream_new_def LinkOutputStream_new_def)

text \<open>Moving a link leaves a detached one behind; the new one is what the old one was.\<close>

lemma Link_move_eq: "Link_move l = (l, Link_null)"
  by (cases l; cases "ln_in l"; cases "ln_out l")
    (simp add: Link_move_def LinkInputStream_move_def LinkOutputStream_move_def LinkInputStream_assign_def
      LinkOutputStream_assign_def LinkInputStream_null_def LinkOutputStream_null_def Link_null_def Let_def)

lemma Link_assign_eq: "Link_assign l m = (m, Link_null)"
  by (cases l; cases m; cases "ln_in l"; cases "ln_out l"; cases "ln_in m"; cases "ln_out m")
    (simp add: Link_assign_def LinkInputStream_assign_def LinkOutputStream_assign_def LinkInputStream_null_def
      LinkOutputStream_null_def Link_null_def Let_def)

lemma in_ok_status: "in_ok s \<Longrightarrow> li_status s = io_kOk \<or> li_status s = io_kEndOfStream \<Longrightarrow> in_ok (s\<lparr>li_status := x\<rparr>)"
  by (auto simp: in_ok_def)

lemma out_ok_status: "out_ok s \<Longrightarrow> lo_status s = io_kOk \<Longrightarrow> out_ok (s\<lparr>lo_status := x\<rparr>)"
  by (simp add: out_ok_def)

lemma LinkInputStream_close_ok: "in_ok s \<Longrightarrow> LinkInputStream_close L ch s = Some (ch', s') \<Longrightarrow> in_ok s'"
  unfolding LinkInputStream_close_def
  by (cases "Channel_closeInput L ch (li_my_stream_id s)"; cases "the (Channel_closeInput L ch (li_my_stream_id s))";
      simp add: Let_def split: if_split_asm; auto simp: in_ok_status)

lemma LinkInputStream_read_ok: "in_ok s \<Longrightarrow> LinkInputStream_read L ch s n = Some (ch', s', r) \<Longrightarrow> in_ok s'"
  unfolding LinkInputStream_read_def
  by (cases "Channel_read L ch n (li_my_stream_id s) (li_status s)"; cases "the (Channel_read L ch n (li_my_stream_id s) (li_status s))"; cases "snd (the (Channel_read L ch n (li_my_stream_id s) (li_status s)))";
      simp add: Let_def split: if_split_asm; auto simp: in_ok_status)

lemma LinkInputStream_tryRead_ok: "in_ok s \<Longrightarrow> LinkInputStream_tryRead L ch s n = Some (ch', s', out) \<Longrightarrow> in_ok s'"
  unfolding LinkInputStream_tryRead_def
  by (cases "Channel_tryRead L ch n (li_my_stream_id s) (li_status s)"; cases "the (Channel_tryRead L ch n (li_my_stream_id s) (li_status s))" rule: prod_cases3;
      simp add: Let_def split: if_split_asm; auto simp: in_ok_status)

lemma LinkInputStream_available_ok: "in_ok s \<Longrightarrow> LinkInputStream_available ch s = Some (ch', s', k) \<Longrightarrow> in_ok s'"
  unfolding LinkInputStream_available_def
  by (cases "Channel_availableForRead ch (li_my_stream_id s)" rule: prod_cases3;
      simp add: Let_def split: if_split_asm; auto simp: in_ok_status)

lemma LinkInputStream_read_byte_ok: "in_ok s \<Longrightarrow> LinkInputStream_read_byte L ch s = Some (ch', s', b) \<Longrightarrow> in_ok s'"
  unfolding LinkInputStream_read_byte_def
  by (cases "Channel_tryRead L ch 1 (li_my_stream_id s) (li_status s)"; cases "the (Channel_tryRead L ch 1 (li_my_stream_id s) (li_status s))" rule: prod_cases3;
      simp add: Let_def split: if_split_asm; auto simp: in_ok_status)

lemma LinkInputStream_peek_ok: "in_ok s \<Longrightarrow> LinkInputStream_peek ch s = Some (ch', s', b) \<Longrightarrow> in_ok s'"
  unfolding LinkInputStream_peek_def
  by (cases "Channel_peek ch (li_my_stream_id s)" rule: prod_cases3;
      simp add: Let_def split: if_split_asm; auto simp: in_ok_status)

lemmas in_ops_ok = LinkInputStream_close_ok LinkInputStream_read_ok LinkInputStream_tryRead_ok LinkInputStream_available_ok LinkInputStream_read_byte_ok LinkInputStream_peek_ok

lemma LinkOutputStream_write_ok: "out_ok s \<Longrightarrow> LinkOutputStream_write L ch s buf = Some (ch', s', r) \<Longrightarrow> out_ok s'"
  unfolding LinkOutputStream_write_def
  by (cases "Channel_write L ch buf (lo_my_stream_id s)"; cases "the (Channel_write L ch buf (lo_my_stream_id s))"; cases "snd (the (Channel_write L ch buf (lo_my_stream_id s)))";
      simp split: if_split_asm; auto simp: out_ok_status)

lemma LinkOutputStream_tryWrite_ok: "out_ok s \<Longrightarrow> LinkOutputStream_tryWrite L ch s buf = Some (ch', s', n) \<Longrightarrow> out_ok s'"
  unfolding LinkOutputStream_tryWrite_def
  by (cases "Channel_tryWrite L ch buf (lo_my_stream_id s)"; cases "the (Channel_tryWrite L ch buf (lo_my_stream_id s))" rule: prod_cases3;
      simp split: if_split_asm; auto simp: out_ok_status)

lemma LinkOutputStream_availableForWrite_ok: "out_ok s \<Longrightarrow> LinkOutputStream_availableForWrite ch s = Some (s', n) \<Longrightarrow> out_ok s'"
  unfolding LinkOutputStream_availableForWrite_def
  by (cases "Channel_availableForWrite ch (lo_my_stream_id s)";
      simp split: if_split_asm; auto simp: out_ok_status)

lemma LinkOutputStream_flush_ok: "out_ok s \<Longrightarrow> LinkOutputStream_flush ch s = Some (ch', s') \<Longrightarrow> out_ok s'"
  unfolding LinkOutputStream_flush_def
  by (cases "Channel_flush ch (lo_my_stream_id s)";
      simp split: if_split_asm; auto simp: out_ok_status)

lemma LinkOutputStream_close_ok: "out_ok s \<Longrightarrow> LinkOutputStream_close L ch s = Some (ch', s', u) \<Longrightarrow> out_ok s'"
  unfolding LinkOutputStream_close_def
  by (cases "Channel_close L ch (lo_my_stream_id s)"; cases "the (Channel_close L ch (lo_my_stream_id s))"; cases "snd (the (Channel_close L ch (lo_my_stream_id s)))";
      simp split: if_split_asm; auto simp: out_ok_status)

lemmas out_ops_ok = LinkOutputStream_write_ok LinkOutputStream_tryWrite_ok LinkOutputStream_availableForWrite_ok LinkOutputStream_flush_ok LinkOutputStream_close_ok

text \<open>A stream whose status is not \<open>kOk\<close> never touches the channel and transfers nothing.\<close>

lemma in_closed:
  assumes "li_status s \<noteq> io_kOk"
  shows "LinkInputStream_read L ch s n = Some (ch, s, Returned [])" "LinkInputStream_tryRead L ch s n = Some (ch, s, [])"
    "LinkInputStream_available ch s = Some (ch, s, 0)" "LinkInputStream_peek ch s = Some (ch, s, - 1)"
    "LinkInputStream_read_byte L ch s = Some (ch, s, 0)"
  using assms
  by (simp_all add: LinkInputStream_read_def LinkInputStream_tryRead_def LinkInputStream_available_def
      LinkInputStream_peek_def LinkInputStream_read_byte_def)

lemma out_closed:
  assumes "lo_status s \<noteq> io_kOk"
  shows "LinkOutputStream_write L ch s buf = Some (ch, s, Returned 0)" "LinkOutputStream_tryWrite L ch s buf = Some (ch, s, 0)"
    "LinkOutputStream_flush ch s = Some (ch, s)" "LinkOutputStream_close L ch s = Some (ch, s, Returned ())"
  using assms
  by (simp_all add: LinkOutputStream_write_def LinkOutputStream_tryWrite_def LinkOutputStream_flush_def
      LinkOutputStream_close_def)

text \<open>The single-byte write reports a byte written even then.\<close>

lemma write_byte_closed:
  "lo_status (ln_out l) \<noteq> io_kOk \<Longrightarrow> LinkStream_write_byte L ch l b = Some (ch, l, Returned 1)"
  by (simp add: LinkStream_write_byte_def out_closed(1))

text \<open>
  The streams of a link whose connection was replaced or disconnected: reading and writing fail
  with \<open>kConnectionError\<close> and leave the channel alone.
\<close>

lemma stale_streams:
  assumes "rcv_my_stream_id (ch_receiver ch) \<noteq> li_my_stream_id s" "li_status s = io_kOk" "li_channel s" "0 < n"
  shows "LinkInputStream_read L ch s n = Some (ch, s\<lparr>li_status := io_kConnectionError\<rparr>, Returned [])"
    "LinkInputStream_tryRead L ch s n = Some (ch, s\<lparr>li_status := io_kConnectionError\<rparr>, [])"
  using assms
  by (simp_all add: LinkInputStream_read_def LinkInputStream_tryRead_def Channel_read_def Channel_tryRead_def
      TSR_read_def TSR_tryRead_def TSR_checkConnectionStatus_def Channel_notify_def Let_def)

lemma stale_writes:
  assumes "tx_my_stream_id (ch_transmitter ch) \<noteq> lo_my_stream_id s" "lo_status s = io_kOk" "lo_channel s" "buf \<noteq> []"
  shows "LinkOutputStream_write L ch s buf = Some (ch, s\<lparr>lo_status := io_kConnectionError\<rparr>, Returned 0)"
    "LinkOutputStream_tryWrite L ch s buf = Some (ch, s\<lparr>lo_status := io_kConnectionError\<rparr>, 0)"
  using assms
  by (simp_all add: LinkOutputStream_write_def LinkOutputStream_tryWrite_def Channel_write_def Channel_tryWrite_def
      TST_write_def TST_tryWrite_def TST_checkConnectionStatus_def Channel_notify_def Let_def)

section \<open>The life of a link\<close>

lemma connectAsync_link:
  assumes ok: "ch_ok ch" and d: "d \<noteq> 0"
  shows "\<exists>ch' effects. LinkTransport_connectAsync L ch f (replicate k 0 @ d # s # draws) = Some (ch', Link_new d, effects)
    \<and> ch_ok ch' \<and> ch_my_stream_id ch' = d \<and> Link_status ch' (Link_new d) = Link_kConnecting
    \<and> Link_awaitConnected_pass ch' (Link_new d) = Blocked
    \<and> (\<forall>l. ln_channel l \<and> ln_my_stream_id l \<noteq> 0 \<and> ln_my_stream_id l \<noteq> d \<longrightarrow> Link_status ch' l = Link_kBroken)"
proof -
  obtain ch' e where ch': "Channel_connect L ch f (replicate k 0 @ d # s # draws) = Some (ch', d, e)"
    "ch_ok ch'" "ch_my_stream_id ch' = d" "Channel_getLinkStatusInternal ch' d = Link_kConnecting"
    "\<And>x. x \<noteq> 0 \<Longrightarrow> x \<noteq> d \<Longrightarrow> Channel_getLinkStatusInternal ch' x = Link_kBroken"
    using connect_ok [OF ok d, of L f k s draws] by (elim exE conjE) (rule that, auto)
  have "LinkTransport_connectAsync L ch f (replicate k 0 @ d # s # draws) = Some (ch', Link_new d, e)"
    by (simp add: LinkTransport_connectAsync_def ch'(1))
  moreover have "Link_status ch' (Link_new d) = Link_kConnecting" "Link_awaitConnected_pass ch' (Link_new d) = Blocked"
    by (simp_all add: Link_status_def Link_new_def Link_awaitConnected_pass_def Channel_awaitConnected_pass_def ch'(4))
  moreover have "Link_status ch' l = Link_kBroken"
    if "ln_channel l \<and> ln_my_stream_id l \<noteq> 0 \<and> ln_my_stream_id l \<noteq> d" for l
    using that by (simp add: Link_status_def ch'(5))
  ultimately show ?thesis
    using ch'(2,3) by (intro exI [of _ ch'] exI [of _ e]) simp
qed

lemma disconnect_link:
  assumes ok: "ch_ok ch" and l: "ln_channel l" "ln_my_stream_id l = ch_my_stream_id ch" "ch_my_stream_id ch \<noteq> 0"
  shows "\<exists>ch' l' effects. Link_disconnect L ch l = Some (ch', l', effects) \<and> ch_ok ch' \<and> Link_status ch' l' = Link_kIdle
    \<and> Link_status ch' l = Link_kBroken \<and> Link_disconnect L ch' l' = Some (ch', l', [])"
proof -
  obtain ch' e where "Channel_disconnect L ch (ch_my_stream_id ch) = Some (ch', e)" "ch_ok ch'"
    "Channel_getLinkStatusInternal ch' (ch_my_stream_id ch) = Link_kBroken"
    using disconnect_ok [OF ok, of L] l(3) by (elim exE conjE) (rule that, auto)
  then show ?thesis
    using l(1,2)
    by (intro exI [of _ ch'] exI [of _ "l\<lparr>ln_channel := False\<rparr>"]) (simp add: Link_disconnect_def Link_status_def)
qed

section \<open>The buffer of \<open>timedRead\<close>\<close>

text \<open>
  Two successful reads: the second one overwrites the first, although the result counts the bytes
  of both.
\<close>

lemma timedRead_overwrites:
  assumes "0 < length a" "0 < length b" "length a + length b = count" "count \<le> length buf"
  shows "LinkStream_timedRead io_kOk buf count [(a, io_kOk, late), (b, io_kOk, late')] =
    Returned (memcpy_at (memcpy_at buf 0 a) 0 b, Some count)"
    and "take (length b) (memcpy_at (memcpy_at buf 0 a) 0 b) = b"
  using assms by (auto simp: LinkStream_timedRead_def Let_def)

end
