(* ===== verification/Link_Messaging.thy ===== *)
theory Link_Messaging
  imports Link_Streams Messaging_Mux "HOL-Library.Sublist"
begin

text \<open>
  Messages over a link (\<^verbatim>\<open>link/link_messaging.{h,cpp}\<close>): length-prefixed framing of messages on
  the reliable byte stream, the choice of the connection to send on, and the receive loop. The
  blocking stream functions \<open>writeFully\<close> and \<open>readFully\<close> of \<open>roo_io\<close> are arguments; \<open>'o\<close> and
  \<open>'i\<close> are what they act on (the output and input side of the link with whatever happens to it
  meanwhile).
\<close>

section \<open>State\<close>

record LinkMessaging = Messaging +
  lm_link :: Link
  lm_closed :: bool
  lm_max_recv_packet_size :: nat
  lm_reader_thread :: bool

definition LinkMessaging_new :: "nat \<Rightarrow> LinkMessaging" where
  "LinkMessaging_new max_recv_packet_size =
     \<lparr>ms_receiver = None, lm_link = Link_null, lm_closed = False,
      lm_max_recv_packet_size = max_recv_packet_size, lm_reader_thread = False\<rparr>"

definition LinkMessaging_begin :: "LinkMessaging \<Rightarrow> LinkMessaging" where
  "LinkMessaging_begin m = m\<lparr>lm_reader_thread := True\<rparr>"

text \<open>The flag of the result says whether \<open>reconnected_\<close> is notified. The reader has ended after \<open>join\<close>.\<close>

definition LinkMessaging_end ::
  "lib \<Rightarrow> Channel \<Rightarrow> LinkMessaging \<Rightarrow> (Channel \<times> LinkMessaging \<times> ch_effect list \<times> bool) option" where
  "LinkMessaging_end L ch m =
     (if lm_closed m then Some (ch, m, [], False)
      else do {
        let m = m\<lparr>lm_closed := True\<rparr>;
        (ch, link, effects) \<leftarrow> Link_disconnect L ch (lm_link m);
        let m = m\<lparr>lm_link := link\<rparr>;
        let m = (if lm_reader_thread m then m\<lparr>lm_reader_thread := False\<rparr> else m);
        Some (ch, m, effects, True)
      })"

section \<open>Sending\<close>

definition sendInternal ::
  "lib \<Rightarrow> ('o \<Rightarrow> byte list \<Rightarrow> 'o) \<Rightarrow> ('o \<Rightarrow> 'o) \<Rightarrow> ('o \<Rightarrow> bool) \<Rightarrow> 'o \<Rightarrow> byte list \<Rightarrow> byte list \<Rightarrow> 'o \<times> bool" where
  "sendInternal L writeFully flush isOpen out header payload =
     (let serialized_size = StoreBeU32 L (of_nat (length header + length payload));
          out = writeFully out serialized_size;
          out = writeFully out header;
          out = writeFully out payload;
          out = flush out
      in (out, isOpen out))"

text \<open>
  One pass of the loop of \<open>send\<close>: \<open>Blocked\<close> is the wait on \<open>reconnected_\<close>. The connection id is
  stored only on request.
\<close>

definition LinkMessaging_send_pass ::
  "lib \<Rightarrow> ('o \<Rightarrow> byte list \<Rightarrow> 'o) \<Rightarrow> ('o \<Rightarrow> 'o) \<Rightarrow> ('o \<Rightarrow> bool) \<Rightarrow> Channel \<Rightarrow> LinkMessaging \<Rightarrow> 'o \<Rightarrow>
   byte list \<Rightarrow> byte list \<Rightarrow> bool \<Rightarrow> ('o \<times> bool \<times> ConnectionId option) blocking" where
  "LinkMessaging_send_pass L writeFully flush isOpen ch m out header payload want_connection_id =
     (if lm_closed m then Returned (out, False, None)
      else
        (let status = Link_status ch (lm_link m)
         in if status = Link_kConnected \<or> status = Link_kConnecting then
              (let connection_id = (if want_connection_id then Some (ln_my_stream_id (lm_link m)) else None);
                   (out, ok) = sendInternal L writeFully flush isOpen out header payload
               in Returned (out, ok, connection_id))
            else Blocked))"

definition LinkMessaging_sendContinuation ::
  "lib \<Rightarrow> ('o \<Rightarrow> byte list \<Rightarrow> 'o) \<Rightarrow> ('o \<Rightarrow> 'o) \<Rightarrow> ('o \<Rightarrow> bool) \<Rightarrow> LinkMessaging \<Rightarrow> 'o \<Rightarrow> ConnectionId \<Rightarrow>
   byte list \<Rightarrow> byte list \<Rightarrow> 'o \<times> bool" where
  "LinkMessaging_sendContinuation L writeFully flush isOpen m out connection_id header payload =
     (if lm_closed m then (out, False)
      else if ln_my_stream_id (lm_link m) \<noteq> connection_id then (out, False)
      else sendInternal L writeFully flush isOpen out header payload)"

section \<open>Receiving\<close>

text \<open>\<open>reconnected_\<close> is notified in every case.\<close>

definition LinkMessaging_connect ::
  "lib \<Rightarrow> Channel \<Rightarrow> LinkMessaging \<Rightarrow> u32 list \<Rightarrow> (Channel \<times> LinkMessaging \<times> ConnectionId \<times> ch_effect list) option" where
  "LinkMessaging_connect L ch m draws = do {
     (ch, link, effects) \<leftarrow> LinkTransport_connectAsync L ch None draws;
     let m = m\<lparr>lm_link := fst (Link_assign (lm_link m) link)\<rparr>;
     Some (ch, m, ln_my_stream_id (lm_link m), effects)
   }"

text \<open>
  The loop of \<open>receiveLoop\<close> on one connection: the messages passed to \<open>received\<close> before the loop
  calls \<open>reset\<close> and breaks. \<open>None\<close>: still running when the fuel, one unit for each round, is used up.
\<close>

fun receive_messages ::
  "nat \<Rightarrow> lib \<Rightarrow> ('i \<Rightarrow> nat \<Rightarrow> byte list \<times> 'i) \<Rightarrow> nat \<Rightarrow> 'i \<Rightarrow> byte list list option" where
  "receive_messages 0 L readFully max_recv_packet_size inp = None"
| "receive_messages (Suc fuel) L readFully max_recv_packet_size inp =
     (let (serialized_size, inp) = readFully inp 4
      in if length serialized_size < 4 then Some []
         else
           (let incoming_size = unat (LoadBeU32 L serialized_size)
            in if incoming_size > max_recv_packet_size then Some []
               else
                 (let (data, inp) = readFully inp incoming_size
                  in if length data < incoming_size then Some []
                     else map_option ((#) data) (receive_messages fuel L readFully max_recv_packet_size inp))))"

text \<open>One round of the outer loop: what the registered receiver sees of a connection.\<close>

definition receiveLoop_connection ::
  "nat \<Rightarrow> lib \<Rightarrow> ('i \<Rightarrow> nat \<Rightarrow> byte list \<times> 'i) \<Rightarrow> LinkMessaging \<Rightarrow> ConnectionId \<Rightarrow> 'i \<Rightarrow> msg_event list option" where
  "receiveLoop_connection fuel L readFully m connection_id inp =
     map_option (\<lambda>msgs. concat (map (Messaging_received m connection_id) msgs) @ Messaging_reset m connection_id)
       (receive_messages fuel L readFully (lm_max_recv_packet_size m) inp)"

section \<open>Laws of the stream functions\<close>

text \<open>
  \<open>stream i\<close>: the bytes the connection will still deliver before it ends; \<open>readFully\<close> takes as many
  as asked for, or what is left. \<open>written\<close>: the bytes accepted so far; \<open>writeFully\<close> appends all of
  its argument if the stream is still open afterwards and a part of it otherwise, and nothing to a
  stream that was not open.
\<close>

definition readFully_law :: "('i \<Rightarrow> nat \<Rightarrow> byte list \<times> 'i) \<Rightarrow> ('i \<Rightarrow> byte list) \<Rightarrow> bool" where
  "readFully_law readFully stream \<longleftrightarrow>
     (\<forall>i n. fst (readFully i n) = take n (stream i) \<and> stream (snd (readFully i n)) = drop n (stream i))"

definition writeFully_law ::
  "('o \<Rightarrow> byte list \<Rightarrow> 'o) \<Rightarrow> ('o \<Rightarrow> 'o) \<Rightarrow> ('o \<Rightarrow> bool) \<Rightarrow> ('o \<Rightarrow> byte list) \<Rightarrow> bool" where
  "writeFully_law writeFully flush isOpen written \<longleftrightarrow>
     (\<forall>out bs. prefix (written (writeFully out bs)) (written out @ bs) \<and> prefix (written out) (written (writeFully out bs))
        \<and> (isOpen (writeFully out bs) \<longrightarrow> isOpen out \<and> written (writeFully out bs) = written out @ bs)
        \<and> (\<not> isOpen out \<longrightarrow> written (writeFully out bs) = written out)) \<and>
     (\<forall>out. written (flush out) = written out \<and> (isOpen (flush out) \<longrightarrow> isOpen out))"

section \<open>Framing\<close>

definition frame :: "lib \<Rightarrow> byte list \<Rightarrow> byte list" where
  "frame L msg = StoreBeU32 L (of_nat (length msg)) @ msg"

definition frames :: "lib \<Rightarrow> byte list list \<Rightarrow> byte list" where
  "frames L msgs = concat (map (frame L) msgs)"

lemma frames_simps [simp]: "frames L [] = []" "frames L (m # ms) = frame L m @ frames L ms"
  "frames L (ms @ ms') = frames L ms @ frames L ms'"
  by (simp_all add: frames_def)

text \<open>Whatever the peer sends, the loop ends with the stream, and hands over no message above the limit.\<close>

lemma receive_messages_total:
  assumes "readFully_law readFully stream" "length (stream i) < 4 * fuel"
  shows "\<exists>msgs. receive_messages fuel L readFully mx i = Some msgs \<and> (\<forall>m \<in> set msgs. length m \<le> mx)"
  using assms(2)
proof (induction fuel arbitrary: i)
  case (Suc fuel)
  note law = assms(1) [unfolded readFully_law_def, rule_format]
  obtain sz i1 where 1: "readFully i 4 = (sz, i1)" "sz = take 4 (stream i)" "stream i1 = drop 4 (stream i)"
    using law [of i 4] by (metis prod.collapse)
  define n where "n = unat (LoadBeU32 L sz)"
  obtain data i2 where 2: "readFully i1 n = (data, i2)" "data = take n (stream i1)" "stream i2 = drop n (stream i1)"
    using law [of i1 n] by (metis prod.collapse)
  show ?case
  proof (cases "length sz < 4 \<or> mx < n \<or> length data < n")
    case True
    then show ?thesis
      using 1(1) 2(1) n_def by (auto simp: Let_def)
  next
    case False
    then have "length (stream i2) < 4 * fuel"
      using Suc.prems by (auto simp: 1 2 min_def split: if_splits)
    from Suc.IH [OF this] obtain msgs where "receive_messages fuel L readFully mx i2 = Some msgs" "\<forall>m \<in> set msgs. length m \<le> mx"
      by blast
    then show ?thesis
      using False 1(1) 2(1) n_def by (auto simp: 2(2) min_def Let_def)
  qed
qed simp

text \<open>The messages that are complete in a prefix of a sequence of frames.\<close>

lemma receive_messages_frames:
  assumes L: "roo_lib L" and law: "readFully_law readFully stream" and "mx < 4294967296"
    and "\<forall>m \<in> set msgs. length m \<le> mx" "prefix (stream i) (frames L msgs)" "length msgs < fuel"
  shows "\<exists>k \<le> length msgs. receive_messages fuel L readFully mx i = Some (take k msgs)
    \<and> length (frames L (take k msgs)) \<le> length (stream i)
    \<and> (k < length msgs \<longrightarrow> length (stream i) < length (frames L (take (Suc k) msgs)))"
  using assms(4-)
proof (induction msgs arbitrary: i fuel)
  case Nil
  then obtain f where f: "fuel = Suc f" "stream i = []"
    by (cases fuel) auto
  have "fst (readFully i 4) = []"
    using law f(2) by (simp add: readFully_law_def)
  then show ?case
    by (simp add: f split_beta)
next
  case (Cons m msgs)
  then obtain f where f: "fuel = Suc f" "length msgs < f"
    by (cases fuel) auto
  have len: "length (StoreBeU32 L (of_nat (length m))) = 4"
    using L by (rule roo_lib.length_StoreBeU32)
  have size: "unat (of_nat (length m) :: u32) = length m"
    using Cons.prems(1) assms(3) by (simp add: unsigned_of_nat take_bit_nat_eq_self)
  note rd = law [unfolded readFully_law_def, rule_format]
  obtain sz i1 where 1: "readFully i 4 = (sz, i1)" "sz = take 4 (stream i)" "stream i1 = drop 4 (stream i)"
    using rd [of i 4] by (metis prod.collapse)
  obtain rest where rest: "frame L m @ frames L msgs = stream i @ rest"
    using Cons.prems(2) by (auto simp: prefix_def)
  show ?case
  proof (cases "length (stream i) < length (frame L m)")
    case True
    have "receive_messages fuel L readFully mx i = Some []"
    proof (cases "length (stream i) < 4")
      case False
      have "sz = take 4 (frame L m @ frames L msgs)"
        using False by (simp add: 1 rest)
      then have sz: "sz = StoreBeU32 L (of_nat (length m))"
        using len by (simp add: frame_def)
      have "LoadBeU32 L sz = of_nat (length m)"
        using roo_lib.load_store_32 [OF L, of _ "[]"] by (simp add: sz)
      moreover have "length (fst (readFully i1 (length m))) < length m"
        using rd [of i1 "length m"] True False len by (simp add: 1 frame_def)
      ultimately show ?thesis
        using size len by (simp add: f 1(1) sz split_beta Let_def)
    qed (use 1 in \<open>simp add: f\<close>)
    then show ?thesis
      using True by (intro exI [of _ 0]) simp
  next
    case False
    define n where "n = length (frame L m)"
    define tl where "tl = drop n (stream i)"
    have "take n (frame L m @ frames L msgs) = take n (stream i @ rest)" "drop n (frame L m @ frames L msgs) = drop n (stream i @ rest)"
      by (simp_all add: rest)
    then have "take n (stream i) = frame L m" and tail: "frames L msgs = tl @ rest"
      using False by (simp_all add: n_def tl_def)
    then have tl: "stream i = frame L m @ tl"
      by (metis append_take_drop_id tl_def)
    have pre: "prefix tl (frames L msgs)"
      by (simp add: tail)
    have sz: "sz = StoreBeU32 L (of_nat (length m))" and s1: "stream i1 = m @ tl"
      using len by (simp_all add: 1 tl frame_def)
    obtain i2 where 2: "readFully i1 (length m) = (m, i2)" "stream i2 = tl"
      using rd [of i1 "length m"] s1 by (cases "readFully i1 (length m)") simp
    have "LoadBeU32 L sz = of_nat (length m)"
      using roo_lib.load_store_32 [OF L, of _ "[]"] by (simp add: sz)
    then have step: "receive_messages fuel L readFully mx i = map_option ((#) m) (receive_messages f L readFully mx i2)"
      using Cons.prems(1) size len by (simp add: f(1) 1(1) sz 2(1))
    obtain k where k: "k \<le> length msgs" "receive_messages f L readFully mx i2 = Some (take k msgs)"
      "length (frames L (take k msgs)) \<le> length tl" "k < length msgs \<longrightarrow> length tl < length (frames L (take (Suc k) msgs))"
      using Cons.IH [of i2 f] Cons.prems(1) pre f(2) 2(2) by auto
    then show ?thesis
      by (intro exI [of _ "Suc k"]) (simp add: step tl)
  qed
qed

section \<open>Sending\<close>

lemma sendInternal_written:
  assumes "writeFully_law writeFully flush isOpen written" "sendInternal L writeFully flush isOpen out h p = (out', ok)"
  shows "prefix (written out) (written out')" "prefix (written out') (written out @ frame L (h @ p))" "ok = isOpen out'"
    "ok \<Longrightarrow> isOpen out \<and> written out' = written out @ frame L (h @ p)"
    "\<not> isOpen out \<Longrightarrow> written out' = written out \<and> \<not> ok"
proof -
  note law = assms(1) [unfolded writeFully_law_def]
  define s where "s = StoreBeU32 L (of_nat (length h + length p))"
  define o1 where "o1 = writeFully out s"
  define o2 where "o2 = writeFully o1 h"
  define o3 where "o3 = writeFully o2 p"
  have fr: "frame L (h @ p) = s @ h @ p"
    by (simp add: frame_def s_def)
  have out': "out' = flush o3" "ok = isOpen out'"
    using assms(2) by (auto simp: sendInternal_def o1_def o2_def o3_def s_def Let_def)
  have w: "prefix (written (writeFully x bs)) (written x @ bs)" "prefix (written x) (written (writeFully x bs))"
    "isOpen (writeFully x bs) \<Longrightarrow> isOpen x \<and> written (writeFully x bs) = written x @ bs"
    "\<not> isOpen x \<Longrightarrow> written (writeFully x bs) = written x" "written (flush x) = written x"
    "isOpen (flush x) \<Longrightarrow> isOpen x" for x bs
    using law by blast+
  have p1: "prefix (written out) (written o1)" "prefix (written o1) (written o2)" "prefix (written o2) (written o3)"
    by (simp_all add: o1_def o2_def o3_def w(2))
  then show "prefix (written out) (written out')"
    using w(5) [of o3] prefix_order.trans by (metis out'(1))
  show "ok = isOpen out'"
    by (rule out'(2))
  show "isOpen out \<and> written out' = written out @ frame L (h @ p)" if ok
    using that out' w(3) [of o2 p] w(3) [of o1 h] w(3) [of out s] w(5,6) [of o3] by (simp add: o1_def o2_def o3_def fr)
  show "written out' = written out \<and> \<not> ok" if c: "\<not> isOpen out"
  proof -
    have "\<not> isOpen o1" "\<not> isOpen o2" "\<not> isOpen o3"
      using c w(3) [of out s] w(3) [of o1 h] w(3) [of o2 p] by (auto simp: o1_def o2_def o3_def)
    then show ?thesis
      using c w(4) [of out s] w(4) [of o1 h] w(4) [of o2 p] w(5,6) [of o3] out' by (auto simp: o1_def o2_def o3_def)
  qed
  show "prefix (written out') (written out @ frame L (h @ p))"
  proof (cases "isOpen o1")
    case True
    then have o1: "written o1 = written out @ s"
      using w(3) by (simp add: o1_def)
    show ?thesis
    proof (cases "isOpen o2")
      case True
      then have "written o2 = written out @ s @ h"
        using w(3) [of o1 h] o1 by (simp add: o2_def)
      then show ?thesis
        using w(1) [of o2 p] w(5) [of o3] by (simp add: out' o3_def fr)
    next
      case False
      then have "written o3 = written o2"
        using w(4) by (simp add: o3_def)
      then show ?thesis
        using prefix_prefix [OF w(1) [of o1 h], of p] w(5) [of o3] o1 by (simp add: out' o2_def fr)
    qed
  next
    case False
    then have "written o3 = written o1"
      using w(3) [of o1 h] w(4) [of o1 h] w(4) [of o2 p] unfolding o2_def o3_def by metis
    then show ?thesis
      using prefix_prefix [OF w(1) [of out s], of "h @ p"] w(5) [of o3] by (simp add: out' o1_def fr)
  qed
qed

text \<open>Successive messages, each a header and a payload, on one output stream.\<close>

fun send_all ::
  "lib \<Rightarrow> ('o \<Rightarrow> byte list \<Rightarrow> 'o) \<Rightarrow> ('o \<Rightarrow> 'o) \<Rightarrow> ('o \<Rightarrow> bool) \<Rightarrow> 'o \<Rightarrow> (byte list \<times> byte list) list \<Rightarrow> 'o" where
  "send_all L writeFully flush isOpen out [] = out"
| "send_all L writeFully flush isOpen out ((h, p) # msgs) =
     send_all L writeFully flush isOpen (fst (sendInternal L writeFully flush isOpen out h p)) msgs"

lemma send_all_written:
  assumes law: "writeFully_law writeFully flush isOpen written"
  shows "prefix (written (send_all L writeFully flush isOpen out msgs)) (written out @ frames L (map (\<lambda>(h, p). h @ p) msgs))
    \<and> (\<not> isOpen out \<longrightarrow> written (send_all L writeFully flush isOpen out msgs) = written out)
    \<and> (isOpen (send_all L writeFully flush isOpen out msgs) \<longrightarrow>
         written (send_all L writeFully flush isOpen out msgs) = written out @ frames L (map (\<lambda>(h, p). h @ p) msgs))"
proof (induction msgs arbitrary: out)
  case (Cons m msgs)
  obtain h p where m: "m = (h, p)"
    by (cases m)
  obtain o1 ok where o1: "sendInternal L writeFully flush isOpen out h p = (o1, ok)"
    by (metis surj_pair)
  note w = sendInternal_written [OF law o1]
  let ?r = "send_all L writeFully flush isOpen o1 msgs"
  have IH: "prefix (written ?r) (written o1 @ frames L (map (\<lambda>(h, p). h @ p) msgs))"
    "\<not> isOpen o1 \<Longrightarrow> written ?r = written o1"
    "isOpen ?r \<Longrightarrow> written ?r = written o1 @ frames L (map (\<lambda>(h, p). h @ p) msgs)"
    using Cons.IH [of o1] by blast+
  show ?case
  proof (cases "isOpen o1")
    case True
    then have "written o1 = written out @ frame L (h @ p)" "isOpen out"
      using w(3,4) by auto
    then show ?thesis
      using IH(1,3) by (simp add: m o1)
  next
    case False
    have "\<not> isOpen ?r"
    proof
      assume "isOpen ?r"
      moreover have "isOpen (send_all L writeFully flush isOpen x ms) \<Longrightarrow> isOpen x" for x ms
      proof (induction ms arbitrary: x)
        case (Cons a ms)
        then show ?case
          using sendInternal_written(3,5) [OF law, of L x "fst a" "snd a"]
          by (cases a; cases "sendInternal L writeFully flush isOpen x (fst a) (snd a)") fastforce
      qed simp
      ultimately show False
        using False by blast
    qed
    then show ?thesis
      using False IH(2) w(5) prefix_prefix [OF w(2), of "frames L (map (\<lambda>(h, p). h @ p) msgs)"] by (simp add: m o1)
  qed
qed simp

text \<open>The receiver of the link's bytes sees a prefix of the messages sent.\<close>

lemma messages_delivered:
  assumes L: "roo_lib L" and wr: "writeFully_law writeFully flush isOpen written" and rd: "readFully_law readFully stream"
    and start: "written out = []" and mx: "mx < 4294967296" "\<forall>(h, p) \<in> set msgs. length h + length p \<le> mx"
    and link: "prefix (stream i) (written (send_all L writeFully flush isOpen out msgs))" and fuel: "length msgs < fuel"
  shows "\<exists>k \<le> length msgs. receive_messages fuel L readFully mx i = Some (map (\<lambda>(h, p). h @ p) (take k msgs))"
    and "isOpen (send_all L writeFully flush isOpen out msgs) \<Longrightarrow>
      stream i = written (send_all L writeFully flush isOpen out msgs) \<Longrightarrow>
      receive_messages fuel L readFully mx i = Some (map (\<lambda>(h, p). h @ p) msgs)"
proof -
  let ?ms = "map (\<lambda>(h, p). h @ p) msgs"
  note sent = send_all_written [OF wr, of L out msgs, unfolded start append_Nil]
  have mx': "\<forall>m \<in> set ?ms. length m \<le> mx"
    using mx(2) by auto
  have pre: "prefix (stream i) (frames L ?ms)"
    using link sent by (meson prefix_order.trans)
  obtain k where k: "k \<le> length ?ms" "receive_messages fuel L readFully mx i = Some (take k ?ms)"
    "k < length ?ms \<longrightarrow> length (stream i) < length (frames L (take (Suc k) ?ms))"
    using receive_messages_frames [OF L rd mx(1) mx' pre, of fuel] fuel by auto
  then show "\<exists>k \<le> length msgs. receive_messages fuel L readFully mx i = Some (map (\<lambda>(h, p). h @ p) (take k msgs))"
    by (auto simp: take_map)
  assume "isOpen (send_all L writeFully flush isOpen out msgs)" "stream i = written (send_all L writeFully flush isOpen out msgs)"
  then have "stream i = frames L ?ms"
    using sent by simp
  moreover have "length (frames L (take (Suc k) ?ms)) \<le> length (frames L ?ms)"
    by (metis append_take_drop_id frames_simps(3) le_add1 length_append)
  ultimately have "k = length ?ms"
    using k(1,3) by (metis le_less_linear nat_less_le not_less)
  then show "receive_messages fuel L readFully mx i = Some ?ms"
    using k(2) by simp
qed

end
