(* ===== verification/Packet_Framing.thy ===== *)
theory Packet_Framing
  imports Big_Endian
begin

text \<open>
  Packets over an unreliable byte stream (\<^verbatim>\<open>packets/over_stream\<close>): the sender adds a checksum and
  encodes the packet so that a zero byte occurs at its end only; the receiver splits the stream at
  the zeros, decodes, and checks. The COBS functions and the hash are a parameter with the laws the
  code relies on.
\<close>

section \<open>Library functions\<close>

text \<open>Both COBS functions work in place: they give whether they succeed, and the buffer.\<close>

record frame_lib =
  murmur3_32 :: "byte list \<Rightarrow> u32 \<Rightarrow> u32"
  COBS_TINYFRAME_SENTINEL_VALUE :: byte
  cobs_encode_tinyframe :: "byte list \<Rightarrow> bool \<times> byte list"
  cobs_decode_tinyframe :: "byte list \<Rightarrow> bool \<times> byte list"

definition kPacketOverStreamSeed :: u32 where
  "kPacketOverStreamSeed = 0xB45DF9DE"

section \<open>The sender\<close>

definition kMaxSenderPacketSize :: nat where
  "kMaxSenderPacketSize = 250"

record PacketSenderOverStream =
  ps_buf :: "byte list"

definition PacketSenderOverStream_new :: "byte list \<Rightarrow> PacketSenderOverStream" where
  "PacketSenderOverStream_new uninitialized = \<lparr>ps_buf = take 256 (uninitialized @ replicate 256 0)\<rparr>"

text \<open>The work buffer, and the bytes passed to \<open>out_.writeFully\<close>.\<close>

definition PacketSenderOverStream_send ::
  "lib \<Rightarrow> frame_lib \<Rightarrow> PacketSenderOverStream \<Rightarrow> byte list \<Rightarrow> (PacketSenderOverStream \<times> byte list) option" where
  "PacketSenderOverStream_send L F s buf = do {
     let len = length buf;
     CHECK (len \<le> kMaxSenderPacketSize);
     let b = (ps_buf s)[0 := COBS_TINYFRAME_SENTINEL_VALUE F];
     let b = memcpy_at b 1 buf;
     let hash = murmur3_32 F (take len (drop 1 b)) kPacketOverStreamSeed;
     let b = memcpy_at b (len + 1) (StoreBeU32 L hash);
     let b = b[len + 5 := COBS_TINYFRAME_SENTINEL_VALUE F];
     let (ok, enc) = cobs_encode_tinyframe F (take (len + 6) b);
     CHECK ok;
     let b = memcpy_at b 0 enc;
     Some (s\<lparr>ps_buf := b\<rparr>, take (len + 6) b)
   }"

section \<open>The receiver\<close>

record PacketReceiverOverStream =
  pr_buf :: "byte list"
  pr_pos :: nat
  pr_bytes_received :: nat
  pr_bytes_accepted :: nat

definition PacketReceiverOverStream_new :: "byte list \<Rightarrow> PacketReceiverOverStream" where
  "PacketReceiverOverStream_new uninitialized =
     \<lparr>pr_buf = take 256 (uninitialized @ replicate 256 0), pr_pos = 0, pr_bytes_received = 0, pr_bytes_accepted = 0\<rparr>"

text \<open>
  \<open>processPacket\<close> on the bytes of the buffer: the buffer after the call, and the packet passed to
  \<open>receiver_fn\<close> when it returns true.
\<close>

definition processPacket :: "lib \<Rightarrow> frame_lib \<Rightarrow> byte list \<Rightarrow> byte list \<times> byte list option" where
  "processPacket L F buf =
     (let size = length buf;
          (ok, buf) = cobs_decode_tinyframe F buf
      in if \<not> ok then (buf, None)
         else
           (let computed_hash = murmur3_32 F (take (size - 6) (drop 1 buf)) kPacketOverStreamSeed;
                received_hash = LoadBeU32 L (drop (size - 5) buf)
            in if computed_hash \<noteq> received_hash then (buf, None)
               else (buf, Some (take (size - 6) (drop 1 buf)))))"

definition count_accepted :: "PacketReceiverOverStream \<Rightarrow> nat \<Rightarrow> byte list option \<Rightarrow> PacketReceiverOverStream" where
  "count_accepted r n res = (case res of None \<Rightarrow> r | Some _ \<Rightarrow> r\<lparr>pr_bytes_accepted := pr_bytes_accepted r + n\<rparr>)"

text \<open>One round of the loop of \<open>processIncoming\<close> on the bytes that are left: the increment and the packet.\<close>

definition processIncoming_round ::
  "lib \<Rightarrow> frame_lib \<Rightarrow> PacketReceiverOverStream \<Rightarrow> byte list \<Rightarrow> PacketReceiverOverStream \<times> nat \<times> byte list option" where
  "processIncoming_round L F r data =
     (let increment = length (takeWhile (\<lambda>b. b \<noteq> 0) data);
          finished = (increment < length data)
      in if finished then
           (let increment = increment + 1
            in if pr_pos r + increment \<le> 256 \<and> pr_pos r + increment \<ge> 6 then
                 (if pr_pos r = 0 then
                    (let (_, res) = processPacket L F (take increment data)
                     in ((count_accepted r increment res)\<lparr>pr_pos := 0\<rparr>, increment, res))
                  else
                    (let buf = memcpy_at (pr_buf r) (pr_pos r) (take increment data);
                         size = pr_pos r + increment;
                         (decoded, res) = processPacket L F (take size buf);
                         r = r\<lparr>pr_buf := memcpy_at buf 0 decoded\<rparr>
                     in ((count_accepted r size res)\<lparr>pr_pos := 0\<rparr>, increment, res)))
               else (r\<lparr>pr_pos := 0\<rparr>, increment, None))
         else if pr_pos r + increment < 256 then
           (r\<lparr>pr_buf := memcpy_at (pr_buf r) (pr_pos r) (take increment data), pr_pos := pr_pos r + increment\<rparr>,
            increment, None)
         else (r\<lparr>pr_pos := 256\<rparr>, increment, None))"

lemma round_progress:
  "data \<noteq> [] \<Longrightarrow> processIncoming_round L F r data = (r', n, res) \<Longrightarrow> 0 < n"
  using takeWhile_eq_all_conv [of "\<lambda>b. b \<noteq> 0" data]
  by (auto simp: processIncoming_round_def Let_def split: prod.splits if_splits)

text \<open>The loop; the packets delivered, in order. The result of the function is their number.\<close>

function processIncoming_loop ::
  "lib \<Rightarrow> frame_lib \<Rightarrow> PacketReceiverOverStream \<Rightarrow> byte list \<Rightarrow> PacketReceiverOverStream \<times> byte list list" where
  "processIncoming_loop L F r data =
     (if data = [] then (r, [])
      else
        (let (r, increment, res) = processIncoming_round L F r data;
             (r, received) = processIncoming_loop L F r (drop increment data)
         in (r, (case res of None \<Rightarrow> [] | Some p \<Rightarrow> [p]) @ received)))"
  by pat_completeness auto
termination
proof (relation "measure (\<lambda>(L, F, r, data). length data)")
  fix L F r data x xa y xb ya
  assume "data \<noteq> []" "x = processIncoming_round L F r data" "(xa, y) = x" "(xb, ya) = y"
  then have "0 < xb"
    using round_progress [of data L F r xa xb ya] by simp
  then show "((L, F, xa, drop xb data), L, F, r, data) \<in> measure (\<lambda>(L, F, r, data). length data)"
    using \<open>data \<noteq> []\<close> by simp
qed simp

declare processIncoming_loop.simps [simp del]

definition processIncoming ::
  "lib \<Rightarrow> frame_lib \<Rightarrow> PacketReceiverOverStream \<Rightarrow> byte list \<Rightarrow> PacketReceiverOverStream \<times> byte list list" where
  "processIncoming L F r data =
     processIncoming_loop L F (r\<lparr>pr_bytes_received := pr_bytes_received r + length data\<rparr>) data"

text \<open>The argument is what \<open>in_.tryRead\<close> gives, at most 256 bytes.\<close>

definition PacketReceiverOverStream_tryReceive ::
  "lib \<Rightarrow> frame_lib \<Rightarrow> PacketReceiverOverStream \<Rightarrow> byte list \<Rightarrow> PacketReceiverOverStream \<times> byte list list" where
  "PacketReceiverOverStream_tryReceive L F r data = processIncoming L F r data"

text \<open>
  \<open>receive\<close> on what the successive calls of \<open>in_.read\<close> give; an empty one is the end of the
  stream. \<open>None\<close>: it is still reading.
\<close>

fun PacketReceiverOverStream_receive ::
  "lib \<Rightarrow> frame_lib \<Rightarrow> PacketReceiverOverStream \<Rightarrow> byte list list \<Rightarrow> (PacketReceiverOverStream \<times> byte list list) option" where
  "PacketReceiverOverStream_receive L F r [] = None"
| "PacketReceiverOverStream_receive L F r (data # reads) =
     (if length data = 0 then Some (r, [])
      else
        (let (r, packets) = processIncoming L F r data
         in if length packets > 0 then Some (r, packets)
            else PacketReceiverOverStream_receive L F r reads))"

section \<open>Reference: one byte at a time\<close>

datatype pending_packet = Partial "byte list" | Overflow

definition packet_of :: "lib \<Rightarrow> frame_lib \<Rightarrow> byte list \<Rightarrow> byte list list" where
  "packet_of L F bs =
     (if 6 \<le> length bs \<and> length bs \<le> 256 then (case snd (processPacket L F bs) of None \<Rightarrow> [] | Some p \<Rightarrow> [p]) else [])"

definition checked :: "lib \<Rightarrow> frame_lib \<Rightarrow> byte list \<Rightarrow> byte list \<Rightarrow> bool" where
  "checked L F bs p \<longleftrightarrow> length bs \<le> 256 \<and>
     (let (ok, dec) = cobs_decode_tinyframe F bs
      in ok \<and> p = take (length bs - 6) (drop 1 dec) \<and>
         murmur3_32 F p kPacketOverStreamSeed = LoadBeU32 L (drop (length bs - 5) dec))"

fun ref_step :: "lib \<Rightarrow> frame_lib \<Rightarrow> pending_packet \<Rightarrow> byte \<Rightarrow> pending_packet \<times> byte list list" where
  "ref_step L F (Partial bs) b =
     (if b = 0 then (Partial [], packet_of L F (bs @ [0]))
      else if length bs + 1 < 256 then (Partial (bs @ [b]), []) else (Overflow, []))"
| "ref_step L F Overflow b = (if b = 0 then (Partial [], []) else (Overflow, []))"

fun ref_run :: "lib \<Rightarrow> frame_lib \<Rightarrow> pending_packet \<Rightarrow> byte list \<Rightarrow> pending_packet \<times> byte list list" where
  "ref_run L F p [] = (p, [])"
| "ref_run L F p (b # bs) =
     (let (p, ps) = ref_step L F p b; (p, ps') = ref_run L F p bs in (p, ps @ ps'))"

text \<open>What is pending in a receiver, and its invariant.\<close>

definition pending_of :: "PacketReceiverOverStream \<Rightarrow> pending_packet" where
  "pending_of r = (if pr_pos r = 256 then Overflow else Partial (take (pr_pos r) (pr_buf r)))"

definition recv_ok :: "PacketReceiverOverStream \<Rightarrow> bool" where
  "recv_ok r \<longleftrightarrow> length (pr_buf r) = 256 \<and> pr_pos r \<le> 256"

lemma ref_run_append:
  "ref_run L F p (xs @ ys) = (let (p, ps) = ref_run L F p xs; (p, ps') = ref_run L F p ys in (p, ps @ ps'))"
  by (induction xs arbitrary: p) (auto simp: split_beta Let_def)

text \<open>Bytes without a delimiter.\<close>

lemma ref_run_overflow: "0 \<notin> set xs \<Longrightarrow> ref_run L F Overflow xs = (Overflow, [])"
  by (induction xs) auto

lemma ref_run_nonzero:
  "0 \<notin> set xs \<Longrightarrow> length bs < 256 \<Longrightarrow> ref_run L F (Partial bs) xs =
     (if length bs + length xs < 256 then Partial (bs @ xs) else Overflow, [])"
  by (induction xs arbitrary: bs) (auto simp: ref_run_overflow)

section \<open>The receiver implements the reference\<close>

lemma first_zero:
  assumes "length (takeWhile (\<lambda>b. b \<noteq> 0) data) < length (data :: byte list)"
  obtains rest where "data = takeWhile (\<lambda>b. b \<noteq> 0) data @ 0 # rest"
proof -
  let ?n = "length (takeWhile (\<lambda>b. b \<noteq> 0) data)"
  have "data ! ?n = 0"
    using nth_length_takeWhile [OF assms] by simp
  then have "data = take ?n data @ 0 # drop (Suc ?n) data"
    using assms by (metis id_take_nth_drop)
  then show ?thesis
    using that by (metis takeWhile_eq_take)
qed

lemma no_zero: "0 \<notin> set (takeWhile (\<lambda>b. b \<noteq> (0 :: byte)) data)"
  by (auto dest: set_takeWhileD)

definition packets_of :: "byte list option \<Rightarrow> byte list list" where
  "packets_of res = (case res of None \<Rightarrow> [] | Some p \<Rightarrow> [p])"

lemma round_unfinished:
  assumes ok: "recv_ok r" and data: "0 \<notin> set data" and step: "processIncoming_round L F r data = (r', n, res)"
  shows "recv_ok r'" "n = length data" "ref_run L F (pending_of r) data = (pending_of r', packets_of res)"
proof -
  have len: "length (pr_buf r) = 256" "pr_pos r \<le> 256"
    using ok by (simp_all add: recv_ok_def)
  have w: "takeWhile (\<lambda>b. b \<noteq> 0) data = data"
    using data by (auto simp: takeWhile_eq_all_conv)
  have "recv_ok r' \<and> n = length data \<and> ref_run L F (pending_of r) data = (pending_of r', packets_of res)"
  proof (cases "pr_pos r + length data < 256")
    case True
    then have r': "r' = r\<lparr>pr_buf := memcpy_at (pr_buf r) (pr_pos r) data, pr_pos := pr_pos r + length data\<rparr>"
      "n = length data" "res = None"
      using step by (auto simp: processIncoming_round_def w Let_def)
    then show ?thesis
      using True len data by (simp add: recv_ok_def pending_of_def ref_run_nonzero packets_of_def)
  next
    case False
    then have r': "r' = r\<lparr>pr_pos := 256\<rparr>" "n = length data" "res = None"
      using step by (auto simp: processIncoming_round_def w Let_def)
    then show ?thesis
      using False len data
      by (cases "pr_pos r = 256")
        (simp_all add: recv_ok_def pending_of_def ref_run_nonzero ref_run_overflow packets_of_def)
  qed
  then show "recv_ok r'" "n = length data" "ref_run L F (pending_of r) data = (pending_of r', packets_of res)"
    by blast+
qed

lemma ref_run_delimited:
  assumes "0 \<notin> set w" "length bs < 256"
  shows "ref_run L F (Partial bs) (w @ [0]) = (Partial [], packet_of L F (bs @ w @ [0]))"
  using assms by (simp add: ref_run_append ref_run_nonzero packet_of_def)

lemma round_finished:
  assumes ok: "recv_ok r" and dec: "\<And>bs. length (snd (cobs_decode_tinyframe F bs)) = length bs"
    and w: "0 \<notin> set w" and step: "processIncoming_round L F r (w @ 0 # rest) = (r', n, res)"
  shows "recv_ok r'" "n = length w + 1" "ref_run L F (pending_of r) (w @ [0]) = (pending_of r', packets_of res)"
proof -
  have len: "length (pr_buf r) = 256" "pr_pos r \<le> 256"
    using ok by (simp_all add: recv_ok_def)
  have tw: "takeWhile (\<lambda>b. b \<noteq> 0) (w @ 0 # rest) = w"
    using w by (auto simp: takeWhile_tail takeWhile_append2 intro: takeWhile_append2 [THEN trans])
  have tk: "take (length w + 1) (w @ 0 # rest) = w @ [0]"
    by simp
  let ?bs = "take (pr_pos r) (pr_buf r) @ w @ [0]"
  obtain d pk where pk: "processPacket L F ?bs = (d, pk)"
    by (metis surj_pair)
  have ld: "length d = length ?bs"
    using pk dec [of ?bs] by (auto simp: processPacket_def Let_def split: prod.splits if_splits)
  have "recv_ok r' \<and> pr_pos r' = 0 \<and> n = length w + 1 \<and>
      packets_of res = (if pr_pos r = 256 then [] else packet_of L F ?bs)"
  proof (cases "pr_pos r + (length w + 1) \<le> 256 \<and> 6 \<le> pr_pos r + (length w + 1)")
    case True
    have bs: "take (pr_pos r + (length w + 1)) (memcpy_at (pr_buf r) (pr_pos r) (w @ [0])) = ?bs"
      using take_memcpy_at [of "pr_pos r" "pr_buf r" "w @ [0]"] len by simp
    have lm: "length (memcpy_at (memcpy_at (pr_buf r) (pr_pos r) (w @ [0])) 0 d) = 256"
      using True len ld by (simp add: memcpy_at_def)
    show ?thesis
    proof (cases "pr_pos r = 0")
      case zero: True
      then show ?thesis
        using step True pk len
        by (auto simp: processIncoming_round_def tw tk Let_def count_accepted_def recv_ok_def packets_of_def packet_of_def
            split: option.splits)
    next
      case False
      then show ?thesis
        using step True pk lm len bs
        by (auto simp: processIncoming_round_def tw tk Let_def count_accepted_def recv_ok_def packets_of_def packet_of_def
            split: option.splits)
    qed
  next
    case False
    then have "r' = r\<lparr>pr_pos := 0\<rparr>" "n = length w + 1" "res = None"
      using step by (auto simp: processIncoming_round_def tw Let_def)
    then show ?thesis
      using False len by (auto simp: recv_ok_def packets_of_def packet_of_def)
  qed
  moreover have "ref_run L F (pending_of r) (w @ [0]) = (Partial [], if pr_pos r = 256 then [] else packet_of L F ?bs)"
  proof (cases "pr_pos r = 256")
    case True
    then show ?thesis
      using w by (simp add: pending_of_def ref_run_append ref_run_overflow)
  next
    case False
    then show ?thesis
      using w len ref_run_delimited [of w "take (pr_pos r) (pr_buf r)" L F] by (simp add: pending_of_def)
  qed
  ultimately show "recv_ok r'" "n = length w + 1" "ref_run L F (pending_of r) (w @ [0]) = (pending_of r', packets_of res)"
    by (simp_all add: pending_of_def)
qed

lemma processIncoming_loop_refines:
  "recv_ok r \<Longrightarrow> (\<And>bs. length (snd (cobs_decode_tinyframe F bs)) = length bs) \<Longrightarrow>
   processIncoming_loop L F r data = (r', received) \<Longrightarrow>
   recv_ok r' \<and> ref_run L F (pending_of r) data = (pending_of r', received)"
proof (induction L F r data arbitrary: r' received rule: processIncoming_loop.induct)
  case (1 L F r data)
  show ?case
  proof (cases "data = []")
    case True
    then show ?thesis
      using 1(2,4) by (simp add: processIncoming_loop.simps)
  next
    case False
    obtain r1 n res where step: "processIncoming_round L F r data = (r1, n, res)"
      by (metis prod_cases3)
    obtain r2 rec where loop: "processIncoming_loop L F r1 (drop n data) = (r2, rec)"
      by (metis surj_pair)
    have result: "r' = r2" "received = packets_of res @ rec"
      using 1(4) False step loop by (simp_all add: processIncoming_loop.simps [of L F r data] packets_of_def)
    have "recv_ok r1 \<and> ref_run L F (pending_of r) (take n data) = (pending_of r1, packets_of res)"
    proof (cases "0 \<in> set data")
      case True
      then obtain w rest where w: "data = w @ 0 # rest" "0 \<notin> set w"
        using split_list_first by fast
      note f = round_finished [OF 1(2,3) w(2) step [unfolded w(1)]]
      show ?thesis
        using f by (simp add: w(1))
    next
      case zero: False
      note u = round_unfinished [OF 1(2) zero step]
      show ?thesis
        using u by simp
    qed
    then show ?thesis
      using 1(1) [OF False step [symmetric] refl refl _ 1(3) loop] result
        ref_run_append [of L F "pending_of r" "take n data" "drop n data"] by simp
  qed
qed

section \<open>Laws of the coding\<close>

text \<open>
  A frame of \<open>n\<close> bytes has \<open>n - 2\<close> bytes of contents between two sentinels. Encoding succeeds for
  every contents of at most 254 bytes and produces a zero in the last place only; decoding gives
  the contents back.
\<close>

locale packet_coding = roo_lib +
  fixes F :: frame_lib
  assumes decode_length: "length (snd (cobs_decode_tinyframe F bs)) = length bs"
    and encode_frame: "length cs \<le> 254 \<Longrightarrow>
      \<exists>e. cobs_encode_tinyframe F (COBS_TINYFRAME_SENTINEL_VALUE F # cs @ [COBS_TINYFRAME_SENTINEL_VALUE F]) = (True, e @ [0])
        \<and> 0 \<notin> set e \<and> length e = length cs + 1
        \<and> (\<exists>a b. cobs_decode_tinyframe F (e @ [0]) = (True, a # cs @ [b]))"
begin

lemma processIncoming_refines:
  assumes "recv_ok r" "processIncoming L F r data = (r', received)"
  shows "recv_ok r'" "ref_run L F (pending_of r) data = (pending_of r', received)"
proof -
  let ?r = "r\<lparr>pr_bytes_received := pr_bytes_received r + length data\<rparr>"
  have "recv_ok ?r" "pending_of ?r = pending_of r"
    using assms(1) by (simp_all add: recv_ok_def pending_of_def)
  then show "recv_ok r'" "ref_run L F (pending_of r) data = (pending_of r', received)"
    using processIncoming_loop_refines [of ?r F L data r' received] decode_length assms(2)
    by (simp_all add: processIncoming_def)
qed

lemma send_frame:
  assumes len: "length buf \<le> 250" and s: "length (ps_buf s) = 256"
  shows "\<exists>s' e. PacketSenderOverStream_send L F s buf = Some (s', e @ [0]) \<and> length (ps_buf s') = 256 \<and> 0 \<notin> set e
    \<and> 5 \<le> length e \<and> length e \<le> 255 \<and> packet_of L F (e @ [0]) = [buf]"
proof -
  let ?S = "COBS_TINYFRAME_SENTINEL_VALUE F"
  let ?h = "StoreBeU32 L (murmur3_32 F buf kPacketOverStreamSeed)"
  have h4: "length ?h = 4"
    by (rule length_StoreBeU32)
  obtain b0 bs where buf0: "ps_buf s = b0 # bs" "length bs = 255"
    using s by (cases "ps_buf s") auto
  define b1 where "b1 = memcpy_at ((ps_buf s)[0 := ?S]) 1 buf"
  have b1: "b1 = ?S # buf @ drop (length buf) bs"
    by (simp add: b1_def memcpy_at_def buf0)
  define b2 where "b2 = memcpy_at b1 (length buf + 1) ?h"
  have b2: "b2 = ?S # buf @ ?h @ drop (length buf + 4) bs"
    using h4 by (simp add: b2_def memcpy_at_def b1 drop_Cons' add.commute)
  define b3 where "b3 = b2[length buf + 5 := ?S]"
  have b3: "b3 = ?S # buf @ ?h @ [?S] @ drop (length buf + 5) bs"
  proof -
    have "drop (length buf + 4) bs = bs ! (length buf + 4) # drop (length buf + 5) bs"
      using len buf0(2) Cons_nth_drop_Suc [of "length buf + 4" bs] by (simp add: add.commute)
    then have "b2 = (?S # buf @ ?h) @ bs ! (length buf + 4) # drop (length buf + 5) bs"
      by (simp add: b2)
    moreover have "length buf + 5 = length (?S # buf @ ?h)"
      using h4 by simp
    ultimately show ?thesis
      unfolding b3_def by (simp only: list_update_length) simp
  qed
  let ?cs = "buf @ ?h"
  have "b3 = (?S # ?cs @ [?S]) @ drop (length buf + 5) bs" "length buf + 6 = length (?S # ?cs @ [?S])"
    using h4 by (simp_all add: b3)
  then have t: "take (length buf + 6) b3 = ?S # ?cs @ [?S]"
    by (metis append_eq_conv_conj)
  have "length ?cs \<le> 254"
    using len h4 by simp
  from encode_frame [OF this] obtain e a b where e: "cobs_encode_tinyframe F (?S # ?cs @ [?S]) = (True, e @ [0])"
    "0 \<notin> set e" "length e = length ?cs + 1" "cobs_decode_tinyframe F (e @ [0]) = (True, a # ?cs @ [b])"
    by blast
  have le: "length (e @ [0]) = length buf + 6"
    using e(3) h4 by simp
  have "PacketSenderOverStream_send L F s buf = Some (s\<lparr>ps_buf := memcpy_at b3 0 (e @ [0])\<rparr>, take (length buf + 6) (memcpy_at b3 0 (e @ [0])))"
  proof -
    have h: "take (length buf) (drop 1 b1) = buf"
      by (simp add: b1)
    have "length buf \<le> kMaxSenderPacketSize"
      using len by (simp add: kMaxSenderPacketSize_def)
    then show ?thesis
      unfolding PacketSenderOverStream_send_def Let_def b1_def [symmetric] h b2_def [symmetric] b3_def [symmetric] t e(1)
      by simp
  qed
  moreover have "take (length buf + 6) (memcpy_at b3 0 (e @ [0])) = e @ [0]"
    using le by (simp add: memcpy_at_def)
  moreover have "length (memcpy_at b3 0 (e @ [0])) = 256"
    using le len h4 buf0(2) by (simp add: memcpy_at_def b3)
  moreover have "packet_of L F (e @ [0]) = [buf]"
    using le len h4 load_store_32 [of "murmur3_32 F buf kPacketOverStreamSeed" "[b]"]
    by (simp add: packet_of_def processPacket_def e(4))
  ultimately show ?thesis
    using e(2,3) len h4 by (intro exI conjI) auto
qed

end

text \<open>The bytes of the packets sent one after the other.\<close>

fun send_packets ::
  "lib \<Rightarrow> frame_lib \<Rightarrow> PacketSenderOverStream \<Rightarrow> byte list list \<Rightarrow> (PacketSenderOverStream \<times> byte list) option" where
  "send_packets L F s [] = Some (s, [])"
| "send_packets L F s (p # ps) = do {
     (s, bs) \<leftarrow> PacketSenderOverStream_send L F s p;
     (s, bs') \<leftarrow> send_packets L F s ps;
     Some (s, bs @ bs')
   }"

text \<open>The receiver on a sequence of reads.\<close>

fun receive_reads ::
  "lib \<Rightarrow> frame_lib \<Rightarrow> PacketReceiverOverStream \<Rightarrow> byte list list \<Rightarrow> PacketReceiverOverStream \<times> byte list list" where
  "receive_reads L F r [] = (r, [])"
| "receive_reads L F r (data # reads) =
     (let (r, ps) = PacketReceiverOverStream_tryReceive L F r data;
          (r, ps') = receive_reads L F r reads
      in (r, ps @ ps'))"

context packet_coding
begin

text \<open>How the stream is cut into reads makes no difference.\<close>

lemma receive_reads_refines:
  assumes "recv_ok r" "receive_reads L F r reads = (r', received)"
  shows "recv_ok r' \<and> ref_run L F (pending_of r) (concat reads) = (pending_of r', received)"
  using assms
proof (induction reads arbitrary: r r' received)
  case (Cons data reads)
  obtain r1 ps where 1: "processIncoming L F r data = (r1, ps)"
    by (metis surj_pair)
  obtain r2 ps' where 2: "receive_reads L F r1 reads = (r2, ps')"
    by (metis surj_pair)
  note p = processIncoming_refines [OF Cons.prems(1) 1]
  show ?case
    using Cons.prems(2) Cons.IH [OF p(1) 2] p(2) 1 2
    by (simp add: PacketReceiverOverStream_tryReceive_def ref_run_append)
qed simp

text \<open>A delimiter brings the receiver back in step, whatever came before it.\<close>

lemma ref_run_resync: "fst (ref_run L F p (garbage @ [0])) = Partial []"
proof -
  obtain q ps where "ref_run L F p garbage = (q, ps)"
    by (metis surj_pair)
  then show ?thesis
    by (cases q) (simp_all add: ref_run_append)
qed

lemma send_packets_received:
  assumes "\<forall>p \<in> set ps. length p \<le> 250" "length (ps_buf s) = 256"
  shows "\<exists>s' bs. send_packets L F s ps = Some (s', bs) \<and> ref_run L F (Partial []) bs = (Partial [], ps)"
  using assms
proof (induction ps arbitrary: s)
  case (Cons p ps)
  obtain s1 e where 1: "PacketSenderOverStream_send L F s p = Some (s1, e @ [0])" "length (ps_buf s1) = 256" "0 \<notin> set e"
    "packet_of L F (e @ [0]) = [p]"
    using send_frame [of p s] Cons.prems by auto
  obtain s2 bs where 2: "send_packets L F s1 ps = Some (s2, bs)" "ref_run L F (Partial []) bs = (Partial [], ps)"
    using Cons.IH [of s1] Cons.prems(1) 1(2) by auto
  have "ref_run L F (Partial []) ((e @ [0]) @ bs) = (Partial [], p # ps)"
    using ref_run_delimited [OF 1(3), of "[]" L F] 1(4) 2(2) by (simp only: ref_run_append) simp
  then show ?case
    using 1(1) 2(1) by simp
qed simp

text \<open>
  The whole way: after arbitrary bytes up to a delimiter, everything that is sent is received,
  once, in order, however the stream is cut into reads.
\<close>

lemma packets_received:
  assumes ps: "\<forall>p \<in> set ps. length p \<le> 250" and s: "length (ps_buf s) = 256" and r: "recv_ok r"
  shows "\<exists>s' bs. send_packets L F s ps = Some (s', bs) \<and>
    (\<forall>garbage reads. concat reads = garbage @ [0] @ bs \<longrightarrow>
       (\<exists>r' junk. receive_reads L F r reads = (r', junk @ ps) \<and> junk = snd (ref_run L F (pending_of r) (garbage @ [0]))))"
proof -
  obtain s' bs where bs: "send_packets L F s ps = Some (s', bs)" "ref_run L F (Partial []) bs = (Partial [], ps)"
    using send_packets_received [OF ps s] by blast
  have "\<exists>r' junk. receive_reads L F r reads = (r', junk @ ps) \<and> junk = snd (ref_run L F (pending_of r) (garbage @ [0]))"
    if "concat reads = garbage @ [0] @ bs" for garbage reads
  proof -
    obtain r' received where rr: "receive_reads L F r reads = (r', received)"
      by (metis surj_pair)
    have "ref_run L F (pending_of r) ((garbage @ [0]) @ bs) = (pending_of r', received)"
      using receive_reads_refines [OF r rr] that by simp
    moreover obtain junk where "ref_run L F (pending_of r) (garbage @ [0]) = (Partial [], junk)"
      using ref_run_resync [of "pending_of r" garbage] by (metis prod.collapse)
    ultimately show ?thesis
      using bs(2) rr by (simp only: ref_run_append [of _ _ _ "garbage @ [0]"]) simp
  qed
  then show ?thesis
    using bs(1) by blast
qed

text \<open>Nothing is delivered whose checksum does not match, and nothing longer than 250 bytes.\<close>

lemma packet_of_Some:
  assumes "p \<in> set (packet_of L F bs)"
  shows "length bs \<le> 256 \<and> snd (processPacket L F bs) = Some p"
proof (cases "6 \<le> length bs \<and> length bs \<le> 256")
  case True
  then show ?thesis
    using assms unfolding packet_of_def
    by (cases "snd (processPacket L F bs)")
      (simp_all only: if_True option.case list.set simp_thms empty_iff insert_iff)
next
  case False
  then show ?thesis
    using assms unfolding packet_of_def by (simp only: if_False list.set empty_iff)
qed

lemma packet_of_checked:
  assumes "p \<in> set (packet_of L F bs)"
  shows "checked L F bs p"
proof -
  obtain ok dec where "cobs_decode_tinyframe F bs = (ok, dec)"
    by (metis surj_pair)
  moreover have "length bs \<le> 256" "snd (processPacket L F bs) = Some p"
    using packet_of_Some [OF assms] by blast+
  ultimately show ?thesis
    unfolding checked_def processPacket_def Let_def by (auto split: if_split_asm)
qed

lemma ref_step_checked:
  assumes "p \<in> set (snd (ref_step L F q b))"
  shows "\<exists>bs. checked L F bs p"
  using assms by (cases q) (auto dest: packet_of_checked split: if_split_asm)

lemma delivered_checked:
  assumes "p \<in> set (snd (ref_run L F q data))"
  shows "\<exists>bs. checked L F bs p"
  using assms
proof (induction data arbitrary: q)
  case (Cons b data)
  then have "p \<in> set (snd (ref_step L F q b)) \<or> p \<in> set (snd (ref_run L F (fst (ref_step L F q b)) data))"
    by (auto simp: split_beta)
  then show ?case
    using ref_step_checked Cons.IH by blast
qed simp

end

section \<open>An instance\<close>

text \<open>Consistent overhead byte stuffing of short frames.\<close>

function cobs_blocks :: "byte list \<Rightarrow> byte list" where
  "cobs_blocks xs =
     (let b = takeWhile (\<lambda>x. x \<noteq> 0) xs; r = dropWhile (\<lambda>x. x \<noteq> 0) xs
      in of_nat (length b + 1) # b @ (if r = [] then [] else cobs_blocks (tl r)))"
  by pat_completeness auto
termination
proof (relation "measure length")
  fix xs b r :: "byte list"
  assume "r = dropWhile (\<lambda>x. x \<noteq> 0) xs" "r \<noteq> []"
  then have "length (tl r) < length r" "length r \<le> length xs"
    by (simp_all add: length_dropWhile_le)
  then show "(tl r, xs) \<in> measure length"
    by simp
qed simp

declare cobs_blocks.simps [simp del]

fun cobs_unblocks :: "nat \<Rightarrow> byte list \<Rightarrow> byte list option" where
  "cobs_unblocks 0 ys = None"
| "cobs_unblocks (Suc fuel) [] = None"
| "cobs_unblocks (Suc fuel) (c # ys) =
     (let n = unat c - 1; b = take n ys; r = drop n ys
      in if c = 0 \<or> length b < n then None
         else if r = [] then Some b
         else map_option (\<lambda>m. b @ 0 # m) (cobs_unblocks fuel r))"

definition cobs_frame :: frame_lib where
  "cobs_frame = \<lparr>murmur3_32 = (\<lambda>bs seed. foldl (\<lambda>h b. h * 31 + ucast b) seed bs), COBS_TINYFRAME_SENTINEL_VALUE = 0x5A,
     cobs_encode_tinyframe = (\<lambda>bs. (True, cobs_blocks (butlast (tl bs)) @ [0])),
     cobs_decode_tinyframe = (\<lambda>bs.
       case cobs_unblocks 256 (butlast bs) of
         Some cs \<Rightarrow> if length cs + 2 = length bs then (True, 0x5A # cs @ [0x5A]) else (False, bs)
       | None \<Rightarrow> (False, bs))\<rparr>"

lemma cobs_blocks_props:
  "length xs \<le> 254 \<Longrightarrow> length (cobs_blocks xs) = length xs + 1 \<and> 0 \<notin> set (cobs_blocks xs)
     \<and> (\<forall>fuel. length xs < fuel \<longrightarrow> cobs_unblocks fuel (cobs_blocks xs) = Some xs)"
proof (induction xs rule: cobs_blocks.induct)
  case (1 xs)
  let ?b = "takeWhile (\<lambda>x. x \<noteq> 0) xs"
  let ?r = "dropWhile (\<lambda>x. x \<noteq> 0) xs"
  have xs: "xs = ?b @ ?r" "length xs = length ?b + length ?r"
    by (simp, metis length_append takeWhile_dropWhile_id)
  have b0: "0 \<notin> set ?b"
    by (auto dest: set_takeWhileD)
  have c: "unat (of_nat (length ?b + 1) :: byte) = length ?b + 1"
    using 1(2) xs(2) by (simp only: unsigned_of_nat) (simp add: take_bit_nat_eq_self)
  then have c0: "(of_nat (length ?b + 1) :: byte) \<noteq> 0"
    by (metis add_is_0 one_neq_zero unat_0)
  show ?case
  proof (cases "?r = []")
    case True
    have eq: "cobs_blocks xs = of_nat (length ?b + 1) # ?b"
      using True by (subst cobs_blocks.simps) (simp add: Let_def)
    have b: "?b = xs"
      using xs(1) True by simp
    show ?thesis
    proof (intro conjI allI impI)
      fix fuel assume "length xs < fuel"
      then obtain f where "fuel = Suc f"
        by (cases fuel) auto
      then show "cobs_unblocks fuel (cobs_blocks xs) = Some xs"
        using c c0 unfolding eq b by (simp del: of_nat_add of_nat_Suc)
    qed (use c0 b0 in \<open>auto simp: eq b\<close>)
  next
    case False
    then obtain r' where r': "?r = 0 # r'"
      using hd_dropWhile [OF False] by (cases ?r) simp_all
    have eq: "cobs_blocks xs = of_nat (length ?b + 1) # ?b @ cobs_blocks r'"
      using r' by (subst cobs_blocks.simps) (simp add: Let_def)
    have IH: "length (cobs_blocks r') = length r' + 1" "0 \<notin> set (cobs_blocks r')"
      "\<And>fuel. length r' < fuel \<Longrightarrow> cobs_unblocks fuel (cobs_blocks r') = Some r'"
      using 1(1) [OF refl refl False] 1(2) r' xs(2) by simp_all
    show ?thesis
    proof (intro conjI allI impI)
      fix fuel assume "length xs < fuel"
      then obtain f where f: "fuel = Suc f" "length r' < f"
        using xs(2) r' by (cases fuel) auto
      have "cobs_blocks r' \<noteq> []"
        using IH(1) by auto
      then show "cobs_unblocks fuel (cobs_blocks xs) = Some xs"
        using c c0 IH(3) [OF f(2)] xs(1) r' unfolding eq f(1) by (simp del: of_nat_add of_nat_Suc)
    qed (use c0 b0 IH xs(2) r' in \<open>auto simp: eq\<close>)
  qed
qed

interpretation cobs: packet_coding be_lib cobs_frame
proof unfold_locales
  show "length (snd (cobs_decode_tinyframe cobs_frame bs)) = length bs" for bs
    by (simp add: cobs_frame_def split: option.split)
next
  fix cs :: "byte list" assume len: "length cs \<le> 254"
  note p = cobs_blocks_props [OF len]
  have "cobs_unblocks 256 (cobs_blocks cs) = Some cs"
    using p len by simp
  then show "\<exists>e. cobs_encode_tinyframe cobs_frame
      (COBS_TINYFRAME_SENTINEL_VALUE cobs_frame # cs @ [COBS_TINYFRAME_SENTINEL_VALUE cobs_frame]) = (True, e @ [0])
        \<and> 0 \<notin> set e \<and> length e = length cs + 1
        \<and> (\<exists>a b. cobs_decode_tinyframe cobs_frame (e @ [0]) = (True, a # cs @ [b]))"
    using p by (intro exI [of _ "cobs_blocks cs"]) (simp add: cobs_frame_def)
qed

end
