(* ===== verification/Demo_Rpc.thy ===== *)
theory Demo_Rpc
  imports Rpc_Session Link_Messaging Packet_Framing
begin

text \<open>
  Runs of the RPC client and server, a message stream and a packet stream, as executable
  functions that take the steps of the step relations.
\<close>

text \<open>Variable-length integers are evaluated digit by digit.\<close>

lemma varint_numeral [simp]:
  "varint (numeral k) n = (if n < 128 then [of_nat n] else of_nat (n mod 128 + 128) # varint (pred_numeral k) (n div 128))"
  by (simp only: numeral_eq_Suc varint.simps)

lemma read_varint_numeral [simp]:
  "read_varint (numeral k) (b # bs) =
     (if unat b < 128 then Some (unat b, bs)
      else case read_varint (pred_numeral k) bs of None \<Rightarrow> None | Some (n, bs) \<Rightarrow> Some (unat b - 128 + 128 * n, bs))"
  by (simp only: numeral_eq_Suc read_varint.simps)

section \<open>The client\<close>

definition client_submit :: "client_sys \<Rightarrow> cb_ref \<Rightarrow> client_sys" where
  "client_submit s cb =
     (let (c1, call) = OutgoingCall_make (cs_client s) cb;
          (c2, stream_id) = new_stream c1 call
      in s\<lparr>cs_client := c2, cs_senders := (cs_senders s)(call \<mapsto> Sending stream_id),
           cs_log := cs_log s @ [Ev_send call stream_id]\<rparr>)"

definition client_sent :: "client_sys \<Rightarrow> call_ref \<Rightarrow> client_sys" where
  "client_sent s call =
     (case cs_senders s call of
        Some (Sending _) \<Rightarrow> s\<lparr>cs_senders := (cs_senders s)(call := None), cs_log := cs_log s @ [Ev_return call kOk]\<rparr>
      | _ \<Rightarrow> s)"

definition client_respond :: "io_lib \<Rightarrow> client_sys \<Rightarrow> byte list \<Rightarrow> client_sys" where
  "client_respond IO s data =
     (case handleResponse_claim IO (cs_client s) data of
        None \<Rightarrow> s
      | Some (c, claimed) \<Rightarrow> s\<lparr>cs_client := c, cs_claimed := cs_claimed s @ (case claimed of None \<Rightarrow> [] | Some x \<Rightarrow> [x])\<rparr>)"

definition client_finish :: "client_sys \<Rightarrow> client_sys" where
  "client_finish s =
     (case cs_claimed s of
        [] \<Rightarrow> s
      | (call, data, status) # ys \<Rightarrow>
          (let (c, events) = RpcClient_complete (cs_client s) call data status
           in s\<lparr>cs_client := c, cs_claimed := ys, cs_log := cs_log s @ map (\<lambda>(cb, d, st). Ev_callback call d st) events\<rparr>))"

lemma client_reachable_start: "client_reachable IO client_start"
  by (simp add: client_reachable_def)

lemma client_reachable_step: "client_reachable IO s \<Longrightarrow> client_step IO s s' \<Longrightarrow> client_reachable IO s'"
  by (simp add: client_reachable_def)

lemma client_reachable_submit: "client_reachable IO s \<Longrightarrow> client_reachable IO (client_submit s cb)"
proof (erule client_reachable_step)
  obtain c1 call where 1: "OutgoingCall_make (cs_client s) cb = (c1, call)"
    by (metis surj_pair)
  obtain c2 i where 2: "new_stream c1 call = (c2, i)"
    by (metis surj_pair)
  show "client_step IO s (client_submit s cb)"
    using client_step.submit [OF 1 2] by (simp add: client_submit_def 1 2)
qed

lemma client_reachable_sent: "client_reachable IO s \<Longrightarrow> client_reachable IO (client_sent s call)"
  by (cases "cs_senders s call"; cases "the (cs_senders s call)")
    (simp_all add: client_sent_def client_reachable_step [OF _ client_step.send_ok])

lemma client_reachable_respond: "client_reachable IO s \<Longrightarrow> client_reachable IO (client_respond IO s data)"
proof (cases "handleResponse_claim IO (cs_client s) data")
  case (Some x)
  obtain c claimed where x: "x = (c, claimed)"
    by (metis surj_pair)
  assume "client_reachable IO s"
  then show ?thesis
    using client_step.response [OF Some [unfolded x]] by (simp add: client_respond_def Some x client_reachable_step)
qed (simp add: client_respond_def)

lemma client_reachable_finish: "client_reachable IO s \<Longrightarrow> client_reachable IO (client_finish s)"
proof (cases "cs_claimed s")
  case (Cons x ys)
  obtain call data status where x: "x = (call, data, status)"
    by (metis prod_cases3)
  obtain c events where c: "RpcClient_complete (cs_client s) call data status = (c, events)"
    by (metis surj_pair)
  assume "client_reachable IO s"
  then show ?thesis
    using client_step.finish [of s "[]" call data status ys c events IO] Cons x c
    by (simp add: client_finish_def client_reachable_step)
qed (simp add: client_finish_def)

lemmas client_reachable_run = client_reachable_start client_reachable_submit client_reachable_sent
  client_reachable_respond client_reachable_finish

text \<open>Two calls; the second one gets its response, the first one is still waiting.\<close>

definition demo_client :: client_sys where
  "demo_client =
     client_finish (client_respond be_io
       (client_sent (client_submit (client_sent (client_submit client_start 10) 0) 11) 1) [4, 0, 0, 2, 0, 9])"

lemma demo_client_reachable: "client_reachable be_io demo_client"
  unfolding demo_client_def by (intro client_reachable_run)

section \<open>The server\<close>

definition server_request :: "lib \<Rightarrow> io_lib \<Rightarrow> server_sys \<Rightarrow> byte list \<Rightarrow> uptime \<Rightarrow> server_sys" where
  "server_request L IO s data now =
     (case handleRequest_admit L IO (ss_server s) (rs_connection_id (ss_server s)) data now of
        None \<Rightarrow> s
      | Some (s', e, admitted) \<Rightarrow>
          s\<lparr>ss_server := s',
            ss_dispatching := ss_dispatching s @ (case admitted of None \<Rightarrow> [] | Some x \<Rightarrow> [x]),
            ss_log := ss_log s @ (case admitted of None \<Rightarrow> []
              | Some (r, _) \<Rightarrow> [Ev_accept (rs_connection_id (ss_server s)) (rq_stream_id r)])\<rparr>)"

definition server_reply :: "io_lib \<Rightarrow> server_sys \<Rightarrow> RequestHandle \<Rightarrow> reply \<Rightarrow> uptime \<Rightarrow> server_sys" where
  "server_reply IO s h r now =
     (case RequestHandle_reply IO (ss_server s) h r now of
        None \<Rightarrow> s
      | Some (s', e) \<Rightarrow>
          s\<lparr>ss_server := s',
            ss_log := ss_log s @ response_events (ss_server s) (rh_connection_id h) (rh_stream_id h) (reply_status r) now\<rparr>)"

definition server_connect :: "server_sys \<Rightarrow> ConnectionId \<Rightarrow> server_sys" where
  "server_connect s c =
     (if c = rs_connection_id (ss_server s) then s
      else s\<lparr>ss_server := fst (RpcServer_reconnected (ss_server s) c), ss_log := ss_log s @ [Ev_clear]\<rparr>)"

definition server_begin :: "server_sys \<Rightarrow> server_sys" where
  "server_begin s = s\<lparr>ss_server := fst (RpcServer_begin (ss_server s) Messaging_new 0)\<rparr>"

lemma server_reachable_start: "server_reachable L IO handlers (server_start handlers)"
  by (simp add: server_reachable_def)

lemma server_reachable_step:
  "server_reachable L IO handlers s \<Longrightarrow> server_step L IO s s' \<Longrightarrow> server_reachable L IO handlers s'"
  by (simp add: server_reachable_def)

lemma server_reachable_request:
  "server_reachable L IO handlers s \<Longrightarrow> server_reachable L IO handlers (server_request L IO s data now)"
proof (cases "handleRequest_admit L IO (ss_server s) (rs_connection_id (ss_server s)) data now")
  case (Some x)
  obtain s' e admitted where x: "x = (s', e, admitted)"
    by (metis prod_cases3)
  assume "server_reachable L IO handlers s"
  then show ?thesis
    using server_step.request [OF Some [unfolded x] refl] by (simp add: server_request_def Some x server_reachable_step)
qed (simp add: server_request_def)

lemma server_reachable_reply:
  "server_reachable L IO handlers s \<Longrightarrow> server_reachable L IO handlers (server_reply IO s h r now)"
proof (cases "RequestHandle_reply IO (ss_server s) h r now")
  case (Some x)
  obtain s' e where x: "x = (s', e)"
    by (metis surj_pair)
  assume "server_reachable L IO handlers s"
  then show ?thesis
    using server_step.reply [OF Some [unfolded x]] by (simp add: server_reply_def Some x server_reachable_step)
qed (simp add: server_reply_def)

lemma server_reachable_connect:
  "server_reachable L IO handlers s \<Longrightarrow> server_reachable L IO handlers (server_connect s c)"
  using server_step.reconnect [of s c "fst (RpcServer_reconnected (ss_server s) c)" "snd (RpcServer_reconnected (ss_server s) c)"]
  by (simp add: server_connect_def server_reachable_step)

lemma server_reachable_begin:
  "server_reachable L IO handlers s \<Longrightarrow> server_reachable L IO handlers (server_begin s)"
  using server_step.begin_ [of s Messaging_new 0 "fst (RpcServer_begin (ss_server s) Messaging_new 0)"
    "snd (RpcServer_begin (ss_server s) Messaging_new 0)"]
  by (simp add: server_begin_def server_reachable_step)

lemmas server_reachable_run = server_reachable_start server_reachable_request server_reachable_reply
  server_reachable_connect server_reachable_begin

text \<open>
  A connection on which two requests with a deadline of one second arrive: the first one is
  answered after half a second, the second one after two.
\<close>

definition demo_server :: server_sys where
  "demo_server =
     server_reply be_io
       (server_reply be_io
         (server_request be_lib be_io
           (server_request be_lib be_io
             (server_connect (server_begin (server_start [7 \<mapsto> 0])) 5)
             [0x0F, 0, 0, 1, 7, 0xE8, 7] 0)
           [0x0F, 0, 0, 2, 7, 0xE8, 7] 0)
         \<lparr>rh_connection_id = 5, rh_stream_id = 1\<rparr> (Success [9] True) 500000)
       \<lparr>rh_connection_id = 5, rh_stream_id = 2\<rparr> (Success [9] True) 2000000"

lemma demo_server_reachable: "server_reachable be_lib be_io [7 \<mapsto> 0] demo_server"
  unfolding demo_server_def by (intro server_reachable_run)

lemma demo_headers:
  "RpcHeader_deserialize be_io RpcHeader_new [0x0F, 0, 0, 1, 7, 0xE8, 7] = (7, NewUnaryRequest_timeout 7 1 1000)"
  "RpcHeader_deserialize be_io RpcHeader_new [0x0F, 0, 0, 2, 7, 0xE8, 7] = (7, NewUnaryRequest_timeout 7 2 1000)"
  by (simp_all add: RpcHeader_deserialize_def be_io_def RpcHeader_new_def NewUnaryRequest_timeout_def)

lemmas demo_server_simps = server_start_def server_begin_def server_connect_def server_request_def server_reply_def
  RpcServer_new_def RpcServer_begin_def RpcServer_reconnected_def handleRequest_admit_def demo_headers
  NewUnaryRequest_timeout_def functionId_def timeoutMs_def RpcRequest_new_def RequestHandle_reply_def
  RequestHandle_sendSuccessResponse_def server_sendSuccessResponse_def prepForResponse_def
  sendResponse_total [OF beio.rpc_io_axioms] response_events_def reply_status_def Let_def

lemma demo_server_log:
  "ss_log demo_server = [Ev_clear, Ev_accept 5 1, Ev_accept 5 2, Ev_response 5 1 kOk 500000 1000000,
      Ev_response 5 2 kDeadlineExceeded 2000000 1000000]"
  by (simp add: demo_server_def demo_server_simps)

end
