(* ===== verification/Pico_Dma.thy ===== *)
theory Pico_Dma
  imports Transport_Prelude "HOL-Library.Sublist"
begin

text \<open>
  The UART driver of the RP2040 (\<^verbatim>\<open>link/pico/reliable_uart_dma.{h,cpp}\<close>): two byte rings, one filled
  and one emptied by the DMA controller. Hardware registers are readings passed as arguments, and
  what the driver asks of the hardware is an effect. Positions in the rings are 32-bit counters
  that wrap around.
\<close>

section \<open>State\<close>

definition kRingSize :: nat where
  "kRingSize = 8192"

definition kRingMask :: u32 where
  "kRingMask = 8191"

text \<open>The value of the normal build.\<close>

definition kRxTransferCount :: u32 where
  "kRxTransferCount = 0xFFFFFFFF"

record UartDma =
  ud_tx_buffer :: "byte list"
  ud_irq_core :: nat
  ud_rx_base :: u32
  ud_rx_consumed :: u32
  ud_tx_head :: u32
  ud_tx_tail :: u32
  ud_tx_inflight :: u32
  ud_overruns :: u32
  ud_receive_errors :: u32
  ud_running :: bool
  ud_started :: bool
  ud_closed :: bool

datatype dma_effect = Start_rx u32 | Start_tx u32 u32 | Abort_tx | Abort_rx
  | Add_irq_handler | Remove_irq_handler | Wait_uart

text \<open>
  The constructor, on the index of the UART, the address of the receive buffer, the cores of the
  two instances that may exist already, and the contents of fresh memory.
\<close>

definition UartDma_new ::
  "nat \<Rightarrow> u32 \<Rightarrow> nat option list \<Rightarrow> nat \<Rightarrow> byte list \<Rightarrow> (UartDma \<times> nat option list \<times> dma_effect list) option" where
  "UartDma_new uart rx_buffer instances core uninitialized = do {
     CHECK (uart = 0 \<or> uart = 1);
     CHECK (rx_buffer \<noteq> 0);
     CHECK (rx_buffer AND kRingMask = 0);
     CHECK (instances ! uart = None);
     CHECK (\<forall>i \<in> set instances. i = None \<or> i = Some core);
     let install = (instances ! 0 = None \<and> instances ! 1 = None);
     Some (\<lparr>ud_tx_buffer = take kRingSize (uninitialized @ replicate kRingSize 0), ud_irq_core = core, ud_rx_base = 0,
            ud_rx_consumed = 0, ud_tx_head = 0, ud_tx_tail = 0, ud_tx_inflight = 0, ud_overruns = 0,
            ud_receive_errors = 0, ud_running = False, ud_started = False, ud_closed = False\<rparr>,
           instances[uart := Some core],
           Start_rx kRxTransferCount # (if install then [Add_irq_handler] else []))
   }"

text \<open>
  \<open>begin\<close>, apart from starting the sender thread of the link and the receive thread, whose passes are
  \<open>Channel_sendLoop_pass\<close> and \<open>UartDma_receive_pass\<close>.
\<close>

definition UartDma_begin :: "UartDma \<Rightarrow> UartDma option" where
  "UartDma_begin d = do {
     CHECK (\<not> ud_started d \<and> \<not> ud_closed d);
     Some (d\<lparr>ud_started := True, ud_running := True\<rparr>)
   }"

section \<open>Receiving\<close>

text \<open>
  \<open>produced\<close>: the transfer count as first read, as sampled before the abort, the write address
  after the abort, and the count as read at the end.
\<close>

definition produced :: "UartDma \<Rightarrow> u32 \<Rightarrow> u32 \<Rightarrow> u32 \<Rightarrow> u32 \<Rightarrow> u32 \<Rightarrow> UartDma \<times> u32 \<times> dma_effect list" where
  "produced d rx_buffer remaining sampled write_addr remaining' =
     (if remaining < of_nat kRingSize then
        (let estimate = ud_rx_base d + kRxTransferCount - sampled;
             offset = (write_addr - rx_buffer) AND kRingMask;
             advance = (offset - estimate) AND kRingMask;
             advance = (if advance > of_nat (kRingSize div 2) then advance - of_nat kRingSize else advance);
             d = d\<lparr>ud_rx_base := estimate + advance\<rparr>
         in (d, ud_rx_base d + kRxTransferCount - remaining', [Abort_rx, Start_rx kRxTransferCount]))
      else (d, ud_rx_base d + kRxTransferCount - remaining, []))"

text \<open>
  \<open>readAvailable\<close> after the call of \<open>produced\<close>, whose result is \<open>p\<close>: the contents of the ring
  while it is copied, and the error register of the UART.
\<close>

definition readAvailable :: "UartDma \<Rightarrow> u32 \<Rightarrow> byte list \<Rightarrow> nat \<Rightarrow> u32 \<Rightarrow> UartDma \<times> byte list" where
  "readAvailable d p rx_ring count rsr =
     (if count = 0 then (d, [])
      else
        (let pending = p - ud_rx_consumed d;
             (d, pending) =
               (if pending > of_nat kRingSize
                then (d\<lparr>ud_overruns := ud_overruns d + 1,
                        ud_rx_consumed := ud_rx_consumed d + (pending - of_nat kRingSize)\<rparr>, of_nat kRingSize)
                else (d, pending));
             count = min count (unat pending);
             offset = unat (ud_rx_consumed d AND kRingMask);
             first = min count (kRingSize - offset);
             bytes = take first (drop offset rx_ring) @ take (count - first) rx_ring;
             d = d\<lparr>ud_rx_consumed := ud_rx_consumed d + of_nat count\<rparr>;
             d = (if rsr \<noteq> 0 then d\<lparr>ud_receive_errors := ud_receive_errors d + 1\<rparr> else d)
         in (d, bytes)))"

section \<open>Sending\<close>

definition startTx :: "UartDma \<Rightarrow> UartDma \<times> dma_effect list" where
  "startTx d =
     (let inflight = min (ud_tx_head d - ud_tx_tail d) (of_nat kRingSize - (ud_tx_tail d AND kRingMask));
          d = d\<lparr>ud_tx_inflight := inflight\<rparr>
      in (d, if inflight \<noteq> 0 then [Start_tx (ud_tx_tail d AND kRingMask) inflight] else []))"

text \<open>The parts of one round of the loop of \<open>write\<close>: the two critical sections and the copy between them.\<close>

definition write_free :: "UartDma \<Rightarrow> nat" where
  "write_free d = kRingSize - unat (ud_tx_head d - ud_tx_tail d)"

definition write_chunk :: "UartDma \<Rightarrow> nat \<Rightarrow> nat \<Rightarrow> nat" where
  "write_chunk d free count = min count (min free (kRingSize - unat (ud_tx_head d AND kRingMask)))"

definition write_copy :: "UartDma \<Rightarrow> nat \<Rightarrow> byte list \<Rightarrow> UartDma" where
  "write_copy d free bytes =
     d\<lparr>ud_tx_buffer :=
         memcpy_at (ud_tx_buffer d) (unat (ud_tx_head d AND kRingMask)) (take (write_chunk d free (length bytes)) bytes)\<rparr>"

definition write_publish :: "UartDma \<Rightarrow> nat \<Rightarrow> UartDma \<times> dma_effect list" where
  "write_publish d chunk =
     (let d = d\<lparr>ud_tx_head := ud_tx_head d + of_nat chunk\<rparr>
      in if ud_tx_inflight d = 0 then startTx d else (d, []))"

text \<open>One round: \<open>None\<close> when the ring is full and the thread yields, otherwise the bytes still to be written.\<close>

definition UartDma_write_round :: "UartDma \<Rightarrow> byte list \<Rightarrow> (UartDma \<times> dma_effect list \<times> byte list) option" where
  "UartDma_write_round d bytes =
     (let free = write_free d
      in if free = 0 then None
         else
           (let chunk = write_chunk d free (length bytes);
                (d, effects) = write_publish (write_copy d free bytes) chunk
            in Some (d, effects, drop chunk bytes)))"

text \<open>The check of \<open>flush\<close>: the ring is empty, or the thread yields.\<close>

definition flush_done :: "UartDma \<Rightarrow> bool" where
  "flush_done d \<longleftrightarrow> ud_closed d \<or> ud_tx_head d = ud_tx_tail d"

text \<open>The interrupt handler, for one instance and for all whose completion bit is set.\<close>

definition TxIrq_instance :: "UartDma \<Rightarrow> UartDma \<times> dma_effect list" where
  "TxIrq_instance d =
     startTx (d\<lparr>ud_tx_tail := ud_tx_tail d + ud_tx_inflight d, ud_tx_inflight := 0\<rparr>)"

fun TxIrq :: "(UartDma \<times> bool) option list \<Rightarrow> ((UartDma \<times> bool) option \<times> dma_effect list) list" where
  "TxIrq [] = []"
| "TxIrq (instance0 # instances) =
     (case instance0 of
        Some (d, True) \<Rightarrow> (let (d, effects) = TxIrq_instance d in (Some (d, False), effects))
      | _ \<Rightarrow> (instance0, [])) # TxIrq instances"

text \<open>
  \<open>end\<close>: \<open>End_blocked\<close> while it waits for the ring to drain, \<open>End_abort\<close> when it is called on
  another core. The sender thread of the link and the receive thread have ended after \<open>link.end\<close>
  and \<open>join\<close>.
\<close>

datatype end_result = End_blocked | End_abort | End_done UartDma "nat option list" "dma_effect list"

definition UartDma_end :: "UartDma \<Rightarrow> nat \<Rightarrow> nat option list \<Rightarrow> nat \<Rightarrow> end_result" where
  "UartDma_end d uart instances core =
     (if ud_closed d then End_done d instances []
      else if core \<noteq> ud_irq_core d then End_abort
      else
        (let d = (if ud_started d then d\<lparr>ud_running := False\<rparr> else d)
         in if \<not> flush_done d then End_blocked
            else
              (let instances = instances[uart := None];
                   remove = (instances ! 0 = None \<and> instances ! 1 = None)
               in End_done (d\<lparr>ud_closed := True\<rparr>) instances
                    ([Wait_uart, Abort_tx, Abort_rx] @ (if remove then [Remove_irq_handler] else [])))))"

end
