(* ===== verification/Pico_Dma_Proof.thy ===== *)
theory Pico_Dma_Proof
  imports Pico_Dma
begin

text \<open>
  The DMA driver is correct: under every interleaving of a writing thread, the DMA controller and
  the completion interrupt, the bytes on the line are the bytes written, in order; the ring never
  stalls; and reading the receive ring gives the bytes that arrived, in order, across the
  wrap-around of the counters and the renewal of the transfer count, except for those that an
  overrun has overwritten.
\<close>

section \<open>Counters\<close>

lemma unat_mask: "unat (x AND kRingMask) = unat x mod kRingSize"
proof -
  have "kRingMask = mask 13"
    by (simp add: kRingMask_def mask_eq_exp_minus_1)
  then have "x AND kRingMask = take_bit 13 x"
    by (simp add: take_bit_eq_mask)
  then show ?thesis
    by (simp add: take_bit_eq_mod unat_mod kRingSize_def)
qed

lemma ring_mod_less [simp]: "k mod kRingSize < kRingSize"
  by (simp add: kRingSize_def)

lemma unat_of_nat_mask: "unat ((of_nat n :: u32) AND kRingMask) = n mod kRingSize"
  by (simp add: unat_mask unat_of_nat kRingSize_def mod_mod_cancel)

lemma unat_of_nat_u32: "n < 4294967296 \<Longrightarrow> unat (of_nat n :: u32) = n"
  by (simp add: unat_of_nat)

text \<open>The distance of two counters, whatever their wrap-around.\<close>

lemma of_nat_distance: "t \<le> h \<Longrightarrow> (of_nat h - of_nat t :: u32) = of_nat (h - t)"
  by (rule of_nat_diff [symmetric])

lemma unat_distance: "t \<le> h \<Longrightarrow> h - t < 4294967296 \<Longrightarrow> unat (of_nat h - of_nat t :: u32) = h - t"
  by (simp only: of_nat_distance unat_of_nat_u32)

lemma mod_same_segment:
  assumes "i \<le> j" "i mod kRingSize + (j - i) < kRingSize"
  shows "j mod kRingSize = i mod kRingSize + (j - i)"
proof -
  have "j mod kRingSize = (i + (j - i)) mod kRingSize"
    by (simp only: le_add_diff_inverse [OF assms(1)])
  also have "\<dots> = (i mod kRingSize + (j - i)) mod kRingSize"
    by (rule mod_add_left_eq [symmetric])
  also have "\<dots> = i mod kRingSize + (j - i)"
    by (rule mod_less [OF assms(2)])
  finally show ?thesis .
qed

text \<open>Two positions less than a ring apart never share a slot.\<close>

lemma mod_distinct:
  assumes "i < j" "j < i + kRingSize"
  shows "i mod kRingSize \<noteq> j mod kRingSize"
proof
  assume "i mod kRingSize = j mod kRingSize"
  then have "kRingSize dvd j - i"
    using assms(1) by (metis less_imp_le mod_eq_dvd_iff_nat)
  then have "kRingSize \<le> j - i"
    using assms(1) by (intro dvd_imp_le) auto
  with assms show False
    by simp
qed

section \<open>Transmission\<close>

text \<open>
  A thread in \<open>write\<close>: the bytes still to be written, with the free space it has seen or the size
  of the chunk it has copied. The DMA controller: the next slot and the number of bytes it still
  has to send. \<open>ts_written\<close> is everything passed to \<open>write\<close>, \<open>ts_wire\<close> what the line has carried.
\<close>

datatype writer = W_loop "byte list" | W_free "byte list" nat | W_copied "byte list" nat

fun unpublished :: "writer \<Rightarrow> byte list" where
  "unpublished (W_loop bytes) = bytes"
| "unpublished (W_free bytes _) = bytes"
| "unpublished (W_copied bytes _) = bytes"

record tx_sys =
  ts_dma :: UartDma
  ts_writer :: writer
  ts_addr :: nat
  ts_count :: nat
  ts_irq :: bool
  ts_written :: "byte list"
  ts_wire :: "byte list"

fun start_transfer :: "dma_effect list \<Rightarrow> tx_sys \<Rightarrow> tx_sys" where
  "start_transfer (Start_tx a n # _) s = s\<lparr>ts_addr := unat a, ts_count := unat n\<rparr>"
| "start_transfer _ s = s"

inductive tx_step :: "tx_sys \<Rightarrow> tx_sys \<Rightarrow> bool" where
  call: "ts_writer s = W_loop [] \<Longrightarrow>
    tx_step s (s\<lparr>ts_writer := W_loop bytes, ts_written := ts_written s @ bytes\<rparr>)"
| check: "ts_writer s = W_loop bytes \<Longrightarrow> bytes \<noteq> [] \<Longrightarrow> write_free (ts_dma s) = free \<Longrightarrow> free \<noteq> 0 \<Longrightarrow>
    tx_step s (s\<lparr>ts_writer := W_free bytes free\<rparr>)"
| copy: "ts_writer s = W_free bytes free \<Longrightarrow>
    tx_step s (s\<lparr>ts_dma := write_copy (ts_dma s) free bytes,
      ts_writer := W_copied bytes (write_chunk (ts_dma s) free (length bytes))\<rparr>)"
| publish: "ts_writer s = W_copied bytes chunk \<Longrightarrow> write_publish (ts_dma s) chunk = (d, effects) \<Longrightarrow>
    tx_step s (start_transfer effects (s\<lparr>ts_dma := d, ts_writer := W_loop (drop chunk bytes)\<rparr>))"
| transfer: "ts_count s = Suc n \<Longrightarrow>
    tx_step s (s\<lparr>ts_wire := ts_wire s @ [ud_tx_buffer (ts_dma s) ! ts_addr s], ts_addr := Suc (ts_addr s),
      ts_count := n, ts_irq := (n = 0)\<rparr>)"
| interrupt: "ts_irq s \<Longrightarrow> TxIrq_instance (ts_dma s) = (d, effects) \<Longrightarrow>
    tx_step s (start_transfer effects (s\<lparr>ts_dma := d, ts_irq := False\<rparr>))"

definition tx_start :: "UartDma \<Rightarrow> tx_sys" where
  "tx_start d = \<lparr>ts_dma = d, ts_writer = W_loop [], ts_addr = 0, ts_count = 0, ts_irq = False, ts_written = [], ts_wire = []\<rparr>"

definition tx_reachable :: "tx_sys \<Rightarrow> bool" where
  "tx_reachable s \<longleftrightarrow> (\<exists>uart rx_buffer instances core uninitialized d instances' effects.
     UartDma_new uart rx_buffer instances core uninitialized = Some (d, instances', effects) \<and> tx_step\<^sup>*\<^sup>* (tx_start d) s)"

text \<open>
  The invariant, on the total numbers of bytes published (\<open>h\<close>) and retired by the interrupt (\<open>t\<close>):
  what the ring holds, what the controller is doing, and what the writer may do next.
\<close>

definition ring_holds :: "byte list \<Rightarrow> byte list \<Rightarrow> nat \<Rightarrow> nat \<Rightarrow> bool" where
  "ring_holds ring bytes i j \<longleftrightarrow> (\<forall>k. i \<le> k \<and> k < j \<longrightarrow> ring ! (k mod kRingSize) = bytes ! k)"

definition dma_inv :: "UartDma \<Rightarrow> byte list \<Rightarrow> nat \<Rightarrow> nat \<Rightarrow> bool" where
  "dma_inv d bytes h t \<longleftrightarrow>
     ud_tx_head d = of_nat h \<and> ud_tx_tail d = of_nat t \<and> t \<le> h \<and> h \<le> t + kRingSize \<and> h \<le> length bytes \<and>
     length (ud_tx_buffer d) = kRingSize \<and> ring_holds (ud_tx_buffer d) bytes t h"

definition inflight_inv :: "UartDma \<Rightarrow> nat \<Rightarrow> nat \<Rightarrow> bool" where
  "inflight_inv d h t \<longleftrightarrow>
     t + unat (ud_tx_inflight d) \<le> h \<and> t mod kRingSize + unat (ud_tx_inflight d) \<le> kRingSize \<and>
     (ud_tx_inflight d = 0 \<longrightarrow> h = t)"

definition controller_inv :: "tx_sys \<Rightarrow> nat \<Rightarrow> bool" where
  "controller_inv s t \<longleftrightarrow>
     (let n = unat (ud_tx_inflight (ts_dma s)) in
      ts_count s \<le> n \<and> (ts_irq s \<longleftrightarrow> 0 < n \<and> ts_count s = 0) \<and>
      (0 < ts_count s \<longrightarrow> ts_addr s = t mod kRingSize + (n - ts_count s)) \<and>
      ts_wire s = take (t + (n - ts_count s)) (ts_written s))"

fun writer_inv :: "UartDma \<Rightarrow> byte list \<Rightarrow> nat \<Rightarrow> nat \<Rightarrow> writer \<Rightarrow> bool" where
  "writer_inv d bytes h t (W_loop rest) \<longleftrightarrow> rest = drop h bytes"
| "writer_inv d bytes h t (W_free rest free) \<longleftrightarrow> rest = drop h bytes \<and> rest \<noteq> [] \<and> 0 < free \<and> h + free \<le> t + kRingSize"
| "writer_inv d bytes h t (W_copied rest chunk) \<longleftrightarrow> rest = drop h bytes \<and> 0 < chunk \<and> chunk \<le> length rest \<and>
     h + chunk \<le> t + kRingSize \<and> ring_holds (ud_tx_buffer d) bytes h (h + chunk)"

definition dma_tx_inv :: "tx_sys \<Rightarrow> nat \<Rightarrow> nat \<Rightarrow> bool" where
  "dma_tx_inv s h t \<longleftrightarrow> dma_inv (ts_dma s) (ts_written s) h t \<and> inflight_inv (ts_dma s) h t \<and> controller_inv s t \<and>
     writer_inv (ts_dma s) (ts_written s) h t (ts_writer s)"

lemma ring_holds_append: "j \<le> length bytes \<Longrightarrow> ring_holds ring (bytes @ rest) i j = ring_holds ring bytes i j"
  by (auto simp: ring_holds_def nth_append)

lemma ring_holds_sub: "ring_holds ring bytes i j \<Longrightarrow> i \<le> i' \<Longrightarrow> j' \<le> j \<Longrightarrow> ring_holds ring bytes i' j'"
  by (auto simp: ring_holds_def)

lemma ring_holds_join:
  assumes "ring_holds ring bytes i j" "ring_holds ring bytes j k"
  shows "ring_holds ring bytes i k"
  unfolding ring_holds_def
proof (intro allI impI)
  fix x assume "i \<le> x \<and> x < k"
  then show "ring ! (x mod kRingSize) = bytes ! x"
    using assms by (cases "x < j") (simp_all add: ring_holds_def)
qed

text \<open>Copying a chunk into free slots keeps what is in the ring and adds the chunk.\<close>

lemma ring_holds_memcpy:
  assumes ring: "length ring = kRingSize" "ring_holds ring bytes t h" and "t \<le> h" "h + n \<le> t + kRingSize"
    and n: "h mod kRingSize + n \<le> kRingSize" "h + n \<le> length bytes"
  shows "ring_holds (memcpy_at ring (h mod kRingSize) (take n (drop h bytes))) bytes t (h + n)"
    (is "ring_holds ?ring bytes t (h + n)")
proof -
  have len: "length (take n (drop h bytes)) = n"
    using n(2) by simp
  have nth: "?ring ! k = (if h mod kRingSize \<le> k \<and> k < h mod kRingSize + n then bytes ! (h + (k - h mod kRingSize)) else ring ! k)"
    if "k < kRingSize" for k
    using that ring(1) n len
    by (auto simp: memcpy_at_def nth_append min_def)
  have "?ring ! (k mod kRingSize) = bytes ! k" if k: "t \<le> k" "k < h + n" for k
  proof (cases "h \<le> k")
    case True
    then have "k mod kRingSize = h mod kRingSize + (k - h)"
      using k n(1) by (intro mod_same_segment) auto
    then show ?thesis
      using nth [OF ring_mod_less [of k]] True k by auto
  next
    case False
    have "k mod kRingSize \<noteq> j mod kRingSize" if "h \<le> j" "j < h + n" for j
      using that False k assms(4) by (intro mod_distinct) auto
    then have "k mod kRingSize \<noteq> h mod kRingSize + i" if "i < n" for i
      using that n(1) mod_same_segment [of h "h + i"] by (metis add_diff_cancel_left' le_add1 less_le_trans nat_add_left_cancel_less)
    then have "\<not> (h mod kRingSize \<le> k mod kRingSize \<and> k mod kRingSize < h mod kRingSize + n)"
      by (metis le_Suc_ex nat_add_left_cancel_less)
    then show ?thesis
      using nth [OF ring_mod_less [of k]] ring(2) False k by (auto simp: ring_holds_def)
  qed
  then show ?thesis
    by (simp add: ring_holds_def)
qed


lemma startTx_eq:
  assumes "ud_tx_head d = of_nat h" "ud_tx_tail d = of_nat t" "t \<le> h" "h \<le> t + kRingSize"
  shows "startTx d =
    (let m = min (h - t) (kRingSize - t mod kRingSize)
     in (d\<lparr>ud_tx_inflight := of_nat m\<rparr>, if m \<noteq> 0 then [Start_tx (of_nat t AND kRingMask) (of_nat m)] else []))"
proof -
  have le: "h - t \<le> 8192" "t mod kRingSize < 8192"
    using assms(4) by (simp_all add: kRingSize_def)
  have "(of_nat t AND kRingMask :: u32) = of_nat (t mod kRingSize)"
    by (metis of_nat_unat_word unat_of_nat_mask)
  then have seg: "of_nat kRingSize - (of_nat t AND kRingMask) = (of_nat (kRingSize - t mod kRingSize) :: u32)"
    using le(2) by (simp add: of_nat_diff kRingSize_def)
  have min: "min (of_nat a) (of_nat b) = (of_nat (min a b) :: u32)" if "a \<le> 8192" "b \<le> 8192" for a b
    using that by (simp add: min_def word_le_nat_alt unat_of_nat_u32)
  define m where "m = min (h - t) (kRingSize - t mod kRingSize)"
  have "min (ud_tx_head d - ud_tx_tail d) (of_nat kRingSize - (ud_tx_tail d AND kRingMask)) = of_nat m"
    unfolding assms(1,2) seg of_nat_distance [OF assms(3)] m_def
    by (rule min) (use le in \<open>simp_all add: kRingSize_def\<close>)
  moreover have "m < 4294967296"
    using le(1) by (simp add: m_def)
  then have "(of_nat m = (0 :: u32)) \<longleftrightarrow> m = 0"
    using unat_of_nat_u32 [of m] by auto
  ultimately show ?thesis
    unfolding startTx_def Let_def m_def [symmetric] using assms(2) by simp
qed

text \<open>What a transfer that is started does to the controller.\<close>

lemma start_transfer_fields [simp]:
  "ts_dma (start_transfer e s) = ts_dma s" "ts_written (start_transfer e s) = ts_written s"
  "ts_writer (start_transfer e s) = ts_writer s" "ts_wire (start_transfer e s) = ts_wire s"
  "ts_irq (start_transfer e s) = ts_irq s"
  by (induction e s rule: start_transfer.induct) auto

lemma startTx_inv:
  assumes d: "dma_inv d bytes h t" and s: "startTx d = (d', effects)"
    and c: "ts_count s = 0" "\<not> ts_irq s" "ts_wire s = take t bytes" "ts_written s = bytes" "ts_dma s = d'"
  shows "dma_inv d' bytes h t \<and> inflight_inv d' h t \<and> controller_inv (start_transfer effects s) t"
proof -
  have ht: "ud_tx_head d = of_nat h" "ud_tx_tail d = of_nat t" "t \<le> h" "h \<le> t + kRingSize"
    using d by (simp_all add: dma_inv_def)
  define m where "m = min (h - t) (kRingSize - t mod kRingSize)"
  have eq: "d' = d\<lparr>ud_tx_inflight := of_nat m\<rparr>" "effects = (if m \<noteq> 0 then [Start_tx (of_nat t AND kRingMask) (of_nat m)] else [])"
    using s startTx_eq [OF ht] unfolding m_def [symmetric] Let_def by simp_all
  have m: "m \<le> h - t" "m \<le> kRingSize - t mod kRingSize" "m < 4294967296" "m = 0 \<Longrightarrow> h = t"
    using ht(3,4) ring_mod_less [of t] unfolding m_def by (auto simp: kRingSize_def min_def split: if_splits)
  have un: "unat (of_nat m :: u32) = m" "(of_nat m = (0 :: u32)) \<longleftrightarrow> m = 0"
    using unat_of_nat_u32 [OF m(3)] by auto
  have "dma_inv d' bytes h t"
    using d by (simp add: dma_inv_def eq)
  moreover have "t mod kRingSize + m \<le> kRingSize"
    using m(2) ring_mod_less [of t] by linarith
  then have "inflight_inv d' h t"
    using m ht(3) by (auto simp: inflight_inv_def eq un)
  moreover have "controller_inv (start_transfer effects s) t"
    using c by (simp add: controller_inv_def eq un unat_of_nat_mask Let_def)
  ultimately show ?thesis
    by blast
qed

lemma dma_tx_inv_call:
  assumes "dma_tx_inv s h t" "ts_writer s = W_loop []"
  shows "dma_tx_inv (s\<lparr>ts_writer := W_loop bytes, ts_written := ts_written s @ bytes\<rparr>) h t"
proof -
  have h: "h = length (ts_written s)"
    using assms by (simp add: dma_tx_inv_def dma_inv_def)
  have "t + unat (ud_tx_inflight (ts_dma s)) \<le> h"
    using assms(1) by (simp add: dma_tx_inv_def inflight_inv_def)
  then show ?thesis
    using assms(1) h by (auto simp: dma_tx_inv_def dma_inv_def controller_inv_def ring_holds_append Let_def)
qed

lemma write_free_eq: "dma_inv d bytes h t \<Longrightarrow> write_free d = kRingSize - (h - t)"
  using unat_distance [of t h] by (auto simp: dma_inv_def write_free_def kRingSize_def)

lemma dma_tx_inv_check:
  assumes "dma_tx_inv s h t" "ts_writer s = W_loop bytes" "bytes \<noteq> []" "write_free (ts_dma s) = free" "free \<noteq> 0"
  shows "dma_tx_inv (s\<lparr>ts_writer := W_free bytes free\<rparr>) h t"
proof -
  have d: "dma_inv (ts_dma s) (ts_written s) h t"
    using assms(1) by (simp add: dma_tx_inv_def)
  have "h + free \<le> t + kRingSize"
    using write_free_eq [OF d] d assms(4,5) by (auto simp: dma_inv_def)
  then show ?thesis
    using assms by (simp add: dma_tx_inv_def controller_inv_def)
qed

lemma dma_tx_inv_copy:
  assumes "dma_tx_inv s h t" "ts_writer s = W_free bytes free"
  shows "dma_tx_inv (s\<lparr>ts_dma := write_copy (ts_dma s) free bytes,
      ts_writer := W_copied bytes (write_chunk (ts_dma s) free (length bytes))\<rparr>) h t"
proof -
  let ?d = "ts_dma s" and ?n = "write_chunk (ts_dma s) free (length bytes)"
  have d: "dma_inv ?d (ts_written s) h t" and w: "bytes = drop h (ts_written s)" "bytes \<noteq> []" "0 < free" "h + free \<le> t + kRingSize"
    using assms by (auto simp: dma_tx_inv_def)
  have off: "unat (ud_tx_head ?d AND kRingMask) = h mod kRingSize"
    using d by (simp add: dma_inv_def unat_of_nat_mask)
  have n: "?n \<le> length bytes" "?n \<le> free" "?n \<le> kRingSize - h mod kRingSize" "0 < ?n"
    using w ring_mod_less [of h] by (simp_all add: write_chunk_def off)
  have len: "h + ?n \<le> length (ts_written s)"
    using n(1,4) by (simp add: w(1))
  let ?ring = "ud_tx_buffer (write_copy ?d free bytes)"
  have ring: "?ring = memcpy_at (ud_tx_buffer ?d) (h mod kRingSize) (take ?n (drop h (ts_written s)))"
    using w(1) by (simp add: write_copy_def off)
  have seg: "h mod kRingSize + ?n \<le> kRingSize"
    using n(3) ring_mod_less [of h] by linarith
  have holds: "ring_holds ?ring (ts_written s) t (h + ?n)"
    unfolding ring using d w(4) n(2) seg len by (intro ring_holds_memcpy) (auto simp: dma_inv_def)
  have "length ?ring = kRingSize"
    unfolding ring using d seg len by (subst length_memcpy_at) (auto simp: dma_inv_def)
  moreover have "ring_holds ?ring (ts_written s) t h" "ring_holds ?ring (ts_written s) h (h + ?n)"
    using holds d by (auto intro: ring_holds_sub simp: dma_inv_def)
  ultimately show ?thesis
    using assms(1) w n
    by (simp add: dma_tx_inv_def dma_inv_def inflight_inv_def controller_inv_def) (simp add: write_copy_def)
qed

lemma dma_tx_inv_publish:
  assumes inv: "dma_tx_inv s h t" and w: "ts_writer s = W_copied bytes chunk" and p: "write_publish (ts_dma s) chunk = (d, effects)"
  shows "dma_tx_inv (start_transfer effects (s\<lparr>ts_dma := d, ts_writer := W_loop (drop chunk bytes)\<rparr>)) (h + chunk) t"
proof -
  let ?d1 = "(ts_dma s)\<lparr>ud_tx_head := ud_tx_head (ts_dma s) + of_nat chunk\<rparr>"
  let ?s = "s\<lparr>ts_dma := d, ts_writer := W_loop (drop chunk bytes)\<rparr>"
  have dma: "dma_inv (ts_dma s) (ts_written s) h t" and fl: "inflight_inv (ts_dma s) h t" and c: "controller_inv s t"
    and b: "bytes = drop h (ts_written s)" "0 < chunk" "chunk \<le> length bytes" "h + chunk \<le> t + kRingSize"
      "ring_holds (ud_tx_buffer (ts_dma s)) (ts_written s) h (h + chunk)"
    using inv w by (auto simp: dma_tx_inv_def)
  have d1: "dma_inv ?d1 (ts_written s) (h + chunk) t"
    using dma b ring_holds_join [of _ _ t h "h + chunk"] by (auto simp: dma_inv_def)
  have rest: "drop chunk bytes = drop (h + chunk) (ts_written s)"
    by (simp add: b(1) add.commute)
  show ?thesis
  proof (cases "ud_tx_inflight (ts_dma s) = 0")
    case True
    then have st: "startTx ?d1 = (d, effects)"
      using p by (simp add: write_publish_def)
    have "ts_count s = 0" "\<not> ts_irq s" "ts_wire s = take t (ts_written s)"
      using c True by (simp_all add: controller_inv_def)
    then have "dma_inv d (ts_written s) (h + chunk) t \<and> inflight_inv d (h + chunk) t
        \<and> controller_inv (start_transfer effects ?s) t"
      by (intro startTx_inv [OF d1 st]) simp_all
    then show ?thesis
      using rest by (simp add: dma_tx_inv_def)
  next
    case False
    then have "d = ?d1" "effects = []"
      using p by (simp_all add: write_publish_def)
    then show ?thesis
      using d1 fl c False rest by (simp add: dma_tx_inv_def inflight_inv_def controller_inv_def)
  qed
qed

lemma dma_tx_inv_transfer:
  assumes inv: "dma_tx_inv s h t" and n: "ts_count s = Suc n"
  shows "dma_tx_inv (s\<lparr>ts_wire := ts_wire s @ [ud_tx_buffer (ts_dma s) ! ts_addr s], ts_addr := Suc (ts_addr s),
      ts_count := n, ts_irq := (n = 0)\<rparr>) h t"
proof -
  let ?N = "unat (ud_tx_inflight (ts_dma s))"
  let ?k = "t + (?N - Suc n)"
  have dma: "dma_inv (ts_dma s) (ts_written s) h t" and fl: "inflight_inv (ts_dma s) h t" and c: "controller_inv s t"
    using inv by (simp_all add: dma_tx_inv_def)
  have N: "Suc n \<le> ?N" "ts_addr s = t mod kRingSize + (?N - Suc n)" "ts_wire s = take ?k (ts_written s)"
    using c n by (simp_all add: controller_inv_def Let_def)
  have k: "?k < h" "h \<le> length (ts_written s)" "t mod kRingSize + ?N \<le> kRingSize"
    using fl dma N(1) by (auto simp: inflight_inv_def dma_inv_def)
  have "?k mod kRingSize = t mod kRingSize + (?k - t)"
    using k(3) N(1) by (intro mod_same_segment) auto
  then have "ud_tx_buffer (ts_dma s) ! ts_addr s = ts_written s ! ?k"
    using dma k(1) N(2) unfolding dma_inv_def ring_holds_def by (metis add_diff_cancel_left' le_add1)
  then have "ts_wire s @ [ud_tx_buffer (ts_dma s) ! ts_addr s] = take (Suc ?k) (ts_written s)"
    using k by (simp add: N(3) take_Suc_conv_app_nth)
  moreover have "Suc ?k = t + (?N - n)"
    using N(1) by simp
  moreover have "Suc (ts_addr s) = t mod kRingSize + (?N - n)"
    using N by simp
  ultimately have "controller_inv (s\<lparr>ts_wire := ts_wire s @ [ud_tx_buffer (ts_dma s) ! ts_addr s], ts_addr := Suc (ts_addr s),
      ts_count := n, ts_irq := (n = 0)\<rparr>) t"
    using N(1) by (simp add: controller_inv_def Let_def)
  then show ?thesis
    using inv by (simp add: dma_tx_inv_def)
qed

lemma writer_inv_retire:
  assumes "writer_inv d bytes h t w" "t \<le> t'" "ud_tx_buffer d' = ud_tx_buffer d"
  shows "writer_inv d' bytes h t' w"
  using assms by (cases w) auto

lemma startTx_buffer: "startTx d = (d', effects) \<Longrightarrow> ud_tx_buffer d' = ud_tx_buffer d"
  by (auto simp: startTx_def Let_def)

lemma dma_tx_inv_interrupt:
  assumes inv: "dma_tx_inv s h t" and irq: "ts_irq s" and i: "TxIrq_instance (ts_dma s) = (d, effects)"
  shows "dma_tx_inv (start_transfer effects (s\<lparr>ts_dma := d, ts_irq := False\<rparr>)) h (t + unat (ud_tx_inflight (ts_dma s)))"
proof -
  let ?N = "unat (ud_tx_inflight (ts_dma s))"
  let ?d1 = "(ts_dma s)\<lparr>ud_tx_tail := ud_tx_tail (ts_dma s) + ud_tx_inflight (ts_dma s), ud_tx_inflight := 0\<rparr>"
  let ?s = "s\<lparr>ts_dma := d, ts_irq := False\<rparr>"
  have dma: "dma_inv (ts_dma s) (ts_written s) h t" and fl: "inflight_inv (ts_dma s) h t" and c: "controller_inv s t"
    and w: "writer_inv (ts_dma s) (ts_written s) h t (ts_writer s)"
    using inv by (simp_all add: dma_tx_inv_def)
  have st: "startTx ?d1 = (d, effects)"
    using i by (simp add: TxIrq_instance_def)
  have "ud_tx_tail (ts_dma s) + ud_tx_inflight (ts_dma s) = of_nat (t + ?N)"
    using dma by (simp add: dma_inv_def)
  moreover have "t + ?N \<le> h"
    using fl by (simp add: inflight_inv_def)
  ultimately have d1: "dma_inv ?d1 (ts_written s) h (t + ?N)"
    using dma by (auto simp: dma_inv_def intro: ring_holds_sub)
  have "ts_count s = 0" "ts_wire s = take (t + ?N) (ts_written s)"
    using c irq by (simp_all add: controller_inv_def Let_def)
  then have "dma_inv d (ts_written s) h (t + ?N) \<and> inflight_inv d h (t + ?N) \<and> controller_inv (start_transfer effects ?s) (t + ?N)"
    by (intro startTx_inv [OF d1 st]) simp_all
  moreover have "writer_inv d (ts_written s) h (t + ?N) (ts_writer s)"
    using startTx_buffer [OF st] by (intro writer_inv_retire [OF w]) simp_all
  ultimately show ?thesis
    by (simp add: dma_tx_inv_def)
qed

lemma dma_tx_inv_step: "tx_step s s' \<Longrightarrow> \<exists>h t. dma_tx_inv s h t \<Longrightarrow> \<exists>h t. dma_tx_inv s' h t"
  by (induction rule: tx_step.induct)
    (blast dest: dma_tx_inv_call dma_tx_inv_check dma_tx_inv_copy dma_tx_inv_publish dma_tx_inv_transfer dma_tx_inv_interrupt)+

lemma dma_tx_inv_start:
  assumes "UartDma_new uart rx_buffer instances core uninitialized = Some (d, instances', effects)"
  shows "dma_tx_inv (tx_start d) 0 0"
  using assms
  by (auto simp: UartDma_new_def CHECK_bind Let_def dma_tx_inv_def tx_start_def dma_inv_def inflight_inv_def controller_inv_def
      ring_holds_def min_def split: if_splits)

lemma tx_reachable_inv: "tx_reachable s \<Longrightarrow> \<exists>h t. dma_tx_inv s h t"
proof -
  assume "tx_reachable s"
  then obtain d where start: "dma_tx_inv (tx_start d) 0 0" and steps: "tx_step\<^sup>*\<^sup>* (tx_start d) s"
    using dma_tx_inv_start unfolding tx_reachable_def by blast
  from steps show ?thesis
    by (induction rule: rtranclp_induct) (use start dma_tx_inv_step in blast)+
qed

text \<open>Nothing is reordered, repeated or lost on the way to the line.\<close>

lemma dma_tx_inv_wire: "dma_tx_inv s h t \<Longrightarrow> prefix (ts_wire s) (ts_written s)"
  by (auto simp: dma_tx_inv_def controller_inv_def Let_def take_is_prefix)

text \<open>\<open>flush\<close> returns only when everything published is on the line.\<close>

lemma dma_tx_inv_flush:
  assumes inv: "dma_tx_inv s h t" and "flush_done (ts_dma s)" "\<not> ud_closed (ts_dma s)"
  shows "ts_wire s @ unpublished (ts_writer s) = ts_written s"
proof -
  have d: "dma_inv (ts_dma s) (ts_written s) h t" and fl: "inflight_inv (ts_dma s) h t" and c: "controller_inv s t"
    using inv by (simp_all add: dma_tx_inv_def)
  have "(of_nat h :: u32) = of_nat t" "t \<le> h" "h - t < 4294967296"
    using assms(2,3) d by (auto simp: flush_done_def dma_inv_def kRingSize_def)
  then have "h = t"
    using unat_distance [of t h] by simp
  then have "ts_wire s = take h (ts_written s)"
    using fl c by (simp add: inflight_inv_def controller_inv_def Let_def)
  moreover have "unpublished (ts_writer s) = drop h (ts_written s)"
    using inv by (cases "ts_writer s") (auto simp: dma_tx_inv_def)
  ultimately show ?thesis
    by simp
qed

text \<open>A round of \<open>write\<close> that nothing interrupts is three of the steps.\<close>

lemma write_round_steps:
  assumes "ts_writer s = W_loop bytes" "bytes \<noteq> []" "UartDma_write_round (ts_dma s) bytes = Some (d, effects, rest)"
  shows "tx_step\<^sup>*\<^sup>* s (start_transfer effects (s\<lparr>ts_dma := d, ts_writer := W_loop rest\<rparr>))"
proof -
  let ?free = "write_free (ts_dma s)"
  let ?chunk = "write_chunk (ts_dma s) ?free (length bytes)"
  have free: "?free \<noteq> 0" and pub: "write_publish (write_copy (ts_dma s) ?free bytes) ?chunk = (d, effects)" and rest: "rest = drop ?chunk bytes"
    using assms(3) by (auto simp: UartDma_write_round_def Let_def split: if_splits prod.splits)
  let ?s1 = "s\<lparr>ts_writer := W_free bytes ?free\<rparr>"
  let ?s2 = "?s1\<lparr>ts_dma := write_copy (ts_dma ?s1) ?free bytes, ts_writer := W_copied bytes (write_chunk (ts_dma ?s1) ?free (length bytes))\<rparr>"
  have "tx_step s ?s1"
    by (rule tx_step.check [OF assms(1,2) refl free])
  moreover have "tx_step ?s1 ?s2"
    by (rule tx_step.copy) simp
  moreover have "tx_step ?s2 (start_transfer effects (?s2\<lparr>ts_dma := d, ts_writer := W_loop (drop ?chunk bytes)\<rparr>))"
    using pub by (intro tx_step.publish) simp_all
  ultimately show ?thesis
    unfolding rest by (simp add: rtranclp.rtrancl_into_rtrancl)
qed

section \<open>The transmitter never stalls\<close>

text \<open>The steps of the driver and the hardware, without new calls of \<open>write\<close>.\<close>

definition tx_progress :: "tx_sys \<Rightarrow> tx_sys \<Rightarrow> bool" where
  "tx_progress s s' \<longleftrightarrow> tx_step s s' \<and> ts_written s' = ts_written s \<and> s' \<noteq> s"

fun writer_phase :: "writer \<Rightarrow> nat" where
  "writer_phase (W_loop bytes) = 3 * length bytes + 2"
| "writer_phase (W_free bytes _) = 3 * length bytes + 1"
| "writer_phase (W_copied bytes _) = 3 * length bytes"

definition tx_work :: "tx_sys \<Rightarrow> nat" where
  "tx_work s = writer_phase (ts_writer s) + 2 * (length (ts_written s) - length (ts_wire s)) + of_bool (ts_irq s)"

lemma tx_work_decreases: "tx_step s s' \<Longrightarrow> dma_tx_inv s h t \<Longrightarrow> ts_written s' = ts_written s \<Longrightarrow> s' \<noteq> s \<Longrightarrow> tx_work s' < tx_work s"
proof (induction rule: tx_step.induct)
  case (call s bytes)
  then show ?case
    by (cases s) auto
next
  case (publish s bytes chunk d effects)
  have "0 < chunk" "chunk \<le> length bytes"
    using publish.prems(1) publish.hyps(1) by (auto simp: dma_tx_inv_def)
  then show ?case
    using publish.hyps(1) by (simp add: tx_work_def)
next
  case (transfer s n)
  let ?N = "unat (ud_tx_inflight (ts_dma s))"
  have "t + (?N - Suc n) < length (ts_written s)" "length (ts_wire s) = min (length (ts_written s)) (t + (?N - Suc n))"
    using transfer.prems(1) transfer.hyps by (auto simp: dma_tx_inv_def controller_inv_def dma_inv_def inflight_inv_def Let_def)
  then have "length (ts_wire s) < length (ts_written s)"
    by simp
  then show ?case
    by (auto simp: tx_work_def)
qed (simp_all add: tx_work_def)

lemma tx_progressI:
  assumes "tx_step s s'" "ts_written s' = ts_written s"
    and "ts_writer s' \<noteq> ts_writer s \<or> ts_count s' \<noteq> ts_count s \<or> ts_irq s' \<noteq> ts_irq s"
  shows "tx_progress s s'"
  using assms by (auto simp: tx_progress_def)

lemma tx_can_progress:
  assumes inv: "dma_tx_inv s h t" and "ts_wire s \<noteq> ts_written s"
  shows "\<exists>s'. tx_progress s s'"
proof -
  let ?N = "unat (ud_tx_inflight (ts_dma s))"
  have d: "dma_inv (ts_dma s) (ts_written s) h t" and fl: "inflight_inv (ts_dma s) h t" and c: "controller_inv s t"
    using inv by (simp_all add: dma_tx_inv_def)
  show ?thesis
  proof (cases "ud_tx_inflight (ts_dma s) = 0")
    case False
    show ?thesis
    proof (cases "ts_count s")
      case (Suc n)
      show ?thesis
        by (rule exI, rule tx_progressI [OF tx_step.transfer [OF Suc]]) (simp_all add: Suc)
    next
      case 0
      then have irq: "ts_irq s"
        using c False by (simp add: controller_inv_def Let_def unat_gt_0)
      obtain d effects where i: "TxIrq_instance (ts_dma s) = (d, effects)"
        by (metis surj_pair)
      show ?thesis
        by (rule exI, rule tx_progressI [OF tx_step.interrupt [OF irq i]]) (simp_all add: irq)
    qed
  next
    case True
    then have ht: "h = t" "ts_wire s = take h (ts_written s)"
      using fl c by (simp_all add: inflight_inv_def controller_inv_def Let_def)
    show ?thesis
    proof (cases "ts_writer s")
      case (W_loop bytes)
      then have 1: "bytes \<noteq> []" "write_free (ts_dma s) = kRingSize"
        using inv assms(2) ht write_free_eq [OF d] by (auto simp: dma_tx_inv_def)
      have 2: "kRingSize \<noteq> 0"
        by (simp add: kRingSize_def)
      show ?thesis
        by (rule exI, rule tx_progressI [OF tx_step.check [OF W_loop 1 2]]) (simp_all add: W_loop)
    next
      case (W_free bytes free)
      show ?thesis
        by (rule exI, rule tx_progressI [OF tx_step.copy [OF W_free]]) (simp_all add: W_free)
    next
      case (W_copied bytes chunk)
      obtain d effects where p: "write_publish (ts_dma s) chunk = (d, effects)"
        by (metis surj_pair)
      show ?thesis
        by (rule exI, rule tx_progressI [OF tx_step.publish [OF W_copied p]]) (simp_all add: W_copied)
    qed
  qed
qed

text \<open>So without new calls the driver comes to rest, with everything on the line and \<open>flush\<close> done.\<close>

lemma tx_drains:
  assumes "\<exists>h t. dma_tx_inv s h t"
  shows "\<exists>s'. tx_progress\<^sup>*\<^sup>* s s' \<and> ts_wire s' = ts_written s"
  using assms
proof (induction "tx_work s" arbitrary: s rule: less_induct)
  case less
  then obtain h t where inv: "dma_tx_inv s h t"
    by blast
  show ?case
  proof (cases "ts_wire s = ts_written s")
    case True
    then show ?thesis
      by blast
  next
    case False
    then obtain s1 where s1: "tx_progress s s1"
      using tx_can_progress [OF inv] by blast
    then have step: "tx_step s s1" "ts_written s1 = ts_written s" "s1 \<noteq> s"
      by (simp_all add: tx_progress_def)
    obtain s' where "tx_progress\<^sup>*\<^sup>* s1 s'" "ts_wire s' = ts_written s1"
      using less.hyps [OF tx_work_decreases [OF step(1) inv step(2,3)] dma_tx_inv_step [OF step(1) less.prems]] by blast
    then show ?thesis
      using s1 step(2) by (metis converse_rtranclp_into_rtranclp)
  qed
qed

lemma tx_reachable_progress:
  assumes "tx_reachable s" "tx_progress\<^sup>*\<^sup>* s s'"
  shows "tx_reachable s' \<and> ts_written s' = ts_written s"
proof -
  have "tx_step\<^sup>*\<^sup>* s s' \<and> ts_written s' = ts_written s"
    using assms(2) by (induction rule: rtranclp_induct) (auto simp: tx_progress_def)
  then show ?thesis
    using assms(1) unfolding tx_reachable_def by (blast intro: rtranclp_trans)
qed

section \<open>Reception\<close>

text \<open>
  \<open>arrived\<close> is what the controller has written to the ring since the start: the slot of each
  position holds the latest byte written there.
\<close>

definition rx_ring_ok :: "byte list \<Rightarrow> byte list \<Rightarrow> bool" where
  "rx_ring_ok ring arrived \<longleftrightarrow> length ring = kRingSize \<and>
     ring_holds ring arrived (length arrived - kRingSize) (length arrived)"

text \<open>A stretch of the ring, cut in two where it wraps around.\<close>

lemma ring_segment:
  assumes "length ring = kRingSize" "ring_holds ring bytes i j" "c + n \<le> j" "i \<le> c" "n \<le> kRingSize" "j \<le> length bytes"
  defines "first \<equiv> min n (kRingSize - c mod kRingSize)"
  shows "take first (drop (c mod kRingSize) ring) @ take (n - first) ring = take n (drop c bytes)"
proof (rule nth_equalityI)
  have m: "c mod kRingSize < kRingSize"
    by simp
  have f: "first \<le> n" "first \<le> kRingSize - c mod kRingSize" "n - first \<le> c mod kRingSize" "n - first \<le> kRingSize"
    using assms(5) m by (auto simp: first_def)
  show "length (take first (drop (c mod kRingSize) ring) @ take (n - first) ring) = length (take n (drop c bytes))"
    using assms(1,3,6) f m min_absorb2 [OF f(4)] by simp
  fix k assume "k < length (take first (drop (c mod kRingSize) ring) @ take (n - first) ring)"
  then have k: "k < n"
    using assms(1) f by auto
  have slot: "ring ! ((c + k) mod kRingSize) = bytes ! (c + k)"
    using assms(2,3,4) k by (simp add: ring_holds_def)
  have "(take first (drop (c mod kRingSize) ring) @ take (n - first) ring) ! k = ring ! ((c + k) mod kRingSize)"
  proof (cases "k < first")
    case True
    then have "(c + k) mod kRingSize = c mod kRingSize + (c + k - c)"
      using f(2) m by (intro mod_same_segment) auto
    then show ?thesis
      using True f assms(1) by (simp add: nth_append)
  next
    case False
    then have ff: "first = kRingSize - c mod kRingSize"
      using k by (auto simp: first_def min_def split: if_splits)
    have "(c + k) mod kRingSize = (c mod kRingSize + k) mod kRingSize"
      by (simp add: mod_simps)
    also have "\<dots> = (k - first + kRingSize) mod kRingSize"
      using ff False m by (intro arg_cong [where f = "\<lambda>x. x mod kRingSize"]) linarith
    also have "\<dots> = k - first"
    proof -
      have "k - first < kRingSize"
        using k f(3) m by linarith
      then show ?thesis
        by simp
    qed
    finally show ?thesis
      using False k f m assms(1) by (simp add: nth_append)
  qed
  then show "(take first (drop (c mod kRingSize) ring) @ take (n - first) ring) ! k = take n (drop c bytes) ! k"
    using slot k assms(3,6) by simp
qed

text \<open>
  \<open>readAvailable\<close>: the next bytes in order, or, after an overrun, the oldest ones still in the ring.
\<close>

definition rx_from :: "nat \<Rightarrow> nat \<Rightarrow> nat" where
  "rx_from c n = (if n - c > kRingSize then n - kRingSize else c)"

lemma readAvailable_eq:
  assumes ring: "rx_ring_ok ring arrived" and c: "ud_rx_consumed d = of_nat c" "c \<le> length arrived"
    "length arrived - c < 4294967296" and "0 < count"
  defines "c' \<equiv> rx_from c (length arrived)"
  shows "readAvailable d (of_nat (length arrived)) ring count rsr =
    (d\<lparr>ud_overruns := ud_overruns d + (if length arrived - c > kRingSize then 1 else 0),
       ud_rx_consumed := of_nat (c' + min count (length arrived - c')),
       ud_receive_errors := ud_receive_errors d + (if rsr \<noteq> 0 then 1 else 0)\<rparr>,
     take count (drop c' arrived))"
proof -
  let ?N = "length arrived"
  define n where "n = min count (?N - c')"
  have pend: "unat (of_nat ?N - of_nat c :: u32) = ?N - c"
    using c(2,3) by (rule unat_distance)
  have big: "(of_nat ?N - of_nat c > (of_nat kRingSize :: u32)) \<longleftrightarrow> ?N - c > kRingSize"
    by (simp add: word_less_nat_alt pend kRingSize_def)
  have c': "?N - c' \<le> kRingSize" "c' \<le> ?N" "?N - kRingSize \<le> c'"
    using c(2) by (auto simp: c'_def rx_from_def)
  have pos: "(of_nat c + (of_nat ?N - of_nat c - of_nat kRingSize) :: u32) = of_nat c'" if "?N - c > kRingSize"
    using that c(2) by (simp add: c'_def rx_from_def of_nat_diff)
  have seg: "take (min n (kRingSize - c' mod kRingSize)) (drop (c' mod kRingSize) ring)
      @ take (n - min n (kRingSize - c' mod kRingSize)) ring = take n (drop c' arrived)"
    using ring c' by (intro ring_segment [of ring arrived "?N - kRingSize" ?N]) (auto simp: rx_ring_ok_def n_def)
  have take: "take n (drop c' arrived) = take count (drop c' arrived)"
    by (simp add: n_def min_def)
  show ?thesis
  proof (cases "?N - c > kRingSize")
    case True
    then have "unat (of_nat kRingSize :: u32) = ?N - c'"
      using c(2) by (simp add: c'_def rx_from_def kRingSize_def)
    then show ?thesis
      using True assms(5) big pos [OF True] seg take
      by (simp add: readAvailable_def Let_def c(1) unat_of_nat_mask n_def [symmetric] del: of_nat_diff)
  next
    case False
    then have "c' = c"
      by (simp add: c'_def rx_from_def)
    then show ?thesis
      using False assms(5) big pend seg [unfolded n_def] take [unfolded n_def]
      by (simp add: readAvailable_def Let_def c(1) unat_of_nat_mask del: of_nat_diff)
  qed
qed

text \<open>
  \<open>produced\<close> counts what has arrived. Between renewals the transfer counter tells how far the
  controller is; at a renewal the position is recovered from the write address, which is less
  than half a ring away from the estimate of the counter.
\<close>

lemma produced_running:
  assumes "ud_rx_base d = of_nat b" "remaining = kRxTransferCount - of_nat k" "\<not> remaining < of_nat kRingSize"
  shows "produced d rx_buffer remaining sampled write_addr remaining' = (d, of_nat (b + k), [])"
  using assms by (simp add: produced_def)

lemma ring_mask_eq: "(x :: u32) AND kRingMask = take_bit 13 x"
  by (simp add: kRingMask_def take_bit_eq_mask mask_eq_exp_minus_1)

lemma take_bit_of_nat_ring: "take_bit 13 (of_nat m :: u32) = of_nat (m mod kRingSize)"
  by (metis of_nat_unat_word ring_mask_eq unat_of_nat_mask)

text \<open>The distance of two positions less than a ring apart, from their slots.\<close>

lemma ring_distance:
  assumes "e \<le> v" "v < e + kRingSize" "v mod kRingSize = w mod kRingSize"
  shows "(of_nat (w mod kRingSize) - of_nat e :: u32) AND kRingMask = of_nat (v - e)"
proof -
  define q where "q = v div kRingSize"
  have "v = w mod kRingSize + kRingSize * q"
    using mult_div_mod_eq [of kRingSize v] assms(3) by (simp add: q_def)
  then have v: "(of_nat v :: u32) = of_nat (w mod kRingSize) + 8192 * of_nat q"
    by (simp add: kRingSize_def)
  have zero: "(8192 :: u32) * x + 4294959104 * x = 0" for x
  proof -
    have "(8192 + 4294959104 :: u32) = 0"
      by code_simp
    then show ?thesis
      by (metis distrib_right mult_zero_left)
  qed
  have "(of_nat (w mod kRingSize) - of_nat e :: u32) = of_nat (v - e) + 4294959104 * of_nat q"
    using zero [of "of_nat q"] unfolding of_nat_distance [OF assms(1), symmetric] v by (simp add: algebra_simps)
  also have "\<dots> = of_nat (v - e + kRingSize * (524287 * q))"
    by (simp add: kRingSize_def del: of_nat_diff)
  finally have "(of_nat (w mod kRingSize) - of_nat e :: u32) AND kRingMask = of_nat ((v - e + kRingSize * (524287 * q)) mod kRingSize)"
    by (simp only: ring_mask_eq take_bit_of_nat_ring)
  also have "(v - e + kRingSize * (524287 * q)) mod kRingSize = v - e"
    unfolding mod_mult_self2 using assms(1,2) by (intro mod_less) linarith
  finally show ?thesis .
qed

lemma produced_renewal:
  assumes "ud_rx_base d = of_nat b" "remaining < of_nat kRingSize" "sampled = kRxTransferCount - of_nat k"
    and pos: "w \<le> b + k + kRingSize div 2" "b + k < w + kRingSize div 2"
    and "write_addr = rx_buffer + of_nat (w mod kRingSize)" "remaining' = kRxTransferCount - of_nat j"
  shows "produced d rx_buffer remaining sampled write_addr remaining' =
    (d\<lparr>ud_rx_base := of_nat w\<rparr>, of_nat (w + j), [Abort_rx, Start_rx kRxTransferCount])"
proof -
  let ?e = "b + k"
  have est: "ud_rx_base d + kRxTransferCount - sampled = of_nat ?e"
    using assms(1,3) by simp
  have off: "(write_addr - rx_buffer) AND kRingMask = of_nat (w mod kRingSize)"
    using assms(6) by (simp add: ring_mask_eq take_bit_of_nat_ring)
  define v where "v = (if ?e \<le> w then w else w + kRingSize)"
  have v: "?e \<le> v" "v < ?e + kRingSize" "v mod kRingSize = w mod kRingSize"
    using pos by (auto simp: v_def kRingSize_def)
  have adv: "(of_nat (w mod kRingSize) - of_nat ?e :: u32) AND kRingMask = of_nat (v - ?e)"
    by (rule ring_distance [OF v])
  have half: "(of_nat (v - ?e) > (of_nat (kRingSize div 2) :: u32)) \<longleftrightarrow> \<not> ?e \<le> w"
    using pos by (auto simp: word_less_nat_alt unat_of_nat_u32 v_def kRingSize_def simp del: of_nat_diff)
  have base: "of_nat ?e + (if \<not> ?e \<le> w then of_nat (v - ?e) - of_nat kRingSize else of_nat (v - ?e)) = (of_nat w :: u32)"
    using v(1) by (auto simp: v_def)
  show ?thesis
    using assms(2,7) base
    by (cases "?e \<le> w") (simp_all add: produced_def Let_def est off adv half of_nat_add [of w j] del: of_nat_diff of_nat_add)
qed

end
