(* ===== verification/Serial_Transport.thy ===== *)
theory Serial_Transport
  imports Link_Streams Packet_Framing Pico_Dma_Proof
begin

text \<open>
  Links over serial lines (\<^verbatim>\<open>link/arduino\<close>, \<^verbatim>\<open>link/esp_idf\<close>, \<^verbatim>\<open>link/pico\<close>): each transport joins a packet receiver
  on a byte stream to a channel. They differ in who calls the receiver and how long it runs. What
  the stream gives to a read is an argument.
\<close>

section \<open>The transport over any stream\<close>

record serial_link =
  sl_receiver :: PacketReceiverOverStream
  sl_channel :: Channel

definition LinkStreamTransport_new ::
  "lib \<Rightarrow> u32 \<Rightarrow> u32 \<Rightarrow> byte list \<Rightarrow> u32 \<Rightarrow> bool \<Rightarrow> serial_link option" where
  "LinkStreamTransport_new L sendbuf recvbuf uninitialized tx_id0 rx_bit0 = do {
     ch \<leftarrow> LinkTransport_new L sendbuf recvbuf tx_id0 rx_bit0;
     Some \<lparr>sl_receiver = PacketReceiverOverStream_new uninitialized, sl_channel = ch\<rparr>
   }"

text \<open>The function passed to the receiver, on each of the packets in turn.\<close>

fun process_packets :: "lib \<Rightarrow> Channel \<Rightarrow> byte list list \<Rightarrow> (Channel \<times> ch_effect list) option" where
  "process_packets L ch [] = Some (ch, [])"
| "process_packets L ch (p # ps) = do {
     (ch, effects) \<leftarrow> LinkTransport_processIncomingPacket L ch p;
     (ch, effects') \<leftarrow> process_packets L ch ps;
     Some (ch, effects @ effects')
   }"

definition LinkStreamTransport_tryReceive ::
  "lib \<Rightarrow> frame_lib \<Rightarrow> serial_link \<Rightarrow> byte list \<Rightarrow> (serial_link \<times> ch_effect list \<times> nat) option" where
  "LinkStreamTransport_tryReceive L F sl data =
     (let (r, ps) = PacketReceiverOverStream_tryReceive L F (sl_receiver sl) data
      in do {
        (ch, effects) \<leftarrow> process_packets L (sl_channel sl) ps;
        Some (\<lparr>sl_receiver = r, sl_channel = ch\<rparr>, effects, length ps)
      })"

text \<open>\<open>receive\<close> on what the successive reads give: \<open>Blocked\<close> while no packet is complete.\<close>

definition LinkStreamTransport_receive ::
  "lib \<Rightarrow> frame_lib \<Rightarrow> serial_link \<Rightarrow> byte list list \<Rightarrow> (serial_link \<times> ch_effect list \<times> nat) blocking option" where
  "LinkStreamTransport_receive L F sl reads =
     (case PacketReceiverOverStream_receive L F (sl_receiver sl) reads of
        None \<Rightarrow> Some Blocked
      | Some (r, ps) \<Rightarrow> do {
          (ch, effects) \<leftarrow> process_packets L (sl_channel sl) ps;
          Some (Returned (\<lparr>sl_receiver = r, sl_channel = ch\<rparr>, effects, length ps))
        })"

text \<open>The calls that connect, up to the first pass of \<open>awaitConnected\<close>.\<close>

definition LinkStreamTransport_connectAsync ::
  "lib \<Rightarrow> serial_link \<Rightarrow> callback option \<Rightarrow> u32 list \<Rightarrow> (serial_link \<times> Link \<times> ch_effect list \<times> unit blocking) option" where
  "LinkStreamTransport_connectAsync L sl disconnect_fn draws = do {
     (ch, link, effects, res) \<leftarrow> LinkTransport_connect L (sl_channel sl) disconnect_fn draws;
     Some (sl\<lparr>sl_channel := ch\<rparr>, link, effects, res)
   }"

definition LinkStreamTransport_connect ::
  "lib \<Rightarrow> serial_link \<Rightarrow> callback option \<Rightarrow> u32 list \<Rightarrow> (serial_link \<times> Link \<times> ch_effect list \<times> unit blocking) option" where
  "LinkStreamTransport_connect L sl disconnect_fn draws = do {
     (sl, link, effects, res) \<leftarrow> LinkStreamTransport_connectAsync L sl disconnect_fn draws;
     Some (sl, link, effects, case res of Blocked \<Rightarrow> Blocked | Returned _ \<Rightarrow> Link_awaitConnected_pass (sl_channel sl) link)
   }"

section \<open>The event callback of the ESP32\<close>

lemma round_bytes_received: "processIncoming_round L F r data = (r', n, res) \<Longrightarrow> pr_bytes_received r' = pr_bytes_received r"
  by (auto simp: processIncoming_round_def count_accepted_def Let_def split: prod.splits if_splits option.splits)

lemma loop_bytes_received:
  "processIncoming_loop L F r data = (r', ps) \<Longrightarrow> pr_bytes_received r' = pr_bytes_received r"
proof (induction L F r data arbitrary: r' ps rule: processIncoming_loop.induct)
  case (1 L F r data)
  show ?case
  proof (cases "data = []")
    case True
    then show ?thesis
      using "1.prems" by (simp add: processIncoming_loop.simps)
  next
    case False
    obtain r1 n res where r1: "processIncoming_round L F r data = (r1, n, res)"
      by (metis surj_pair)
    obtain r2 ps2 where r2: "processIncoming_loop L F r1 (drop n data) = (r2, ps2)"
      by (metis surj_pair)
    have "r' = r2"
      using "1.prems" False by (simp add: processIncoming_loop.simps [of L F r data] r1 r2)
    then show ?thesis
      using "1.IH" [OF False r1 [symmetric] refl refl r2] round_bytes_received [OF r1] by simp
  qed
qed

lemma tryReceive_bytes_received:
  assumes "LinkStreamTransport_tryReceive L F sl data = Some (sl', effects, n)"
  shows "pr_bytes_received (sl_receiver sl') = pr_bytes_received (sl_receiver sl) + length data"
proof -
  obtain r ps where r: "processIncoming_loop L F
      ((sl_receiver sl)\<lparr>pr_bytes_received := pr_bytes_received (sl_receiver sl) + length data\<rparr>) data = (r, ps)"
    by (metis surj_pair)
  have "sl_receiver sl' = r"
    using assms r
    by (auto simp: LinkStreamTransport_tryReceive_def PacketReceiverOverStream_tryReceive_def processIncoming_def
        split: Option.bind_splits prod.splits)
  then show ?thesis
    using loop_bytes_received [OF r] by simp
qed

text \<open>
  The loop of \<open>receiveAvailable\<close>; \<open>tryRead i\<close> is what the \<open>i\<close>-th read gives, whatever arrives in the meantime.
  The byte counter does not wrap around here; the code only uses differences of it.
\<close>

function receiveAvailable_loop ::
  "lib \<Rightarrow> frame_lib \<Rightarrow> (nat \<Rightarrow> byte list) \<Rightarrow> nat \<Rightarrow> nat \<Rightarrow> nat \<Rightarrow> serial_link \<Rightarrow> (serial_link \<times> ch_effect list) option" where
  "receiveAvailable_loop L F tryRead available initial_bytes i sl =
     (if pr_bytes_received (sl_receiver sl) - initial_bytes < available then
        (let previous_bytes = pr_bytes_received (sl_receiver sl)
         in case LinkStreamTransport_tryReceive L F sl (tryRead i) of
              None \<Rightarrow> None
            | Some (sl', effects, _) \<Rightarrow>
                (if pr_bytes_received (sl_receiver sl') = previous_bytes then Some (sl', effects)
                 else
                   (case receiveAvailable_loop L F tryRead available initial_bytes (Suc i) sl' of
                      None \<Rightarrow> None
                    | Some (sl'', effects') \<Rightarrow> Some (sl'', effects @ effects'))))
      else Some (sl, []))"
  by pat_completeness auto
termination
  by (relation "measure (\<lambda>(L, F, tryRead, available, initial_bytes, i, sl).
        initial_bytes + available - pr_bytes_received (sl_receiver sl))")
    (simp, clarsimp, drule tryReceive_bytes_received, linarith)

declare receiveAvailable_loop.simps [simp del]

definition receiveAvailable ::
  "lib \<Rightarrow> frame_lib \<Rightarrow> (nat \<Rightarrow> byte list) \<Rightarrow> int \<Rightarrow> serial_link \<Rightarrow> (serial_link \<times> ch_effect list) option" where
  "receiveAvailable L F tryRead available sl =
     (if available \<le> 0 then Some (sl, [])
      else receiveAvailable_loop L F tryRead (nat available) (pr_bytes_received (sl_receiver sl)) 0 sl)"

section \<open>The receive threads\<close>

text \<open>A pass of the thread of the ESP-IDF transport; whether it goes to sleep.\<close>

definition ReliableUart_pass ::
  "lib \<Rightarrow> frame_lib \<Rightarrow> serial_link \<Rightarrow> byte list \<Rightarrow> (serial_link \<times> ch_effect list \<times> bool) option" where
  "ReliableUart_pass L F sl data = do {
     (sl, effects, n) \<leftarrow> LinkStreamTransport_tryReceive L F sl data;
     Some (sl, effects, n = 0)
   }"

text \<open>
  A pass of the thread of the RP2040 transport, on the successive readings of \<open>available\<close>. While
  nothing arrives the inner loop does not end.
\<close>

fun Rp2040_wait :: "int list \<Rightarrow> bool" where
  "Rp2040_wait [] = False"
| "Rp2040_wait (avail # readings) = (if avail > 0 then True else Rp2040_wait readings)"

definition Rp2040_pass ::
  "lib \<Rightarrow> frame_lib \<Rightarrow> serial_link \<Rightarrow> int \<Rightarrow> int list \<Rightarrow> byte list \<Rightarrow> (serial_link \<times> ch_effect list \<times> nat) blocking option" where
  "Rp2040_pass L F sl avail readings data =
     (if avail = 0 \<and> \<not> Rp2040_wait readings then Some Blocked
      else do {
        res \<leftarrow> LinkStreamTransport_tryReceive L F sl data;
        Some (Returned res)
      })"

text \<open>The registers \<open>produced\<close> reads, in the order it reads them.\<close>

record dma_regs =
  rg_remaining :: u32
  rg_sampled :: u32
  rg_write_addr :: u32
  rg_remaining' :: u32

definition produced_regs :: "UartDma \<Rightarrow> u32 \<Rightarrow> dma_regs \<Rightarrow> UartDma \<times> u32 \<times> dma_effect list" where
  "produced_regs d rx_buffer g = produced d rx_buffer (rg_remaining g) (rg_sampled g) (rg_write_addr g) (rg_remaining' g)"

text \<open>A pass of \<open>receiveLoop\<close> of the DMA driver; \<open>None\<close> for the packets when it delays.\<close>

definition UartDma_receive_pass ::
  "lib \<Rightarrow> frame_lib \<Rightarrow> UartDma \<Rightarrow> serial_link \<Rightarrow> u32 \<Rightarrow> dma_regs \<Rightarrow> dma_regs \<Rightarrow> byte list \<Rightarrow> u32
     \<Rightarrow> (UartDma \<times> serial_link \<times> dma_effect list \<times> (ch_effect list \<times> nat) option) option" where
  "UartDma_receive_pass L F d sl rx_buffer g1 g2 rx_ring rsr =
     (let (d, p, effects1) = produced_regs d rx_buffer g1
      in if p = ud_rx_consumed d then Some (d, sl, effects1, None)
         else
           (let (d, p, effects2) = produced_regs d rx_buffer g2;
                (d, data) = readAvailable d p rx_ring 256 rsr
            in do {
              (sl, effects, n) \<leftarrow> LinkStreamTransport_tryReceive L F sl data;
              Some (d, sl, effects1 @ effects2, Some (effects, n))
            }))"

text \<open>\<open>connectAsync\<close> of the stream transports waits for the handshake.\<close>

lemma connectAsync_blocks:
  assumes "ch_ok (sl_channel sl)" "d \<noteq> 0"
  shows "\<exists>sl' effects. LinkStreamTransport_connectAsync L sl f (replicate k 0 @ d # seq # draws) = Some (sl', Link_new d, effects, Blocked)"
  using connectAsync_link [OF assms, of L f k seq draws]
  by (auto simp: LinkStreamTransport_connectAsync_def LinkTransport_connect_def)

section \<open>A sequence of reads\<close>

fun serial_reads :: "lib \<Rightarrow> frame_lib \<Rightarrow> serial_link \<Rightarrow> byte list list \<Rightarrow> (serial_link \<times> ch_effect list) option" where
  "serial_reads L F sl [] = Some (sl, [])"
| "serial_reads L F sl (data # reads) = do {
     (sl, effects, _) \<leftarrow> LinkStreamTransport_tryReceive L F sl data;
     (sl, effects') \<leftarrow> serial_reads L F sl reads;
     Some (sl, effects @ effects')
   }"

lemma process_packets_append:
  "process_packets L ch (ps @ qs) = do {
     (ch, effects) \<leftarrow> process_packets L ch ps;
     (ch, effects') \<leftarrow> process_packets L ch qs;
     Some (ch, effects @ effects')
   }"
  by (induction ps arbitrary: ch) (auto split: Option.bind_splits)

text \<open>The channel gets the packets of the whole stream, in order.\<close>

lemma serial_reads_eq:
  assumes "receive_reads L F (sl_receiver sl) reads = (r, ps)"
  shows "serial_reads L F sl reads = do {
     (ch, effects) \<leftarrow> process_packets L (sl_channel sl) ps;
     Some (\<lparr>sl_receiver = r, sl_channel = ch\<rparr>, effects)
   }"
  using assms
proof (induction reads arbitrary: sl r ps)
  case (Cons data reads)
  obtain r1 ps1 where 1: "PacketReceiverOverStream_tryReceive L F (sl_receiver sl) data = (r1, ps1)"
    by (metis surj_pair)
  obtain r2 ps2 where 2: "receive_reads L F r1 reads = (r2, ps2)"
    by (metis surj_pair)
  have eq: "r = r2" "ps = ps1 @ ps2"
    using Cons.prems 1 2 by simp_all
  show ?case
  proof (cases "process_packets L (sl_channel sl) ps1")
    case None
    then show ?thesis
      by (simp add: eq LinkStreamTransport_tryReceive_def 1 process_packets_append)
  next
    case (Some res)
    obtain ch e where res: "res = (ch, e)"
      by (metis surj_pair)
    have "serial_reads L F \<lparr>sl_receiver = r1, sl_channel = ch\<rparr> reads = do {
        (ch, effects) \<leftarrow> process_packets L ch ps2;
        Some (\<lparr>sl_receiver = r2, sl_channel = ch\<rparr>, effects)
      }"
      using Cons.IH [of "\<lparr>sl_receiver = r1, sl_channel = ch\<rparr>" r2 ps2] 2 by simp
    then show ?thesis
      using Some by (simp add: eq res LinkStreamTransport_tryReceive_def 1 process_packets_append split: Option.bind_split)
  qed
qed (simp split: Option.bind_split)

section \<open>The callback drains what was there\<close>

text \<open>The bytes of the first \<open>n\<close> reads, and the read after which the callback stops.\<close>

definition total_read :: "(nat \<Rightarrow> byte list) \<Rightarrow> nat \<Rightarrow> nat" where
  "total_read f n = length (concat (map f [0..<n]))"

lemma total_read_simps [simp]: "total_read f 0 = 0" "total_read f (Suc n) = total_read f n + length (f n)"
  by (simp_all add: total_read_def)

definition drain_stops :: "(nat \<Rightarrow> byte list) \<Rightarrow> nat \<Rightarrow> nat \<Rightarrow> bool" where
  "drain_stops f available n \<longleftrightarrow> n \<le> available \<and> (\<forall>j < n. total_read f j < available) \<and> (\<forall>j. Suc j < n \<longrightarrow> f j \<noteq> [])
     \<and> (available \<le> total_read f n \<or> (\<exists>j. n = Suc j \<and> f j = []))"

lemma drain_stops_ex: "\<exists>n. drain_stops f available n"
proof -
  define P where "P n \<longleftrightarrow> available \<le> total_read f n \<or> (\<exists>j. n = Suc j \<and> f j = [])" for n
  have grows: "n \<le> total_read f n" if "\<forall>j < n. f j \<noteq> []" for n
    using that
  proof (induction n)
    case (Suc n)
    have "f n \<noteq> []" "n \<le> total_read f n"
      using Suc by simp_all
    then show ?case
      by (cases "f n") simp_all
  qed simp
  have "\<exists>n \<le> available. P n"
  proof (cases "\<forall>j < available. f j \<noteq> []")
    case True
    then show ?thesis
      using grows [of available] by (auto simp: P_def)
  next
    case False
    then obtain j where "j < available" "f j = []"
      by blast
    then show ?thesis
      by (intro exI [of _ "Suc j"]) (simp add: P_def)
  qed
  then obtain m where m: "m \<le> available" "P m"
    by blast
  define n where "n = (LEAST n. P n)"
  have n: "P n" "n \<le> m" "\<And>j. j < n \<Longrightarrow> \<not> P j"
    unfolding n_def by (rule LeastI, rule m) (rule Least_le, rule m, rule not_less_Least)
  then have "drain_stops f available n"
    using m(1) by (auto simp: drain_stops_def P_def not_le)
  then show ?thesis ..
qed

lemma receiveAvailable_loop_eq:
  assumes "i \<le> n" "pr_bytes_received (sl_receiver sl) = initial + total_read f i"
    and "\<forall>j < n. total_read f j < a" "\<forall>j. Suc j < n \<longrightarrow> f j \<noteq> []"
    and "a \<le> total_read f n \<or> (i < n \<and> (\<exists>j. n = Suc j \<and> f j = []))"
  shows "receiveAvailable_loop L F f a initial i sl = serial_reads L F sl (map f [i..<n])"
  using assms(1,2,5)
proof (induction "n - i" arbitrary: i sl)
  case 0
  then show ?case
    by (auto simp: receiveAvailable_loop.simps [of L F f a initial i sl])
next
  case (Suc k)
  have i: "i < n" "total_read f i < a"
    using Suc.hyps(2) assms(3) by auto
  then have reads: "map f [i..<n] = f i # map f [Suc i..<n]"
    by (simp add: upt_conv_Cons)
  show ?case
  proof (cases "LinkStreamTransport_tryReceive L F sl (f i)")
    case None
    then show ?thesis
      using i Suc.prems(2) by (simp add: receiveAvailable_loop.simps [of L F f a initial i sl] reads)
  next
    case (Some res)
    obtain sl' e m where res: "res = (sl', e, m)"
      by (metis surj_pair)
    have bytes: "pr_bytes_received (sl_receiver sl') = initial + total_read f (Suc i)"
      using tryReceive_bytes_received [OF Some [unfolded res]] Suc.prems(2) by simp
    show ?thesis
    proof (cases "f i = []")
      case True
      then have "n = Suc i"
        using assms(4) i(1) by (metis Suc_lessI)
      then show ?thesis
        using True Some res i(2) bytes Suc.prems(2) by (simp add: receiveAvailable_loop.simps [of L F f a initial i sl] reads)
    next
      case False
      have "a \<le> total_read f n \<or> (Suc i < n \<and> (\<exists>j. n = Suc j \<and> f j = []))"
        using Suc.prems(3) False i(1) by (metis Suc_lessI nat.inject)
      then have "receiveAvailable_loop L F f a initial (Suc i) sl' = serial_reads L F sl' (map f [Suc i..<n])"
        using Suc.hyps(2) i(1) bytes by (intro Suc.hyps(1)) auto
      then show ?thesis
        using False Some res i(2) bytes Suc.prems(2)
        by (simp add: receiveAvailable_loop.simps [of L F f a initial i sl] reads bind_eq_Some_conv split: option.split Option.bind_split)
    qed
  qed
qed

lemma receiveAvailable_drains:
  assumes "0 < available"
  shows "\<exists>n. drain_stops f (nat available) n \<and> receiveAvailable L F f available sl = serial_reads L F sl (map f [0..<n])"
proof -
  obtain n where n: "drain_stops f (nat available) n"
    using drain_stops_ex by blast
  have "receiveAvailable_loop L F f (nat available) (pr_bytes_received (sl_receiver sl)) 0 sl = serial_reads L F sl (map f [0..<n])"
    using n assms by (intro receiveAvailable_loop_eq) (auto simp: drain_stops_def)
  then show ?thesis
    using n assms by (auto simp: receiveAvailable_def)
qed

text \<open>Packets from the wire leave the channel well formed, up to one that fails an assertion.\<close>

fun packets_abort :: "lib \<Rightarrow> Channel \<Rightarrow> byte list list \<Rightarrow> bool" where
  "packets_abort L ch [] = False"
| "packets_abort L ch (p # ps) =
     (packet_aborts L ch p \<or>
      (case LinkTransport_processIncomingPacket L ch p of None \<Rightarrow> False | Some (ch, _) \<Rightarrow> packets_abort L ch ps))"

lemma process_packets_total:
  assumes "roo_lib L" "ch_ok ch"
  shows "if packets_abort L ch ps then process_packets L ch ps = None
    else \<exists>ch' effects. process_packets L ch ps = Some (ch', effects) \<and> ch_ok ch'"
  using assms(2)
proof (induction ps arbitrary: ch)
  case (Cons p ps)
  show ?case
  proof (cases "packet_aborts L ch p")
    case True
    then show ?thesis
      using packetReceived_total [OF assms(1) Cons.prems, of p] by (simp add: LinkTransport_processIncomingPacket_def)
  next
    case False
    then obtain ch1 e1 where "Channel_packetReceived L ch p = Some (ch1, e1)" "ch_ok ch1"
      using packetReceived_total [OF assms(1) Cons.prems, of p] by auto
    then show ?thesis
      using False Cons.IH [of ch1] by (auto simp: LinkTransport_processIncomingPacket_def)
  qed
qed simp

section \<open>Reception through the DMA ring\<close>

text \<open>
  What the registers say of a controller that has filled \<open>n\<close> bytes: the current run of transfers began
  at position \<open>b\<close>, the next one will be counted from \<open>b'\<close>. When the count is nearly used up the
  position \<open>w\<close> where the abort stops it is less than half a ring from the sampled one.
\<close>

definition dma_counts :: "u32 \<Rightarrow> nat \<Rightarrow> dma_regs \<Rightarrow> nat \<Rightarrow> nat \<Rightarrow> bool" where
  "dma_counts rx_buffer b g b' n \<longleftrightarrow>
     (if rg_remaining g < of_nat kRingSize then
        \<exists>k j. rg_sampled g = kRxTransferCount - of_nat k \<and> b' \<le> b + k + kRingSize div 2 \<and> b + k < b' + kRingSize div 2
          \<and> rg_write_addr g = rx_buffer + of_nat (b' mod kRingSize) \<and> rg_remaining' g = kRxTransferCount - of_nat j \<and> n = b' + j
      else b' = b \<and> (\<exists>k. rg_remaining g = kRxTransferCount - of_nat k \<and> n = b + k))"

lemma produced_eq:
  assumes "ud_rx_base d = of_nat b" "dma_counts rx_buffer b g b' n"
  shows "\<exists>effects. produced_regs d rx_buffer g = (d\<lparr>ud_rx_base := of_nat b'\<rparr>, of_nat n, effects)"
proof (cases "rg_remaining g < of_nat kRingSize")
  case True
  then obtain k j where "rg_sampled g = kRxTransferCount - of_nat k" "b' \<le> b + k + kRingSize div 2" "b + k < b' + kRingSize div 2"
    "rg_write_addr g = rx_buffer + of_nat (b' mod kRingSize)" "rg_remaining' g = kRxTransferCount - of_nat j" "n = b' + j"
    using assms(2) by (auto simp: dma_counts_def)
  then show ?thesis
    unfolding produced_regs_def using produced_renewal [OF assms(1) True] by blast
next
  case False
  then obtain k where "b' = b" "rg_remaining g = kRxTransferCount - of_nat k" "n = b + k"
    using assms(2) by (auto simp: dma_counts_def)
  then show ?thesis
    unfolding produced_regs_def using produced_running [OF assms(1) _ False] assms(1) by simp
qed

text \<open>One pass: a delay when nothing is there, otherwise the next bytes go to the packet receiver.\<close>

lemma receive_pass_eq:
  assumes "ud_rx_base d = of_nat b" "dma_counts rx_buffer b g1 b1 n1" "dma_counts rx_buffer b1 g2 b2 (length arrived)"
    and ring: "rx_ring_ok ring arrived" "ud_rx_consumed d = of_nat c" "c \<le> n1" "n1 \<le> length arrived" "length arrived - c < 4294967296"
  defines "c' \<equiv> rx_from c (length arrived)"
  shows "\<exists>effects. UartDma_receive_pass L F d sl rx_buffer g1 g2 ring rsr =
    (if n1 = c then Some (d\<lparr>ud_rx_base := of_nat b1\<rparr>, sl, effects, None)
     else do {
       (sl, out, n) \<leftarrow> LinkStreamTransport_tryReceive L F sl (take 256 (drop c' arrived));
       Some (d\<lparr>ud_rx_base := of_nat b2, ud_overruns := ud_overruns d + (if length arrived - c > kRingSize then 1 else 0),
            ud_rx_consumed := of_nat (c' + min 256 (length arrived - c')),
            ud_receive_errors := ud_receive_errors d + (if rsr \<noteq> 0 then 1 else 0)\<rparr>, sl, effects, Some (out, n))
     })"
proof -
  let ?d1 = "d\<lparr>ud_rx_base := of_nat b1\<rparr>" and ?d2 = "d\<lparr>ud_rx_base := of_nat b2\<rparr>"
  obtain e1 where e1: "produced_regs d rx_buffer g1 = (?d1, of_nat n1, e1)"
    using produced_eq [OF assms(1,2)] by blast
  obtain e2 where e2: "produced_regs ?d1 rx_buffer g2 = (?d2, of_nat (length arrived), e2)"
    using produced_eq [of ?d1 b1, OF _ assms(3)] by auto
  have same: "(of_nat n1 = (of_nat c :: u32)) \<longleftrightarrow> n1 = c"
    using unat_distance [of c n1] ring(3-5) by auto
  have read: "readAvailable ?d2 (of_nat (length arrived)) ring 256 rsr =
    (?d2\<lparr>ud_overruns := ud_overruns d + (if length arrived - c > kRingSize then 1 else 0),
       ud_rx_consumed := of_nat (c' + min 256 (length arrived - c')),
       ud_receive_errors := ud_receive_errors d + (if rsr \<noteq> 0 then 1 else 0)\<rparr>, take 256 (drop c' arrived))"
    using readAvailable_eq [of ring arrived ?d2 c 256 rsr] ring by (simp add: c'_def)
  show ?thesis
  proof (cases "n1 = c")
    case True
    then show ?thesis
      using ring(2) by (simp add: UartDma_receive_pass_def e1)
  next
    case False
    then show ?thesis
      using ring(2) same by (intro exI [of _ "e1 @ e2"]) (simp add: UartDma_receive_pass_def e1 e2 read del: of_nat_diff)
  qed
qed

text \<open>
  Arrivals and passes in any order, as long as the ring does not overrun. Bytes may arrive between the two
  readings of a pass.
\<close>

record rx_sys =
  rs_dma :: UartDma
  rs_link :: serial_link
  rs_base :: nat
  rs_arrived :: "byte list"
  rs_read :: nat

inductive rx_step :: "lib \<Rightarrow> frame_lib \<Rightarrow> u32 \<Rightarrow> rx_sys \<Rightarrow> rx_sys \<Rightarrow> bool" for L F rx_buffer where
  arrive: "rx_step L F rx_buffer s (s\<lparr>rs_arrived := rs_arrived s @ bytes\<rparr>)"
| delay: "dma_counts rx_buffer (rs_base s) g1 b1 (length (rs_arrived s)) \<Longrightarrow> rs_read s = length (rs_arrived s) \<Longrightarrow>
    UartDma_receive_pass L F (rs_dma s) (rs_link s) rx_buffer g1 g2 ring rsr = Some (d, sl, effects, None) \<Longrightarrow>
    rx_step L F rx_buffer s (s\<lparr>rs_dma := d, rs_link := sl, rs_base := b1\<rparr>)"
| receive: "dma_counts rx_buffer (rs_base s) g1 b1 n1 \<Longrightarrow> dma_counts rx_buffer b1 g2 b2 (length (rs_arrived s)) \<Longrightarrow>
    rs_read s < n1 \<Longrightarrow> n1 \<le> length (rs_arrived s) \<Longrightarrow> length (rs_arrived s) - rs_read s \<le> kRingSize \<Longrightarrow>
    rx_ring_ok ring (rs_arrived s) \<Longrightarrow>
    UartDma_receive_pass L F (rs_dma s) (rs_link s) rx_buffer g1 g2 ring rsr = Some (d, sl, effects, Some out) \<Longrightarrow>
    rx_step L F rx_buffer s (s\<lparr>rs_dma := d, rs_link := sl, rs_base := b2,
      rs_read := rs_read s + min 256 (length (rs_arrived s) - rs_read s)\<rparr>)"

text \<open>The link is where the packets of the bytes read so far have taken it.\<close>

definition rx_inv :: "lib \<Rightarrow> frame_lib \<Rightarrow> serial_link \<Rightarrow> rx_sys \<Rightarrow> bool" where
  "rx_inv L F sl0 s \<longleftrightarrow> ud_rx_base (rs_dma s) = of_nat (rs_base s) \<and> ud_rx_consumed (rs_dma s) = of_nat (rs_read s)
     \<and> rs_read s \<le> length (rs_arrived s) \<and> ud_overruns (rs_dma s) = 0
     \<and> (\<exists>reads effects. concat reads = take (rs_read s) (rs_arrived s) \<and> serial_reads L F sl0 reads = Some (rs_link s, effects))"

lemma serial_reads_append:
  "serial_reads L F sl (xs @ ys) = do {
     (sl, effects) \<leftarrow> serial_reads L F sl xs;
     (sl, effects') \<leftarrow> serial_reads L F sl ys;
     Some (sl, effects @ effects')
   }"
  by (induction xs arbitrary: sl) (auto split: Option.bind_splits)

lemma rx_inv_step: "rx_step L F rx_buffer s s' \<Longrightarrow> rx_inv L F sl0 s \<Longrightarrow> rx_inv L F sl0 s'"
proof (induction rule: rx_step.induct)
  case (arrive s bytes)
  then show ?case
    by (auto simp: rx_inv_def)
next
  case (delay s g1 b1 g2 ring rsr d sl effects)
  obtain e where "produced_regs (rs_dma s) rx_buffer g1 = ((rs_dma s)\<lparr>ud_rx_base := of_nat b1\<rparr>, of_nat (length (rs_arrived s)), e)"
    using produced_eq [OF _ delay.hyps(1)] delay.prems by (auto simp: rx_inv_def)
  then have "d = (rs_dma s)\<lparr>ud_rx_base := of_nat b1\<rparr>" "sl = rs_link s"
    using delay.hyps(2,3) delay.prems by (simp_all add: UartDma_receive_pass_def rx_inv_def)
  then show ?case
    using delay.prems by (auto simp: rx_inv_def)
next
  case (receive s g1 b1 n1 g2 b2 ring rsr d sl effects out)
  let ?N = "length (rs_arrived s)" and ?c = "rs_read s"
  obtain reads e0 where inv: "ud_rx_base (rs_dma s) = of_nat (rs_base s)" "ud_rx_consumed (rs_dma s) = of_nat ?c" "?c \<le> ?N"
    "ud_overruns (rs_dma s) = 0" "concat reads = take ?c (rs_arrived s)" "serial_reads L F sl0 reads = Some (rs_link s, e0)"
    using receive.prems by (auto simp: rx_inv_def)
  have near: "?N - ?c < 4294967296" "\<not> ?N - ?c > kRingSize" "rx_from ?c ?N = ?c" "n1 \<noteq> ?c" "?c \<le> n1"
    using receive.hyps(3,5) by (auto simp: rx_from_def kRingSize_def)
  obtain e where eq: "UartDma_receive_pass L F (rs_dma s) (rs_link s) rx_buffer g1 g2 ring rsr = do {
      (sl, out, n) \<leftarrow> LinkStreamTransport_tryReceive L F (rs_link s) (take 256 (drop ?c (rs_arrived s)));
      Some ((rs_dma s)\<lparr>ud_rx_base := of_nat b2, ud_overruns := ud_overruns (rs_dma s) + 0,
        ud_rx_consumed := of_nat (?c + min 256 (?N - ?c)),
        ud_receive_errors := ud_receive_errors (rs_dma s) + (if rsr \<noteq> 0 then 1 else 0)\<rparr>, sl, e, Some (out, n))
    }"
    using receive_pass_eq [OF inv(1) receive.hyps(1,2,6) inv(2) near(5) receive.hyps(4) near(1), of L F "rs_link s" rsr]
    unfolding if_not_P [OF near(4)] if_not_P [OF near(2)] near(3) by (elim exE)
  obtain out' n where pass: "LinkStreamTransport_tryReceive L F (rs_link s) (take 256 (drop ?c (rs_arrived s))) = Some (sl, out', n)"
    and d: "ud_rx_base d = of_nat b2" "ud_rx_consumed d = of_nat (?c + min 256 (?N - ?c))" "ud_overruns d = 0"
  proof (cases "LinkStreamTransport_tryReceive L F (rs_link s) (take 256 (drop ?c (rs_arrived s)))")
    case None
    then show ?thesis
      using eq receive.hyps(7) by simp
  next
    case (Some res)
    obtain sl1 out1 n1 where res: "res = (sl1, out1, n1)"
      by (metis surj_pair)
    show ?thesis
      using receive.hyps(7) Some by (intro that [of out1 n1]) (auto simp: eq res inv(4))
  qed
  have "concat (reads @ [take 256 (drop ?c (rs_arrived s))]) = take (?c + min 256 (?N - ?c)) (rs_arrived s)"
    using inv(5) by (simp add: take_add min_def)
  moreover have "serial_reads L F sl0 (reads @ [take 256 (drop ?c (rs_arrived s))]) = Some (sl, e0 @ out')"
    using inv(6) pass by (simp add: serial_reads_append)
  ultimately show ?case
    using d inv(3) unfolding rx_inv_def by (intro conjI exI) simp_all
qed

definition rx_start :: "UartDma \<Rightarrow> serial_link \<Rightarrow> rx_sys" where
  "rx_start d sl = \<lparr>rs_dma = d, rs_link = sl, rs_base = 0, rs_arrived = [], rs_read = 0\<rparr>"

lemma rx_inv_start:
  assumes "UartDma_new uart rx_buffer instances core uninitialized = Some (d, instances', effects)"
  shows "rx_inv L F sl (rx_start d sl)"
  using assms
  by (auto simp: UartDma_new_def CHECK_bind rx_inv_def rx_start_def split: if_splits intro!: exI [of _ "[]"])

lemma rx_inv_reachable:
  assumes "UartDma_new uart rx_buffer instances core uninitialized = Some (d, instances', effects)"
    and "(rx_step L F rx_buffer)\<^sup>*\<^sup>* (rx_start d sl) s"
  shows "rx_inv L F sl s"
  using assms(2)
  by (induction rule: rtranclp_induct) (simp_all add: rx_inv_start [OF assms(1)] rx_inv_step)

text \<open>The channel is given the packets of the bytes read, in order.\<close>

context packet_coding
begin

lemma rx_inv_packets:
  assumes "rx_inv L F sl0 s" "recv_ok (sl_receiver sl0)"
  shows "\<exists>q ps effects. ref_run L F (pending_of (sl_receiver sl0)) (take (rs_read s) (rs_arrived s)) = (q, ps)
    \<and> process_packets L (sl_channel sl0) ps = Some (sl_channel (rs_link s), effects)"
proof -
  obtain reads e where r: "concat reads = take (rs_read s) (rs_arrived s)" "serial_reads L F sl0 reads = Some (rs_link s, e)"
    using assms(1) by (auto simp: rx_inv_def)
  obtain r' ps where rr: "receive_reads L F (sl_receiver sl0) reads = (r', ps)"
    by (metis surj_pair)
  have "ref_run L F (pending_of (sl_receiver sl0)) (concat reads) = (pending_of r', ps)"
    using receive_reads_refines [OF assms(2) rr] by simp
  moreover obtain ch where "process_packets L (sl_channel sl0) ps = Some (ch, e)" "rs_link s = \<lparr>sl_receiver = r', sl_channel = ch\<rparr>"
    using serial_reads_eq [OF rr] r(2) by (auto split: Option.bind_splits)
  ultimately show ?thesis
    using r(1) by auto
qed

text \<open>
  Packets written to the DMA driver: what the line has carried decodes to a prefix of them, and to all of
  them once everything is sent.
\<close>

lemma prefix_ref_run:
  assumes "prefix xs ys"
  shows "prefix (snd (ref_run L F p xs)) (snd (ref_run L F p ys))"
  using assms by (auto simp: prefix_def ref_run_append split_beta Let_def)

lemma wire_packets:
  assumes sent: "\<forall>p \<in> set ps. length p \<le> 250" "length (ps_buf s0) = 256" "send_packets L F s0 ps = Some (s1, written)"
    and r: "recv_ok r" "pending_of r = Partial []" and wire: "prefix (concat reads) written"
  shows "\<exists>r' qs. receive_reads L F r reads = (r', qs) \<and> prefix qs ps \<and> (concat reads = written \<longrightarrow> qs = ps)"
proof -
  have run: "ref_run L F (Partial []) written = (Partial [], ps)"
    using send_packets_received [OF sent(1,2)] sent(3) by auto
  obtain r' qs where rr: "receive_reads L F r reads = (r', qs)"
    by (metis surj_pair)
  then have "ref_run L F (Partial []) (concat reads) = (pending_of r', qs)"
    using receive_reads_refines [OF r(1) rr] r(2) by simp
  then show ?thesis
    using rr run prefix_ref_run [OF wire, of "Partial []"] by auto
qed

end

end
