(* ===== verification/Demo_Serial.thy ===== *)
theory Demo_Serial
  imports Demo_Link Serial_Transport
begin

text \<open>
  A DMA driver on the first UART, and a serial transport over a channel that is connecting, for
  the examples beside the theorems.
\<close>

definition demo_dma :: UartDma where
  "demo_dma = fst (the (UartDma_new 0 0x20000000 [None, None] 0 []))"

lemma demo_dma_new: "UartDma_new 0 0x20000000 [None, None] 0 [] = Some (demo_dma, [Some 0, None], [Start_rx kRxTransferCount, Add_irq_handler])"
  by (simp add: demo_dma_def UartDma_new_def kRingMask_def)

definition demo_serial :: serial_link where
  "demo_serial = \<lparr>sl_receiver = PacketReceiverOverStream_new [], sl_channel = demo_a\<rparr>"

lemma demo_serial_ok: "recv_ok (sl_receiver demo_serial)" "pending_of (sl_receiver demo_serial) = Partial []" "ch_ok (sl_channel demo_serial)"
  using demo_ch_ok(2) by (simp_all add: demo_serial_def recv_ok_def pending_of_def PacketReceiverOverStream_new_def)

lemma demo_call: "tx_step (tx_start demo_dma) ((tx_start demo_dma)\<lparr>ts_writer := W_loop bytes, ts_written := bytes\<rparr>)"
  using tx_step.call [of "tx_start demo_dma" bytes] by (simp add: tx_start_def)

lemma demo_call_reachable: "tx_reachable ((tx_start demo_dma)\<lparr>ts_writer := W_loop bytes, ts_written := bytes\<rparr>)"
  unfolding tx_reachable_def using demo_dma_new demo_call by blast

text \<open>One byte arrives and a pass of the receive loop reads it.\<close>

definition demo_regs :: dma_regs where
  "demo_regs = \<lparr>rg_remaining = kRxTransferCount - 1, rg_sampled = 0, rg_write_addr = 0, rg_remaining' = 0\<rparr>"

definition demo_rx_sys :: rx_sys where
  "demo_rx_sys = (rx_start demo_dma demo_serial)\<lparr>rs_arrived := [5]\<rparr>"

lemma demo_regs_counts: "dma_counts 0x20000000 0 demo_regs 0 1"
  by (simp add: dma_counts_def demo_regs_def kRxTransferCount_def kRingSize_def)

lemma demo_tryReceive: "\<exists>sl'. LinkStreamTransport_tryReceive be_lib cobs_frame demo_serial [5] = Some (sl', [], 0)"
proof -
  obtain r ps where r: "processIncoming be_lib cobs_frame (sl_receiver demo_serial) [5] = (r, ps)"
    by (metis surj_pair)
  have "ps = []"
    using cobs.processIncoming_refines(2) [OF demo_serial_ok(1) r] by (simp add: demo_serial_ok(2))
  then show ?thesis
    using r by (simp add: LinkStreamTransport_tryReceive_def PacketReceiverOverStream_tryReceive_def)
qed

lemma demo_rx_reachable:
  "\<exists>s. (rx_step be_lib cobs_frame 0x20000000)\<^sup>*\<^sup>* (rx_start demo_dma demo_serial) s \<and> rs_read s = 1 \<and> rs_arrived s = [5]"
proof -
  let ?ring = "5 # replicate 8191 0 :: byte list"
  have ring: "rx_ring_ok ?ring [5]"
    by (simp add: rx_ring_ok_def ring_holds_def kRingSize_def)
  have d: "ud_rx_base demo_dma = of_nat 0" "ud_rx_consumed demo_dma = of_nat 0"
    by (simp_all add: demo_dma_def UartDma_new_def kRingMask_def)
  obtain sl' where sl': "LinkStreamTransport_tryReceive be_lib cobs_frame demo_serial [5] = Some (sl', [], 0)"
    using demo_tryReceive by blast
  have "\<exists>d' effects. UartDma_receive_pass be_lib cobs_frame demo_dma demo_serial 0x20000000 demo_regs demo_regs ?ring 0 =
      Some (d', sl', effects, Some ([], 0))"
    using receive_pass_eq [OF d(1) demo_regs_counts, of demo_regs 0 "[5]" ?ring 0 be_lib cobs_frame demo_serial 0] demo_regs_counts ring d(2) sl'
    by (auto simp: rx_from_def kRingSize_def)
  then obtain d' effects where pass: "UartDma_receive_pass be_lib cobs_frame demo_dma demo_serial 0x20000000 demo_regs demo_regs ?ring 0 =
      Some (d', sl', effects, Some ([], 0))"
    by blast
  have 1: "rx_step be_lib cobs_frame 0x20000000 (rx_start demo_dma demo_serial) demo_rx_sys"
    using rx_step.arrive [of be_lib cobs_frame "0x20000000" "rx_start demo_dma demo_serial" "[5]"]
    by (simp add: demo_rx_sys_def rx_start_def)
  have 2: "rx_step be_lib cobs_frame 0x20000000 demo_rx_sys (demo_rx_sys\<lparr>rs_dma := d', rs_link := sl', rs_base := 0, rs_read := 1\<rparr>)"
    using rx_step.receive [of "0x20000000" demo_rx_sys demo_regs 0 1 demo_regs 0 ?ring be_lib cobs_frame 0 d' sl' effects "([], 0)"]
      demo_regs_counts ring pass
    by (simp add: demo_rx_sys_def rx_start_def kRingSize_def)
  show ?thesis
    using 1 2 by (intro exI [of _ "demo_rx_sys\<lparr>rs_dma := d', rs_link := sl', rs_base := 0, rs_read := 1\<rparr>"])
      (auto simp: demo_rx_sys_def)
qed

end
