(* ===== verification/Spec2Isabelle.thy ===== *)
theory Spec2Isabelle
  imports Demo_Link Demo_Rpc Demo_Serial
begin

text \<open>
  Verification of \<open>roo_transport\<close>, a C++ library for microcontrollers that builds a reliable,
  flow-controlled, bidirectional byte stream over an unreliable packet link, and messages and
  remote procedure calls on top of it. Paths below are relative to \<^verbatim>\<open>src/src/roo_transport\<close>.

  \<^bold>\<open>The program and how its parts interact.\<close> A serial line carries bytes, possibly corrupted. A packet sender
  (\<^verbatim>\<open>packets/over_stream\<close>) frames packets with a checksum and COBS delimiters; a packet receiver
  splits the stream at the delimiters and drops what does not check. A \<open>Channel\<close>
  (\<^verbatim>\<open>link/internal/thread_safe/channel.cpp\<close>) establishes a connection by a handshake over such packets
  and then runs two independent halves: a \<open>Transmitter\<close>, which queues written bytes in packets,
  sends and resends them and releases them when they are acknowledged, and a \<open>Receiver\<close>, which
  stores packets in a window, hands out the bytes in order and produces acknowledgements and
  flow-control packets. Applications see \<open>Link\<close> objects with an input and an output stream.
  \<open>LinkMessaging\<close> sends length-prefixed messages over a link, a multiplexer shares one messaging
  object among several users, and an RPC client and server exchange calls over messages, with
  their arguments serialized.

  \<^bold>\<open>How C++ is represented.\<close> Classes are records, enumerations are datatypes, integers of fixed width are
  words that wrap around. A method is a function from the object to the changed object and the
  result. A failed \<open>CHECK\<close>, a \<open>LOG(FATAL)\<close> or the use of a null pointer is the value \<open>None\<close>. A pointer
  into a buffer array is an index; a \<open>shared_ptr\<close> is an index into a heap. A wait on a condition
  variable is the result \<open>Blocked\<close>: the pass before it and the pass after it are separate steps,
  and what a step notifies is part of its result. A method that runs under one mutex is one step; one
  with several critical sections is split into them, and step relations interleave them with
  everything else. Callbacks, notifications and hardware commands are lists of effects. Readings
  of the clock, random draws, the contents of uninitialised memory, the order of iteration over a
  hash map and the readings of hardware registers are arguments, so the theorems hold for all of
  them. All loops of the model terminate (there is no fuel in it); loops that wait for the
  environment are given by their passes.

  \<^bold>\<open>Code that is not in the repository\<close> (\<open>roo_io\<close>, \<open>roo_time\<close>, \<open>roo_collections\<close>, COBS, the
  messaging transport below the multiplexer) is a record of functions passed as an argument. What
  the code relies on are the laws of the locales \<open>roo_lib\<close> (byte order, clock), \<open>roo_data\<close> (the
  loads and stores of serialization), \<open>rpc_io\<close> (bounded iterators and varints) and \<open>packet_coding\<close>
  (COBS round trip). Each is interpreted on concrete functions (\<open>be_lib\<close>, \<open>be_data\<close>, \<open>be_io\<close>,
  \<open>cobs_frame\<close>, a full COBS codec), on which the examples beside the theorems run. The locale
  \<open>seq_window\<close> is the queue interface of the ring buffer, interpreted on \<open>RingBuffer\<close>.

  \<^bold>\<open>The theories.\<close>
  \<^item> \<open>Transport_Prelude\<close>: integer types, \<open>CHECK\<close>, \<open>memcpy\<close>, the library parameter, shared lemmas;
    \<open>Big_Endian\<close>: its concrete instance.
  \<^item> \<open>Seq_Num\<close>, \<open>Ring_Buffer\<close>, \<open>Protocol\<close>, \<open>Retry_Backoff\<close>, \<open>Packet_Buffers\<close>: \<^verbatim>\<open>link/internal/{seq_num,
    ring_buffer, protocol, retry_backoff, in_buffer, out_buffer}\<close>. The 16-bit sequence numbers
    against unbounded positions, the ring as a bounded FIFO, the header round trip, the backoff in
    32-bit arithmetic against its definition on natural numbers.
  \<^item> \<open>Receiver\<close>, \<open>Receiver_Spec\<close>, \<open>Receiver_Read\<close> and \<open>Transmitter\<close>, \<open>Transmitter_Spec\<close>,
    \<open>Transmitter_Queue\<close>, \<open>Transmitter_Ack\<close>: \<^verbatim>\<open>link/internal/{receiver, transmitter}\<close>. The
    model, an abstraction (a window of slots, a queue of fragments), the invariants \<open>rcv_inv\<close>
    and \<open>tx_inv\<close>, and what every operation does to the abstraction. \<open>Ack_Bitmap\<close>: the
    acknowledgement packet from the one that writes it to the one that reads it.
  \<^item> \<open>Thread_Safe_Link\<close>: the monitors of \<^verbatim>\<open>link/internal/thread_safe\<close>. \<open>Channel\<close>, \<open>Channel_Proof\<close>,
    \<open>Channel_Session\<close>, \<open>Channel_Life\<close>: the connection state machine, the sender loop, the dispatch of
    packets; any sequence of operations keeps it well formed (\<open>ch_ok\<close>), up to one packet that
    is characterised.
  \<^item> \<open>Link_Delivery\<close>, \<open>Link_Transmit\<close>, \<open>Link_Receive\<close>, \<open>Link_Proof\<close>: a transmitter and a receiver with
    lossy queues between them, every interleaving of the operations of both ends as a step
    relation, and the end-to-end invariant. \<open>Handshake\<close>: two channels and a wire that loses,
    repeats and reorders handshake packets.
  \<^item> \<open>Link_Streams\<close>: \<^verbatim>\<open>link/{link, link_input_stream, link_output_stream, link_transport}\<close> and
    \<^verbatim>\<open>link/arduino/link_stream\<close>. \<open>Packet_Framing\<close>: \<^verbatim>\<open>packets/over_stream\<close>, with a
    byte-at-a-time reference receiver.
  \<^item> \<open>Pico_Dma\<close>, \<open>Pico_Dma_Proof\<close>: \<^verbatim>\<open>link/pico\<close>, the DMA rings of the RP2040 with their 32-bit
    counters. \<open>Serial_Transport\<close>: \<^verbatim>\<open>link/arduino\<close>, \<^verbatim>\<open>link/esp_idf\<close> and the receive loop of
    \<^verbatim>\<open>link/pico\<close>: the packet receiver joined to a channel.
  \<^item> \<open>Link_Messaging\<close> (\<^verbatim>\<open>link/link_messaging\<close>) and \<open>Messaging_Mux\<close> (\<^verbatim>\<open>messaging\<close>): framing of messages,
    the receive loop, multiplexing.
  \<^item> \<open>Rpc_Status\<close>, \<open>Serialization\<close>, \<open>Serialization_Spec\<close>, \<open>Rpc_Header\<close>, \<open>Rpc_Client\<close>, \<open>Rpc_Server\<close>,
    \<open>Rpc_Server_Proof\<close>, \<open>Rpc_Session\<close>: \<^verbatim>\<open>rpc\<close>. Serializers against a reference encoding, headers on
    arbitrary bytes, the client and the server under every interleaving of their critical
    sections, and a typed remote call from end to end.
  \<^item> \<open>Demo_Link\<close>, \<open>Demo_Rpc\<close>, \<open>Demo_Serial\<close>: small concrete runs.

  \<^bold>\<open>What is shown.\<close> On a connected link, what is read is a prefix of what was written, whatever is lost,
  the end of the stream is reported only when everything was read, an idle transmitter has
  everything delivered, and no assertion fails. The handshake ends in agreement and can always be
  completed. The operations of both halves do what their abstractions say on every branch.
  Packets on a byte stream are received once and in order after any noise. The DMA driver
  transmits in order, never stalls, and delivers what arrives; the receive callback of the ESP32
  ends. Messages arrive whole and in order and only at their channel. RPC headers and values are
  read back as written. The client runs every callback at most once, the server answers every
  request at most once, and a typed remote call is a call of the function. Where the code does
  not do what it means to, the theorem states what it does: the assertion a late handshake packet
  fails, stale bytes after a reconnect, wakeups that are missed.

  \<^bold>\<open>Bounds.\<close> The numbers are those of the code: packets of at most 250 bytes, frames of at most 256, windows
  of at most 1024 packets, twelve bits of sequence number on the wire, rings of 8192 bytes. The
  results on the RPC client hold until its 24-bit stream ids wrap around. Byte counters that only
  serve statistics or differences are natural numbers.

  \<^bold>\<open>Not modelled.\<close> Starting, naming, prioritising and joining threads, and the registration of UART callbacks:
  the step relations let the threads run at any time. Logging. The accessors of \<open>StatsMonitor\<close>, which read
  counters of the two halves.
  The link model keeps the order of data packets in flight (the handshake model does not): a
  packet that is delayed by more than the 2048 sequence numbers that twelve bits tell apart would
  be taken for a later one. The wall-clock timing of retransmissions beyond the backoff
  computation. The classes of \<^verbatim>\<open>link/arduino\<close> that only choose a UART, \<^verbatim>\<open>roo_transport.h\<close>, the tests, the
  examples and the benchmarks, which use the library but are not part of it.
\<close>

section \<open>End-to-end delivery\<close>

text \<open>
  C1: Whatever the two applications and the wire do, in any interleaving, with any losses,
  retransmissions and control packets: the bytes read so far, followed by the bytes ready to be
  read, are a prefix of the bytes written.
\<close>

theorem delivery_prefix:
  assumes "roo_lib L" "link_reachable L s"
  shows "prefix (lk_read s @ drop (rcv_pos (lk_rx s)) (front (rcv_slots (lk_rx s)))) (lk_written s)"
  using link_inv_prefix [OF link_reachable_inv [OF assms]] .

theorem delivery_prefix_witness:
  "link_reachable be_lib demo_link2 \<and> lk_read demo_link2 = [1, 2, 3]
    \<and> prefix (lk_read demo_link2 @ drop (rcv_pos (lk_rx demo_link2)) (front (rcv_slots (lk_rx demo_link2))))
        (lk_written demo_link2)"
  using delivery_prefix [OF be.roo_lib_axioms demo_link2_reachable] demo_link2_reachable
  by (simp add: demo_link2_def)

text \<open>
  C2: When the reader sees the end of the stream, it has read exactly what was written.
\<close>

theorem end_of_stream_complete:
  assumes "roo_lib L" "link_reachable L s" "rcv_end_of_stream (lk_rx s)"
  shows "lk_read s = lk_written s"
  using link_inv_eos [OF link_reachable_inv [OF assms(1, 2)] assms(3)] .

theorem end_of_stream_complete_witness:
  "rcv_end_of_stream (lk_rx demo_link3) \<and> lk_read demo_link3 = lk_written demo_link3 \<and> lk_read demo_link3 = [1, 2, 3]"
  using end_of_stream_complete [OF be.roo_lib_axioms demo_link3_reachable] demo_runs_close(7)
  by (simp add: demo_link3_def demo_link2_def)

text \<open>
  C3: When the transmitter has become idle (all packets up to the final one acknowledged),
  everything that was written has been read or is ready to be read.
\<close>

theorem idle_means_delivered:
  assumes "roo_lib L" "link_reachable L s" "tx_state (lk_tx s) = T_kIdle"
  shows "lk_read s @ drop (rcv_pos (lk_rx s)) (front (rcv_slots (lk_rx s))) = lk_written s"
  using link_inv_delivered [OF link_reachable_inv [OF assms(1, 2)] assms(3)] .

theorem idle_means_delivered_witness:
  "tx_state (lk_tx demo_link3) = T_kIdle
    \<and> lk_read demo_link3 @ drop (rcv_pos (lk_rx demo_link3)) (front (rcv_slots (lk_rx demo_link3))) = [1, 2, 3]"
  using idle_means_delivered [OF be.roo_lib_axioms demo_link3_reachable] demo_runs_close(6)
  by (simp add: demo_link3_def demo_link2_def)

text \<open>
  C6: In every reachable state, every operation of the two ends returns: no assertion of the
  transmitter or the receiver fails on \<open>tryWrite\<close>, \<open>close\<close>, \<open>tryRead\<close>, or on the packet that
  is next on the wire in either direction.
\<close>

theorem link_never_aborts:
  assumes "roo_lib L" "link_reachable L s"
  shows "Transmitter_tryWrite L (lk_tx s) buf \<noteq> None \<and> Transmitter_close L (lk_tx s) \<noteq> None
    \<and> Receiver_tryRead L (lk_rx s) count \<noteq> None
    \<and> (lk_data s = p # ps \<longrightarrow> Channel_dataReceived L (lk_rx s) p \<noteq> None)
    \<and> (lk_ctl s = q # qs \<longrightarrow> Channel_controlReceived L (lk_tx s) q \<noteq> None)"
  using inv_write [OF assms(1) link_reachable_inv [OF assms], of buf]
    inv_close [OF assms(1) link_reachable_inv [OF assms]] inv_read [OF link_reachable_inv [OF assms], of count]
    inv_deliver_data [OF assms(1) link_reachable_inv [OF assms], of p ps]
    inv_deliver_ctl [OF assms(1) link_reachable_inv [OF assms], of q qs]
  by auto

theorem link_never_aborts_witness:
  "link_reachable be_lib demo_link2 \<and> Transmitter_tryWrite be_lib demo_tx2 [7] \<noteq> None"
  using link_never_aborts [OF be.roo_lib_axioms demo_link2_reachable, of "[7]" 0 "[]" "[]" "[]" "[]"] demo_link2_reachable
  by (simp add: demo_link2_def)

section \<open>The channel\<close>

text \<open>
  C20: Whatever is done with a channel after its construction (any calls of its methods by applications, passes
  of the sender loop, connecting, disconnecting, any bytes from the wire, in any order and with
  any arguments) it stays well formed. Any bytes from the wire are taken, except for one
  handshake packet, characterised exactly, on which an assertion fails.
\<close>

theorem packet_robustness:
  assumes "roo_lib L" "channel_reachable L ch"
  shows "ch_ok ch
    \<and> (if packet_aborts L ch buf then Channel_packetReceived L ch buf = None
       else \<exists>ch' effects. Channel_packetReceived L ch buf = Some (ch', effects) \<and> ch_ok ch')"
  using channel_reachable_ok [OF assms] packetReceived_total [OF assms(1) channel_reachable_ok [OF assms]] by simp

theorem packet_robustness_witness:
  "\<exists>ch' effects. Channel_packetReceived be_lib demo_a [0x60, 0x01, 0x02] = Some (ch', effects) \<and> ch_ok ch'"
proof -
  have "\<not> packet_aborts be_lib demo_a [0x60, 0x01, 0x02]"
    by code_simp
  then show ?thesis
    using packet_robustness [OF be.roo_lib_axioms demo_a_reachable, of "[0x60, 0x01, 0x02]"] by simp
qed

text \<open>
  C4: However handshake packets of two fresh channels are lost, repeated or reordered: once a
  side reports its stream as connected, its transmitter and the receiver of the other side
  agree on the sequence number, the control bits and the window, and form a link in its initial
  state. No packet of the handshake aborts either side.
\<close>

theorem handshake_agreement:
  assumes "roo_lib L" "hs_reachable L s"
  shows "(Channel_getLinkStatusInternal (hs_a s) (ch_my_stream_id (hs_a s)) = Link_kConnected \<longrightarrow>
      link_start L (hs_link (hs_a s) (hs_b s)))
    \<and> (Channel_getLinkStatusInternal (hs_b s) (ch_my_stream_id (hs_b s)) = Link_kConnected \<longrightarrow>
      link_start L (hs_link (hs_b s) (hs_a s)))
    \<and> (pkt \<in> set (hs_ba s) \<longrightarrow> Channel_packetReceived L (hs_a s) pkt \<noteq> None)"
proof -
  obtain p q where inv: "hs_inv L p q s"
    using hs_reachable_inv [OF assms] by blast
  show ?thesis
    using hs_inv_link [OF inv] hs_inv_link [OF hs_inv_swap [OF inv]] hs_inv_recv [OF assms(1) inv, of pkt]
    by (auto simp: Channel_getLinkStatusInternal_def split: if_splits)
qed

theorem handshake_agreement_witness:
  "hs_reachable be_lib demo_hs4 \<and> link_start be_lib (hs_link demo_a2 demo_b2)"
proof -
  have "ch_my_stream_id demo_a2 = 7"
    by code_simp
  then show ?thesis
    using handshake_agreement [OF be.roo_lib_axioms demo_hs4_reachable, of "[]"] demo_hs4_reachable demo_handshake_runs(10)
    by (simp add: demo_hs4_def)
qed

text \<open>
  C5: The handshake can be completed from every state it can reach: some continuation makes both
  sides report their streams as connected.
\<close>

theorem handshake_completes:
  assumes "roo_lib L" "hs_reachable L s"
  shows "\<exists>s'. (hs_step L)\<^sup>*\<^sup>* s s'
    \<and> Channel_getLinkStatusInternal (hs_a s') (ch_my_stream_id (hs_a s')) = Link_kConnected
    \<and> Channel_getLinkStatusInternal (hs_b s') (ch_my_stream_id (hs_b s')) = Link_kConnected"
proof -
  obtain p q where inv: "hs_inv L p q s"
    using hs_reachable_inv [OF assms] by blast
  obtain s' where s': "(hs_step L)\<^sup>*\<^sup>* s s'" "hs_inv L p q s'" "ch_my_stream_id_acked_by_peer (hs_a s')"
    "ch_my_stream_id_acked_by_peer (hs_b s')"
    using hs_complete [OF assms(1) inv] by blast
  then have "ch_my_stream_id (hs_a s') \<noteq> 0" "ch_peer_stream_id (hs_a s') \<noteq> 0"
    "ch_my_stream_id (hs_b s') \<noteq> 0" "ch_peer_stream_id (hs_b s') \<noteq> 0"
    by (auto simp: hs_inv_def hs_end_def side_ok_def)
  then show ?thesis
    using s' by (intro exI [of _ s']) (simp add: Channel_getLinkStatusInternal_def)
qed

theorem handshake_completes_witness:
  "hs_start be_lib demo_hs \<and> (\<exists>s'. (hs_step be_lib)\<^sup>*\<^sup>* demo_hs s'
    \<and> Channel_getLinkStatusInternal (hs_b s') (ch_my_stream_id (hs_b s')) = Link_kConnected)"
  using handshake_completes [OF be.roo_lib_axioms hs_init [OF demo_hs_start]] demo_hs_start by blast





text \<open>
  C29: What is written on the wire is read back. A handshake packet that a channel sends is parsed by the peer
  to what it was built from: the low twelve bits of the first sequence number, the two stream ids,
  whether an acknowledgement is wanted, and the size of the receive buffer. The header of every
  packet gives back the control bit, the type and the low twelve bits of the sequence number.
\<close>

theorem packet_formats:
  assumes "roo_lib L" "rcv_ok (ch_receiver ch)"
  shows "(\<forall>now draw n ch' pkt n'. Channel_conn L ch now draw n = (ch', pkt, n') \<and> pkt \<noteq> [] \<longrightarrow>
      parse_handshake L pkt = Some (Transmitter_front (ch_transmitter ch) AND 0x0FFF, ch_my_stream_id ch,
        ch_peer_stream_id ch, tx_state (ch_transmitter ch) = T_kConnecting, RingBuffer_capacity (rcv_in_ring (ch_receiver ch)))
      \<and> GetPacketType (LoadBeU16 L pkt) = kHandshakePacket \<and> length pkt = 11)
    \<and> (\<forall>seq type control_bit. wire_type type \<longrightarrow>
      GetPacketControlBit (FormatPacketHeader seq type control_bit) = control_bit
      \<and> GetPacketType (FormatPacketHeader seq type control_bit) = type
      \<and> FormatPacketHeader seq type control_bit AND 0x0FFF = seq AND 0x0FFF)"
proof -
  let ?k = "rb_capacity_log2 (rcv_in_ring (ch_receiver ch))"
  have k: "?k \<le> 10"
    using assms(2) by (simp add: rcv_ok_def ring_ok_def kMaxLinkBufferSizeLog2_def)
  have "parse_handshake L pkt = Some (Transmitter_front (ch_transmitter ch) AND 0x0FFF, ch_my_stream_id ch,
        ch_peer_stream_id ch, tx_state (ch_transmitter ch) = T_kConnecting, RingBuffer_capacity (rcv_in_ring (ch_receiver ch)))
      \<and> GetPacketType (LoadBeU16 L pkt) = kHandshakePacket \<and> length pkt = 11"
    if "Channel_conn L ch now draw n = (ch', pkt, n')" "pkt \<noteq> []" for now draw n ch' pkt n'
  proof -
    have "pkt = handshake_packet L (Transmitter_front (ch_transmitter ch)) (ch_my_stream_id ch) (ch_peer_stream_id ch)
        (tx_state (ch_transmitter ch) = T_kConnecting) ?k"
      using that conn_bytes by blast
    then show ?thesis
      using parse_handshake_packet [OF assms(1) k] by (simp add: RingBuffer_capacity_def)
  qed
  then show ?thesis
    using header_control_bit header_type header_seq by blast
qed

theorem packet_formats_witness:
  "parse_handshake be_lib demo_syn = Some (100, 7, 0, True, 4)
    \<and> GetPacketType (FormatPacketHeader 0x1ABC kDataAckPacket True) = kDataAckPacket"
proof -
  have c: "Transmitter_front (ch_transmitter demo_a) = 100" "ch_my_stream_id demo_a = 7" "ch_peer_stream_id demo_a = 0"
    "tx_state (ch_transmitter demo_a) = T_kConnecting" "RingBuffer_capacity (rcv_in_ring (ch_receiver demo_a)) = 4"
    by code_simp+
  have ok: "rcv_ok (ch_receiver demo_a)" "demo_syn \<noteq> []" "wire_type kDataAckPacket"
    using demo_ch_ok(2) by (simp_all add: ch_ok_def demo_syn_def)
  note formats = packet_formats [OF be.roo_lib_axioms ok(1)]
  from formats [THEN conjunct1, rule_format, of 10 0 1000000 "fst (Channel_conn be_lib demo_a 10 0 1000000)"
        demo_syn "snd (snd (Channel_conn be_lib demo_a 10 0 1000000))"]
  have "parse_handshake be_lib demo_syn = Some (100, 7, 0, True, 4)"
    using demo_handshake_runs(4) c ok(2) by (simp add: prod_eq_iff)
  then show ?thesis
    using formats [THEN conjunct2, rule_format, OF ok(3), of "0x1ABC" True] by simp
qed


section \<open>Sequence numbers and buffers\<close>



text \<open>
  C34: The twelve bits on the wire determine the sequence number as long as it is within 2048 of
  the start of the window; the restored number is always within that range.
\<close>

theorem restore_high_bits:
  "unat (RingBuffer_restorePosHighBits r x 12 - (rb_begin r - 2048)) < 4096
    \<and> (unat (s - (rb_begin r - 2048)) < 4096 \<longrightarrow> RingBuffer_restorePosHighBits r (s AND 0x0FFF) 12 = s)"
  using restorePosHighBits_range restorePosHighBits_12 by blast

theorem restore_high_bits_witness:
  "RingBuffer_restorePosHighBits \<lparr>rb_capacity_log2 = 4, rb_begin = 0xFFF0, rb_end = 0xFFF0\<rparr> (0x0005 AND 0x0FFF) 12 = 0x0005"
  using restore_high_bits [of "\<lparr>rb_capacity_log2 = 4, rb_begin = 0xFFF0, rb_end = 0xFFF0\<rparr>" 0 "0x0005"] by simp

text \<open>
  C32: The retransmission delay, computed in 32-bit arithmetic, is the intended one: the initial
  delay times 1.33 per retry, rounded, capped at the maximum, with 20 percent of jitter on either side;
  no intermediate result wraps.
\<close>

theorem backoff_correct:
  fixes initial maximum retries draw rmax :: u32
  assumes "5 \<le> unat initial" "unat initial \<le> unat maximum" "unat maximum \<le> 1000000" "draw \<le> rmax"
  defines "b \<equiv> base_delay (unat maximum) (unat retries) (unat initial)"
  shows "unat (RetryBackoffMicros rmax initial maximum retries draw)
      = backoff_spec (unat rmax) (unat initial) (unat maximum) (unat retries) (unat draw)
    \<and> b - b div 5 \<le> unat (RetryBackoffMicros rmax initial maximum retries draw)
    \<and> unat (RetryBackoffMicros rmax initial maximum retries draw) < b + b div 5"
  using assms RetryBackoffMicros_spec [of initial maximum draw rmax retries]
    backoff_spec_range [of "unat initial" "unat maximum" "unat draw" "unat rmax" "unat retries"]
  by (simp add: word_le_nat_alt)

theorem backoff_correct_witness:
  "800 \<le> unat (RetryBackoffMicros 0xFFFFFFFF 1000 1000000 0 12345)
    \<and> unat (RetryBackoffMicros 0xFFFFFFFF 1000 1000000 0 12345) < 1200"
  using backoff_correct [of 1000 1000000 12345 "0xFFFFFFFF" 0] by (simp add: base_delay_def)

section \<open>The receiver\<close>

text \<open>
  C22: A data packet within the window is stored at its position, once; the application is told
  of new data exactly if the packet fills the first gap, and the cumulative position moves over
  all packets that have become contiguous.
\<close>

theorem receiver_accepts:
  assumes "rcv_inv r" "rcv_active r" "control_bit \<noteq> rcv_control_bit r" "\<not> rcv_self_closed r"
    and "d = rcv_ahead r seq_id" "d < 2048" "acceptable r d" "length payload \<le> 248"
  shows "\<exists>r'. Receiver_handleDataPacket r control_bit seq_id payload is_final
      = Some (r', True, d = filled (rcv_slots r))
    \<and> rcv_inv r' \<and> rcv_slots r' = accept d (payload, is_final) (rcv_slots r)
    \<and> rb_begin (rcv_in_ring r') = rb_begin (rcv_in_ring r) \<and> rcv_pos r' = rcv_pos r
    \<and> rcv_unack_seq r' = rb_begin (rcv_in_ring r') + of_nat (filled (rcv_slots r'))
    \<and> rcv_peer_closed r' = (is_final \<or> rcv_peer_closed r)"
  using handle_accepted [OF assms] by (auto simp: rcv_inv_def unack_ok_def)

theorem receiver_accepts_witness:
  "\<exists>r'. Receiver_handleDataPacket demo_rx True 102 [5, 6] False = Some (r', True, False)
    \<and> rcv_slots r' = [None, None, Some ([5, 6], False)]"
proof -
  have "rcv_ahead demo_rx 102 = 2"
    by code_simp
  then show ?thesis
    using receiver_accepts [of demo_rx True 2 102 "[5, 6]" False] demo_rx_inv
    by (auto simp: rcv_active_def acceptable_def accept_def numeral_eq_Suc)
qed

text \<open>
  C28: Any other data packet leaves the window alone. A packet of another session or in the wrong
  state is ignored, a packet behind the window is acknowledged again, a packet beyond the window
  or beyond the end of the stream is dropped without an acknowledgement.
\<close>

theorem receiver_declines:
  assumes "rcv_ok r"
  shows "(\<not> rcv_active r \<or> control_bit = rcv_control_bit r \<longrightarrow>
      Receiver_handleDataPacket r control_bit seq_id payload is_final = Some (r, False, False))
    \<and> (rcv_active r \<and> control_bit \<noteq> rcv_control_bit r \<and> 2048 \<le> rcv_ahead r seq_id \<longrightarrow>
      Receiver_handleDataPacket r control_bit seq_id payload is_final
        = Some (r\<lparr>rcv_needs_ack := True\<rparr>, True, False))
    \<and> (rcv_active r \<and> control_bit \<noteq> rcv_control_bit r \<and> rcv_ahead r seq_id < 2048
        \<and> \<not> acceptable r (rcv_ahead r seq_id) \<longrightarrow>
      Receiver_handleDataPacket r control_bit seq_id payload is_final = Some (r, False, False))"
  using handle_ignored handle_stale [OF assms] handle_rejected [OF assms] by blast

theorem receiver_declines_witness:
  "Receiver_handleDataPacket demo_rx True 99 [5, 6] False = Some (demo_rx\<lparr>rcv_needs_ack := True\<rparr>, True, False)
    \<and> Receiver_handleDataPacket demo_rx True 104 [5, 6] False = Some (demo_rx, False, False)"
proof -
  have "2048 \<le> rcv_ahead demo_rx 99" "rcv_ahead demo_rx 104 = 4"
    by code_simp+
  moreover have "rcv_ok demo_rx"
    using demo_rx_inv(1) by (simp add: rcv_inv_def)
  ultimately show ?thesis
    using receiver_declines [of demo_rx True 99 "[5, 6]" False] receiver_declines [of demo_rx True 104 "[5, 6]" False]
      demo_rx_inv by (simp add: rcv_active_def acceptable_def)
qed



text \<open>
  C37: \<open>peek\<close> and \<open>availableForRead\<close> report the bytes at the front of the window and do not
  consume anything.
\<close>

theorem receiver_looks_ahead:
  assumes "rcv_inv r"
  shows "(\<exists>r'. Receiver_availableForRead r =
      (r', case front_fragment r of None \<Rightarrow> 0 | Some (bs, f) \<Rightarrow> if f then 1 else length bs)
      \<and> rcv_inv r' \<and> rcv_slots r' = rcv_slots r \<and> rcv_pos r' = rcv_pos r)
    \<and> (front_fragment r \<noteq> Some ([], False) \<longrightarrow>
      (\<exists>r'. Receiver_peek r = (r', case front_fragment r of Some (b # _, False) \<Rightarrow> uint b | _ \<Rightarrow> - 1)
        \<and> rcv_inv r' \<and> rcv_slots r' = rcv_slots r \<and> rcv_pos r' = rcv_pos r))"
  using availableForRead_spec [OF assms] peek_spec [OF assms] by blast

theorem receiver_looks_ahead_witness:
  "\<exists>r'. Receiver_peek demo_rx1 = (r', 1) \<and> rcv_slots r' = [Some ([1, 2, 3], False)]"
proof -
  have s: "rcv_slots demo_rx1 = [Some ([1, 2, 3], False)]" "front_fragment demo_rx1 = Some ([1, 2, 3], False)"
    by code_simp+
  show ?thesis
    using receiver_looks_ahead [OF demo_rx1_inv] s by auto
qed


section \<open>The transmitter\<close>

text \<open>
  C24: Writing appends a prefix of the buffer to the queued bytes; less than all of it only if the peer has
  given no more credit or all buffers are in use. Nothing else of the queue changes. The blocking
  write returns a positive count with the bytes queued, or keeps waiting, and it waits only in
  those two cases.
\<close>

theorem transmitter_writes:
  assumes "roo_lib L" "tx_inv L t" "\<not> tx_end_of_stream t"
  shows "(tx_state t = T_kConnected \<longrightarrow>
      (\<exists>t' n ready. Transmitter_tryWrite L t buf = Some (t', n, ready) \<and> n \<le> length buf \<and> tx_inv L t'
        \<and> queue_bytes (tx_queue t') = queue_bytes (tx_queue t) @ take n buf
        \<and> rb_begin (tx_out_ring t') = rb_begin (tx_out_ring t)
        \<and> (n < length buf \<longrightarrow>
            tx_recv_himark t' = rb_end (tx_out_ring t') \<or> used (tx_out_ring t') = cap (tx_out_ring t'))))
    \<and> (buf \<noteq> [] \<and> TST_checkConnectionStatus t sid = io_kOk \<longrightarrow>
      (\<exists>t' n ready. tx_inv L t' \<and> queue_bytes (tx_queue t') = queue_bytes (tx_queue t) @ take n buf
        \<and> n \<le> length buf
        \<and> (0 < n \<and> TST_write L t buf sid = Some (t', Returned (n, io_kOk, ready))
          \<or> n = 0 \<and> TST_write L t buf sid = Some (t', Blocked)
            \<and> (tx_recv_himark t' = rb_end (tx_out_ring t') \<or> used (tx_out_ring t') = cap (tx_out_ring t')))))"
proof (intro conjI impI)
  assume "tx_state t = T_kConnected"
  then show "\<exists>t' n ready. Transmitter_tryWrite L t buf = Some (t', n, ready) \<and> n \<le> length buf \<and> tx_inv L t'
        \<and> queue_bytes (tx_queue t') = queue_bytes (tx_queue t) @ take n buf
        \<and> rb_begin (tx_out_ring t') = rb_begin (tx_out_ring t)
        \<and> (n < length buf \<longrightarrow>
            tx_recv_himark t' = rb_end (tx_out_ring t') \<or> used (tx_out_ring t') = cap (tx_out_ring t'))"
    using tryWrite_loop_spec [OF assms, of buf 0 False] tx_growsD(2, 3) assms(3)
    unfolding Transmitter_tryWrite_def by fastforce
next
  assume "buf \<noteq> [] \<and> TST_checkConnectionStatus t sid = io_kOk"
  then show "\<exists>t' n ready. tx_inv L t' \<and> queue_bytes (tx_queue t') = queue_bytes (tx_queue t) @ take n buf
        \<and> n \<le> length buf
        \<and> (0 < n \<and> TST_write L t buf sid = Some (t', Returned (n, io_kOk, ready))
          \<or> n = 0 \<and> TST_write L t buf sid = Some (t', Blocked)
            \<and> (tx_recv_himark t' = rb_end (tx_out_ring t') \<or> used (tx_out_ring t') = cap (tx_out_ring t')))"
    using TST_write_spec [OF assms] tx_growsD(3) by blast
qed

theorem transmitter_writes_witness:
  "\<exists>t' n ready. Transmitter_tryWrite be_lib demo_tx [1, 2, 3] = Some (t', n, ready)
    \<and> queue_bytes (tx_queue t') = queue_bytes (tx_queue demo_tx) @ take n [1, 2, 3]"
  using transmitter_writes [OF be.roo_lib_axioms demo_tx_inv(1, 4), of "[1, 2, 3]", THEN conjunct1] demo_tx_inv(2) by blast

text \<open>
  C25: What \<open>send\<close> puts on the wire is one of the queued packets, with its own sequence number and
  type in the header, and never a packet that can still change; the queue itself is kept.
\<close>

theorem transmitter_sends:
  assumes "tx_inv L t" "used (tx_out_ring t) = 0 \<Longrightarrow> tx_next_to_send t \<noteq> rb_begin (tx_out_ring t) + 32768"
    and "Transmitter_send L t now draw n = (t', pkt, n')"
  shows "tx_inv L t' \<and> tx_frags L t' = tx_frags L t
    \<and> (pkt \<noteq> [] \<longrightarrow> (\<exists>k < used (tx_out_ring t). ob_finished (tx_queue t' ! k)
      \<and> tx_next_to_send t' = rb_begin (tx_out_ring t) + of_nat (Suc k)
      \<and> pkt = StoreBeU16 L (FormatPacketHeader (rb_begin (tx_out_ring t) + of_nat k) (tx_type t k) (tx_control_bit t))
          @ fst (tx_frags L t ! k)))"
  using send_spec [OF assms] tx_same_inv(2) [OF send_spec(1) [OF assms] assms(1)] by blast

theorem transmitter_sends_witness:
  "tx_frags be_lib demo_tx2 = tx_frags be_lib (the (Transmitter_close be_lib demo_tx1))"
proof -
  have u: "used (tx_out_ring (the (Transmitter_close be_lib demo_tx1))) = 2"
    by code_simp
  show ?thesis
    using transmitter_sends [OF demo_closed_inv _ demo_runs(3)] u by simp
qed

text \<open>
  C21: An acknowledgement up to a packet that has been sent removes exactly the packets before
  it, marks the packets of the bitmap, and, when it covers the final packet, makes the
  transmitter idle. A deferred end-of-stream packet is queued as soon as there is room.
\<close>

theorem transmitter_acks:
  assumes "roo_lib L" "tx_inv L t" "tx_state t = T_kConnected" "control_bit \<noteq> tx_control_bit t"
    and "d = tx_ahead t seq_id" "d \<le> used (tx_out_ring t)" "length bm \<le> 248"
    and "\<And>k. k < d \<Longrightarrow> tx_end_of_stream t \<or> ob_finished (tx_queue t ! k)"
  shows "\<exists>t' rushed. Transmitter_ack L t control_bit seq_id bm = Some (t', rushed)
    \<and> (if tx_end_of_stream t \<and> after_release d (tx_has_pending_eof t) (tx_frags L t) = []
       then tx_ok t' \<and> tx_state t' = T_kIdle \<and> used (tx_out_ring t') = 0 \<and> \<not> tx_end_of_stream t'
       else acked_to L t d bm t')"
  using ack_spec [OF assms(1-6) assms(8, 7)] .

theorem transmitter_acks_witness:
  "\<exists>t' rushed. Transmitter_ack be_lib demo_tx2 False 101 [] = Some (t', rushed)
    \<and> acked_to be_lib demo_tx2 1 [] t'"
proof -
  have c: "tx_ahead demo_tx2 101 = 1" "tx_state demo_tx2 = T_kConnected" "tx_control_bit demo_tx2"
    "tx_end_of_stream demo_tx2" "used (tx_out_ring demo_tx2) = 2"
    "after_release 1 (tx_has_pending_eof demo_tx2) (tx_frags be_lib demo_tx2) = [([], True)]"
    by code_simp+
  show ?thesis
    using transmitter_acks [OF be.roo_lib_axioms demo_tx2_inv, of False 1 101 "[]"] c by simp
qed

text \<open>
  C27: Closing the stream queues the final packet behind all data, or, when all buffers are in use,
  remembers to queue it; it keeps the queued data.
\<close>

theorem transmitter_closes:
  assumes "roo_lib L" "tx_inv L t" "tx_state t = T_kConnected" "\<not> tx_end_of_stream t"
  shows "\<exists>t'. Transmitter_close L t = Some t' \<and> tx_inv L t' \<and> tx_end_of_stream t' \<and> tx_state t' = T_kConnected
    \<and> (if used (tx_out_ring t) = cap (tx_out_ring t)
       then tx_has_pending_eof t' \<and> tx_frags L t' = tx_frags L t
       else \<not> tx_has_pending_eof t' \<and> tx_frags L t' = tx_frags L t @ [([], True)])"
  using roo_lib.close_spec [OF assms] by blast

theorem transmitter_closes_witness:
  "\<exists>t'. Transmitter_close be_lib demo_tx = Some t' \<and> tx_frags be_lib t' = tx_frags be_lib demo_tx @ [([], True)]"
  using transmitter_closes [OF be.roo_lib_axioms demo_tx_inv(1, 2, 4)] demo_tx_inv(3, 10) by auto

text \<open>
  C36: A flow-control packet never takes credit away: the distance from the end of the queue to the high mark
  does not shrink, and nothing but the high mark changes. An acknowledgement beyond the end of
  the queue is ignored, whatever its bitmap.
\<close>

theorem transmitter_control:
  assumes "tx_inv L t"
  shows "(\<forall>control_bit h t' changed. \<not> tx_end_of_stream t \<and> Transmitter_updateRecvHimark t control_bit h = (t', changed) \<longrightarrow>
      tx_inv L t' \<and> t' = t\<lparr>tx_recv_himark := tx_recv_himark t'\<rparr>
      \<and> unat (tx_recv_himark t - rb_end (tx_out_ring t)) \<le> unat (tx_recv_himark t' - rb_end (tx_out_ring t')))
    \<and> (\<forall>control_bit seq_id bm. used (tx_out_ring t) < tx_ahead t seq_id \<and> tx_ahead t seq_id < 2048 \<longrightarrow>
      Transmitter_ack L t control_bit seq_id bm = Some (t, False))"
proof -
  have "tx_inv L t' \<and> t' = t\<lparr>tx_recv_himark := tx_recv_himark t'\<rparr>
      \<and> unat (tx_recv_himark t - rb_end (tx_out_ring t)) \<le> unat (tx_recv_himark t' - rb_end (tx_out_ring t'))"
    if h: "\<not> tx_end_of_stream t" "Transmitter_updateRecvHimark t control_bit h = (t', changed)" for control_bit h t' changed
  proof -
    have "tx_out_ring t' = tx_out_ring t"
      using himark_spec(2) [OF assms h(2)] by (metis Transmitter.ext_inject Transmitter.surjective Transmitter.update_convs(8))
    then show ?thesis
      using himark_spec [OF assms h(2)] h(1) by simp
  qed
  then show ?thesis
    using ack_bogus [OF assms] by blast
qed

theorem transmitter_control_witness:
  "Transmitter_ack be_lib demo_tx2 False 103 [0xFF] = Some (demo_tx2, False)"
proof -
  have "tx_ahead demo_tx2 103 = 3" "used (tx_out_ring demo_tx2) = 2"
    by code_simp+
  then show ?thesis
    using transmitter_control [OF demo_tx2_inv, THEN conjunct2, rule_format, of 103 False "[0xFF]"] by simp
qed



section \<open>The monitors\<close>

text \<open>
  C35: A call with the id of another stream has no effect and reports a connection error, on
  every operation of both halves.
\<close>

theorem stale_stream_rejected:
  assumes "sid \<noteq> tx_my_stream_id t" "sid \<noteq> rcv_my_stream_id r" "0 < count"
  shows "TST_write L t buf sid = Some (t, Returned (0, io_kConnectionError, False))
    \<and> TST_tryWrite L t buf sid = Some (t, 0, io_kConnectionError, False)
    \<and> TST_flush t sid = (t, io_kConnectionError, False)
    \<and> TST_close L t sid = Some (t, False, Returned io_kConnectionError)
    \<and> TSR_read L r count sid st = Some (r, Returned ([], io_kConnectionError, False))
    \<and> TSR_tryRead L r count sid st = Some (r, [], io_kConnectionError, False)
    \<and> TSR_peek r sid = (r, - 1, io_kConnectionError)
    \<and> TSR_availableForRead r sid = (r, 0, io_kConnectionError)
    \<and> TSR_markInputClosed L r sid b = Some (r, io_kConnectionError, b)"
  using TST_stale [OF assms(1)] TSR_stale [OF assms(2, 3)] by simp

theorem stale_stream_rejected_witness:
  "TST_write be_lib demo_tx [1] 8 = Some (demo_tx, Returned (0, io_kConnectionError, False))"
  using stale_stream_rejected [of 8 demo_tx demo_rx 1 be_lib "[1]"] demo_tx_inv(8) demo_rx_inv(9) by simp



section \<open>Remote calls\<close>

text \<open>
  C7: A remote call is a call of the function. With a client and a server connected by a messaging
  transport, a typed stub that sends a serialisable request to a function the server has gets its
  callback run exactly once, and the callback hands the application exactly what the handler
  function returned: its status, and with \<open>kOk\<close> its response, provided the response can be
  serialised (otherwise the status is \<open>kInvalidArgument\<close>). A request that cannot be serialised is
  refused before anything is sent, and an unknown function is reported as \<open>kUnimplemented\<close>.
\<close>

theorem remote_call:
  assumes "roo_data L D" "rpc_io IO u24b varb" "call_ready L c s cid now" "wf_type (type_of_value q)"
  shows "(fits L D q \<and> rs_handlers s f = Some hr \<and> fn q = (st, r) \<and> wf_type (type_of_value r)
      \<and> status_ok st \<and> st \<noteq> kDeadlineExceeded \<longrightarrow>
        (\<exists>c' data st'. UnaryStub_callAsync IO
           (loopback L IO s cid (\<lambda>_. UnaryHandler_call (Deserialize L D (type_of_value q)) fn (Serialize L D)) now)
           c f (Serialize L D q) cb = Some (c', [(cb, data, st')], kOk)
         \<and> stub_callback (Deserialize L D (type_of_value r)) data st' = call_outcome L D st r))
    \<and> (fits L D q \<and> rs_handlers s f = None \<longrightarrow>
        (\<exists>c' data. UnaryStub_callAsync IO (loopback L IO s cid app now) c f (Serialize L D q) cb =
           Some (c', [(cb, data, kUnimplemented)], kOk)))
    \<and> (\<not> fits L D q \<longrightarrow> UnaryStub_callAsync IO send c f (Serialize L D q) cb = Some (c, [], kInvalidArgument))"
proof (intro conjI impI)
  have L: "roo_lib L"
    using assms(1) by (simp add: roo_data_def)
  note ser = Serialize_spec [OF L assms(4)]
  {
    assume a: "fits L D q \<and> rs_handlers s f = Some hr \<and> fn q = (st, r) \<and> wf_type (type_of_value r)
      \<and> status_ok st \<and> st \<noteq> kDeadlineExceeded"
    let ?app = "\<lambda>_. UnaryHandler_call (Deserialize L D (type_of_value q)) fn (Serialize L D)"
    obtain data st' where rep: "reply_status_data (?app hr (encode L D q)) = (st', data)" "st' = st"
      and out: "stub_callback (Deserialize L D (type_of_value r)) data st' = call_outcome L D st r"
      using typed_reply [OF assms(1), of q fn st r] a by blast
    obtain c' where "sendUnaryRpc IO (loopback L IO s cid ?app now) c f (encode L D q) cb = Some (c', [(cb, data, st')], kOk)"
      using rpc_io.call_through [OF assms(2,3), of f hr ?app "encode L D q" st' data cb] a rep by auto
    then show "\<exists>c' data st'. UnaryStub_callAsync IO (loopback L IO s cid ?app now) c f (Serialize L D q) cb =
        Some (c', [(cb, data, st')], kOk) \<and> stub_callback (Deserialize L D (type_of_value r)) data st' = call_outcome L D st r"
      using a out by (simp add: UnaryStub_callAsync_def ser)
  }
  {
    assume a: "fits L D q \<and> rs_handlers s f = None"
    then show "\<exists>c' data. UnaryStub_callAsync IO (loopback L IO s cid app now) c f (Serialize L D q) cb =
        Some (c', [(cb, data, kUnimplemented)], kOk)"
      using rpc_io.call_unknown [OF assms(2,3), of f app "encode L D q" cb] by (auto simp: UnaryStub_callAsync_def ser)
  }
  {
    assume "\<not> fits L D q"
    then show "UnaryStub_callAsync IO send c f (Serialize L D q) cb = Some (c, [], kInvalidArgument)"
      by (simp add: UnaryStub_callAsync_def ser)
  }
qed

theorem remote_call_witness:
  "\<exists>c' data st'. UnaryStub_callAsync be_io
     (loopback be_lib be_io ((RpcServer_new [7 \<mapsto> 0])\<lparr>rs_active := True, rs_connection_id := 5\<rparr>) 5
       (\<lambda>_. UnaryHandler_call (Deserialize be_lib be_data (T_pair T_uint8 T_uint8))
          (\<lambda>v. case v of V_pair (V_uint8 a) (V_uint8 b) \<Rightarrow> (kOk, V_uint8 (a + b)) | _ \<Rightarrow> (kInternal, V_Void))
          (Serialize be_lib be_data)) 0)
     RpcClient_new 7 (Serialize be_lib be_data (V_pair (V_uint8 3) (V_uint8 4))) 11 = Some (c', [(11, data, st')], kOk)
   \<and> stub_callback (Deserialize be_lib be_data T_uint8) data st' = (kOk, Some (V_uint8 7))"
  using remote_call [OF bed.roo_data_axioms beio.rpc_io_axioms,
    of RpcClient_new "(RpcServer_new [7 \<mapsto> 0])\<lparr>rs_active := True, rs_connection_id := 5\<rparr>" 5 0
      "V_pair (V_uint8 3) (V_uint8 4)" 7 0
      "\<lambda>v. case v of V_pair (V_uint8 a) (V_uint8 b) \<Rightarrow> (kOk, V_uint8 (a + b)) | _ \<Rightarrow> (kInternal, V_Void)"
      kOk "V_uint8 7" 11 "\<lambda>_ _. Failure kInternal []" "\<lambda>c _ _. (c, [], False)"]
  by (simp add: call_ready_def RpcClient_new_def RpcServer_new_def call_outcome_def status_ok_def)

text \<open>
  C9: The client, with any number of threads sending and any interleaving of responses, failed
  sends and connection resets: the callback of a call runs at most once, and never after the send
  has reported \<open>kUnavailable\<close>. No call is lost before the stream ids wrap around: each one has had
  its callback or reported failure, or can still be found by a response or a reset. And no
  response, whatever its bytes, makes the client fail an assertion.
\<close>

theorem client_calls:
  assumes "client_reachable IO s"
  shows "(\<forall>call. callbacks call (cs_log s) \<le> 1) \<and> no_late_callback (cs_log s)
    \<and> (length (rc_calls (cs_client s)) \<le> 0xFFFFFF \<longrightarrow>
        (\<forall>call < length (rc_calls (cs_client s)).
           callbacks call (cs_log s) = 1 \<or> Ev_return call kUnavailable \<in> set (cs_log s) \<or> findable s call))
    \<and> (\<forall>data. handleResponse IO (cs_client s) data \<noteq> None)"
proof -
  have inv: "client_inv s"
    by (rule client_reachable_inv [OF assms])
  then have call: "call_inv s call" for call
    by (simp add: client_inv_def)
  have "findable s call" if "cb_live (cs_client s) call" "length (rc_calls (cs_client s)) \<le> 0xFFFFFF" for call
    using id_invD(4) [OF client_reachable_id_inv [OF assms that(2)] that(1)] .
  then show ?thesis
    using inv call handleResponse_total [of IO "cs_client s"] unfolding client_inv_def call_inv_def Let_def
    by (metis option.distinct(1))
qed

theorem client_calls_witness:
  "client_reachable be_io demo_client
    \<and> cs_log demo_client = [Ev_send 0 1, Ev_return 0 kOk, Ev_send 1 2, Ev_return 1 kOk, Ev_callback 1 [9] kOk]
    \<and> no_late_callback (cs_log demo_client) \<and> findable demo_client 0"
proof -
  have log: "cs_log demo_client = [Ev_send 0 1, Ev_return 0 kOk, Ev_send 1 2, Ev_return 1 kOk, Ev_callback 1 [9] kOk]"
    "length (rc_calls (cs_client demo_client)) = 2"
    by code_simp+
  note calls = client_calls [OF demo_client_reachable]
  have "0 < length (rc_calls (cs_client demo_client))" "length (rc_calls (cs_client demo_client)) \<le> 0xFFFFFF"
    using log(2) by simp_all
  then have "callbacks 0 (cs_log demo_client) = 1 \<or> Ev_return 0 kUnavailable \<in> set (cs_log demo_client) \<or> findable demo_client 0"
    using calls by blast
  then have "findable demo_client 0"
    by (simp add: log(1))
  then show ?thesis
    using calls demo_client_reachable log(1) by blast
qed



text \<open>
  C12: Serialisation. A value of a type that has a serialiser is encoded as the reference encoding
  says, or refused with \<open>kInvalidArgument\<close> and no bytes, exactly when a nested member is longer than
  65535 bytes; what was encoded decodes to the same value; and the decoder accepts only bytes that
  the serialiser produces: every accepted input is the encoding of its value.
\<close>

theorem serialization_correct:
  assumes "roo_data L D" "wf_type (type_of_value v)"
  shows "Serialize L D v = (if fits L D v then \<lparr>sz_status = kOk, sz_data = encode L D v\<rparr>
       else \<lparr>sz_status = kInvalidArgument, sz_data = []\<rparr>)
    \<and> (fits L D v \<longrightarrow> Deserialize L D (type_of_value v) (sz_data (Serialize L D v)) = Inr v)
    \<and> (\<forall>t bs w. wf_type t \<and> Deserialize L D t bs = Inr w \<longrightarrow>
        type_of_value w = t \<and> Serialize L D w = \<lparr>sz_status = kOk, sz_data = bs\<rparr>)"
proof -
  have L: "roo_lib L"
    using assms(1) by (simp add: roo_data_def)
  have "type_of_value w = t \<and> Serialize L D w = \<lparr>sz_status = kOk, sz_data = bs\<rparr>"
    if "wf_type t" "Deserialize L D t bs = Inr w" for t bs w
  proof -
    have "type_of_value w = t \<and> fits L D w \<and> encode L D w = bs"
      using roo_data.Deserialize_exact [OF assms(1) that(1)] that(2) by (simp add: exact_def)
    then show ?thesis
      using that(1) by (simp add: Serialize_spec [OF L])
  qed
  moreover have "fits L D v \<longrightarrow> Deserialize L D (type_of_value v) (sz_data (Serialize L D v)) = Inr v"
    using roo_data.Deserialize_encode [OF assms(1), of v] assms(2) by (simp add: Serialize_spec [OF L])
  ultimately show ?thesis
    using Serialize_spec [OF L assms(2), of D] by blast
qed

theorem serialization_correct_witness:
  "Serialize be_lib be_data (V_pair (V_uint8 3) (V_tuple [V_bool True, V_uint16 258])) =
     \<lparr>sz_status = kOk, sz_data = [0, 1, 3, 0, 7, 0, 1, 1, 0, 2, 1, 2]\<rparr>
   \<and> Deserialize be_lib be_data (T_pair T_uint8 (T_tuple [T_bool, T_uint16])) [0, 1, 3, 0, 7, 0, 1, 1, 0, 2, 1, 2] =
     Inr (V_pair (V_uint8 3) (V_tuple [V_bool True, V_uint16 258]))"
proof -
  let ?v = "V_pair (V_uint8 3) (V_tuple [V_bool True, V_uint16 258])"
  have "encode be_lib be_data ?v = [0, 1, 3, 0, 7, 0, 1, 1, 0, 2, 1, 2]" "fits be_lib be_data ?v"
    "wf_type (type_of_value ?v)" "type_of_value ?v = T_pair T_uint8 (T_tuple [T_bool, T_uint16])"
    by (simp_all add: member_bytes_def store16_def)
  note v = this
  note ser = serialization_correct [OF bed.roo_data_axioms v(3)]
  have 1: "Serialize be_lib be_data ?v = \<lparr>sz_status = kOk, sz_data = [0, 1, 3, 0, 7, 0, 1, 1, 0, 2, 1, 2]\<rparr>"
    using ser [THEN conjunct1] by (simp only: v if_True)
  moreover have "Deserialize be_lib be_data (type_of_value ?v) (sz_data (Serialize be_lib be_data ?v)) = Inr ?v"
    using ser [THEN conjunct2, THEN conjunct1] v(2) by (rule mp)
  ultimately show ?thesis
    by (simp only: 1 v(4) Serialized.simps simp_thms)
qed

text \<open>
  C13: RPC headers. A header of the wire format is written in four to twenty-four bytes (so it fits
  the buffer of \<open>kMaxSerializedSize\<close>), and read back with its length, whatever payload follows; no
  proper prefix of it is accepted. The headers of requests and responses are of that format when
  their stream id has 24 bits. Whatever the bytes, an accepted first request has a function id and
  an accepted last response a status, and no more bytes are consumed than there are.
\<close>

theorem rpc_header_roundtrip:
  assumes "rpc_io IO u24b varb" "header_wf h"
  shows "(\<exists>bs. RpcHeader_serialize IO h kMaxSerializedSize = Some bs \<and> 4 \<le> length bs \<and> length bs \<le> 24
      \<and> (\<forall>payload. RpcHeader_deserialize IO RpcHeader_new (bs @ payload) = (length bs, h))
      \<and> (\<forall>k < length bs. fst (RpcHeader_deserialize IO RpcHeader_new (take k bs)) = 0))
    \<and> (\<forall>f i t st. i < 0x1000000 \<longrightarrow> header_wf (NewUnaryRequest f i) \<and> header_wf (NewUnaryRequest_timeout f i t)
        \<and> (status_ok st \<longrightarrow> header_wf (NewUnaryResponse i st)))
    \<and> (\<forall>data n h'. RpcHeader_deserialize IO RpcHeader_new data = (n, h') \<longrightarrow> n \<le> length data
        \<and> (0 < n \<and> hd_type h' = kRequest \<and> hd_first_message h' \<longrightarrow> functionId h' \<noteq> None)
        \<and> (0 < n \<and> hd_type h' = kResponse \<and> hd_last_message h' \<longrightarrow> responseStatus h' \<noteq> None))"
proof -
  have shape: "header_shape h"
    using assms(2) by (simp add: header_wf_def)
  have "n \<le> length data \<and> (0 < n \<and> hd_type h' = kRequest \<and> hd_first_message h' \<longrightarrow> functionId h' \<noteq> None)
        \<and> (0 < n \<and> hd_type h' = kResponse \<and> hd_last_message h' \<longrightarrow> responseStatus h' \<noteq> None)"
    if "RpcHeader_deserialize IO RpcHeader_new data = (n, h')" for data n h'
    using deserialize_bound [of IO RpcHeader_new data] deserialize_functionId [OF that] deserialize_status [OF that] that
    by (auto simp: functionId_def responseStatus_def)
  then show ?thesis
    using rpc_io.serialize_header_bytes [OF assms(1) shape] rpc_io.length_header_bytes [OF assms(1)]
      rpc_io.deserialize_header_bytes [OF assms] rpc_io.deserialize_truncated [OF assms] new_header_wf
    by (auto simp: kMaxSerializedSize_def)
qed

theorem rpc_header_roundtrip_witness:
  "header_wf (NewUnaryRequest_timeout 300 5 1000)
   \<and> RpcHeader_deserialize be_io RpcHeader_new [0x0F, 0, 0, 5, 0xAC, 2, 0xE8, 7, 42] = (8, NewUnaryRequest_timeout 300 5 1000)"
proof -
  have wf: "header_wf (NewUnaryRequest_timeout 300 5 1000)"
    by (simp add: new_header_wf)
  have "RpcHeader_serialize be_io (NewUnaryRequest_timeout 300 5 1000) kMaxSerializedSize = Some [0x0F, 0, 0, 5, 0xAC, 2, 0xE8, 7]"
    by (simp add: RpcHeader_serialize_def be_io_def out_append_def be24_def NewUnaryRequest_timeout_def header_mask_def
        kMaxSerializedSize_def)
  then show ?thesis
    using rpc_header_roundtrip [OF beio.rpc_io_axioms wf] wf by (auto dest: spec [of _ "[42]"])
qed

section \<open>Messages\<close>

text \<open>
  C10: Messages over a link. When messages are sent one after the other and the link delivers a
  prefix of the bytes written, the receiver sees a prefix of the messages, each whole and in
  order, and then one reset for the end of the connection; if everything was written and
  delivered, it sees all of them. Whatever bytes arrive, the loop ends with the stream and passes
  on nothing longer than the receive buffer.
\<close>

theorem messages_in_order:
  assumes "roo_lib L" "writeFully_law writeFully flush isOpen written" "readFully_law readFully stream"
    and "written out = []" "lm_max_recv_packet_size m < 4294967296" "ms_receiver m = Some r"
    and "\<forall>(h, p) \<in> set msgs. length h + length p \<le> lm_max_recv_packet_size m"
  shows "(prefix (stream i) (written (send_all L writeFully flush isOpen out msgs)) \<and> length msgs < fuel \<longrightarrow>
      (\<exists>k \<le> length msgs. receiveLoop_connection fuel L readFully m cid i =
         Some (map (\<lambda>(h, p). Received r cid (h @ p)) (take k msgs) @ [Reset r cid])))
    \<and> (isOpen (send_all L writeFully flush isOpen out msgs) \<and> length msgs < fuel
        \<and> stream i = written (send_all L writeFully flush isOpen out msgs) \<longrightarrow>
        receiveLoop_connection fuel L readFully m cid i =
          Some (map (\<lambda>(h, p). Received r cid (h @ p)) msgs @ [Reset r cid]))
    \<and> (length (stream i) < 4 * fuel \<longrightarrow>
        (\<exists>ms. receiveLoop_connection fuel L readFully m cid i = Some (map (Received r cid) ms @ [Reset r cid])
          \<and> (\<forall>x \<in> set ms. length x \<le> lm_max_recv_packet_size m)))"
proof -
  have loop: "receiveLoop_connection fuel L readFully m cid i = Some (map (Received r cid) ms @ [Reset r cid])"
    if "receive_messages fuel L readFully (lm_max_recv_packet_size m) i = Some ms" for ms
  proof -
    have "concat (map (Messaging_received m cid) ms) = map (Received r cid) ms"
      using assms(6) by (induction ms) (simp_all add: Messaging_received_def)
    then show ?thesis
      using that assms(6) by (simp add: receiveLoop_connection_def Messaging_reset_def)
  qed
  have events: "map (Received r cid) (map (\<lambda>(h, p). h @ p) xs) = map (\<lambda>(h, p). Received r cid (h @ p)) xs" for xs
    by auto
  note sent = messages_delivered [OF assms(1-5,7), of i fuel]
  show ?thesis
  proof (intro conjI impI)
    assume "prefix (stream i) (written (send_all L writeFully flush isOpen out msgs)) \<and> length msgs < fuel"
    then show "\<exists>k \<le> length msgs. receiveLoop_connection fuel L readFully m cid i =
        Some (map (\<lambda>(h, p). Received r cid (h @ p)) (take k msgs) @ [Reset r cid])"
      using sent(1) loop unfolding events [symmetric] by blast
  next
    assume "isOpen (send_all L writeFully flush isOpen out msgs) \<and> length msgs < fuel
      \<and> stream i = written (send_all L writeFully flush isOpen out msgs)"
    then show "receiveLoop_connection fuel L readFully m cid i =
        Some (map (\<lambda>(h, p). Received r cid (h @ p)) msgs @ [Reset r cid])"
      using sent(2) loop unfolding events [symmetric] by simp
  next
    assume "length (stream i) < 4 * fuel"
    then show "\<exists>ms. receiveLoop_connection fuel L readFully m cid i = Some (map (Received r cid) ms @ [Reset r cid])
        \<and> (\<forall>x \<in> set ms. length x \<le> lm_max_recv_packet_size m)"
      using receive_messages_total [OF assms(3)] loop by blast
  qed
qed

theorem messages_in_order_witness:
  "receiveLoop_connection 3 be_lib (\<lambda>i n. (take n i, drop n i)) ((LinkMessaging_new 100)\<lparr>ms_receiver := Some 4\<rparr>) 5
     [0, 0, 0, 3, 1, 2, 3, 0, 0, 0, 1, 9] = Some [Received 4 5 [1, 2, 3], Received 4 5 [9], Reset 4 5]"
proof -
  have wr: "writeFully_law (@) id (\<lambda>_. True) id"
    by (simp add: writeFully_law_def)
  have rd: "readFully_law (\<lambda>i n. (take n i, drop n i)) id"
    by (simp add: readFully_law_def)
  have "send_all be_lib (@) id (\<lambda>_. True) [] [([1], [2, 3]), ([], [9])] = [0, 0, 0, 3, 1, 2, 3, 0, 0, 0, 1, 9]"
    by (simp add: sendInternal_def store32_def)
  then show ?thesis
    using messages_in_order [OF be.roo_lib_axioms wr rd, of "[]" "(LinkMessaging_new 100)\<lparr>ms_receiver := Some 4\<rparr>" 4
        "[([1], [2, 3]), ([], [9])]" "[0, 0, 0, 3, 1, 2, 3, 0, 0, 0, 1, 9]" 3 5]
    by (simp add: LinkMessaging_new_def)
qed

text \<open>
  C14: Channels of a multiplexer do not see each other. A message sent on a channel, as a new
  message or a continuation, is passed, without the channel's prefix and once, to the receiver of
  the channel that the other side has registered under the same id, and to nobody else. A
  second channel with the id of a registered one cannot be created; a new channel is registered
  under its own id. A reset reaches the receiver of every channel.
\<close>

theorem mux_isolation:
  assumes "codec_ok 1 (StoreU8 D) (LoadU8 D)" "mux_ok heap mux"
  shows "(\<forall>c header payload want cid.
      (\<forall>e \<in> set (MuxChannel_send D (\<lambda>h p w. Dispatcher_received D heap mux cid (h @ p)) c header payload want)
         \<union> set (MuxChannel_sendContinuation D (\<lambda>cid h p. Dispatcher_received D heap mux cid (h @ p)) c cid header payload).
         \<exists>ref r. e = Received r cid (header @ payload) \<and> mc_id (heap ref) = mc_id c \<and> ms_receiver (heap ref) = Some r)
      \<and> (\<forall>ref r. mux_receivers mux (mc_id c) = Some ref \<and> ms_receiver (heap ref) = Some r \<longrightarrow>
          MuxChannel_send D (\<lambda>h p w. Dispatcher_received D heap mux cid (h @ p)) c header payload want =
            [Received r cid (header @ payload)]
          \<and> MuxChannel_sendContinuation D (\<lambda>cid h p. Dispatcher_received D heap mux cid (h @ p)) c cid header payload =
            [Received r cid (header @ payload)]))
    \<and> (\<forall>ref i. MuxChannel_new mux ref i = None \<longleftrightarrow> mux_receivers mux i \<noteq> None)
    \<and> (\<forall>ref i mux' c. (\<forall>j. mux_receivers mux j \<noteq> Some ref) \<and> MuxChannel_new mux ref i = Some (mux', c) \<longrightarrow>
        mc_id c = i \<and> mux_receivers mux' i = Some ref \<and> mux_ok (heap(ref := c)) mux')
    \<and> (\<forall>order cid. set order = dom (mux_receivers mux) \<longrightarrow>
        set (MuxMessaging_reset heap order mux cid) =
          {Reset r cid | r i ref. mux_receivers mux i = Some ref \<and> ms_receiver (heap ref) = Some r})"
proof -
  note sent = dispatch_sent [OF assms(1)] dispatch_sent_continuation [OF assms(1)]
  have id: "mc_id (heap ref) = i" if "mux_receivers mux i = Some ref" for i ref
    using assms(2) that by (simp add: mux_ok_def)
  have new: "MuxChannel_new mux ref i = None \<longleftrightarrow> mux_receivers mux i \<noteq> None" for ref i
    by (simp add: MuxChannel_new_def registerChannel_def CHECK_bind Let_def)
  show ?thesis
    unfolding sent
  proof (intro conjI allI impI)
    fix c cid header payload and want :: bool
    show "\<forall>e \<in> set (case mux_receivers mux (mc_id c) of None \<Rightarrow> []
          | Some ref \<Rightarrow> case ms_receiver (heap ref) of None \<Rightarrow> [] | Some r \<Rightarrow> [Received r cid (header @ payload)])
        \<union> set (case mux_receivers mux (mc_id c) of None \<Rightarrow> []
          | Some ref \<Rightarrow> case ms_receiver (heap ref) of None \<Rightarrow> [] | Some r \<Rightarrow> [Received r cid (header @ payload)]).
        \<exists>ref r. e = Received r cid (header @ payload) \<and> mc_id (heap ref) = mc_id c \<and> ms_receiver (heap ref) = Some r"
      using id [of "mc_id c"] by (cases "mux_receivers mux (mc_id c)"; cases "ms_receiver (heap (the (mux_receivers mux (mc_id c))))") auto
  next
    fix ref i
    show "MuxChannel_new mux ref i = None \<longleftrightarrow> mux_receivers mux i \<noteq> None"
      by (rule new)
  next
    fix ref i mux' c
    assume "(\<forall>j. mux_receivers mux j \<noteq> Some ref) \<and> MuxChannel_new mux ref i = Some (mux', c)"
    then show "mc_id c = i" "mux_receivers mux' i = Some ref" "mux_ok (heap(ref := c)) mux'"
      using mux_ok_register [OF assms(2)] by blast+
  next
    fix order cid
    assume "set order = dom (mux_receivers mux)"
    then show "set (MuxMessaging_reset heap order mux cid) =
        {Reset r cid | r i ref. mux_receivers mux i = Some ref \<and> ms_receiver (heap ref) = Some r}"
      by (rule mux_reset_all)
  qed simp_all
qed

theorem mux_isolation_witness:
  "MuxChannel_send be_data (\<lambda>h p w. Dispatcher_received be_data (\<lambda>_. \<lparr>ms_receiver = Some 8, mc_id = 3\<rparr>)
       \<lparr>mux_receivers = [3 \<mapsto> 0]\<rparr> 5 (h @ p)) \<lparr>ms_receiver = None, mc_id = 3\<rparr> [1] [2] False = [Received 8 5 [1, 2]]"
proof -
  have "mux_ok (\<lambda>_. \<lparr>ms_receiver = Some 8, mc_id = 3\<rparr>) \<lparr>mux_receivers = [3 \<mapsto> 0]\<rparr>"
    by (simp add: mux_ok_def)
  from mux_isolation [OF bed.codec_U8 this, THEN conjunct1, THEN spec [of _ "\<lparr>ms_receiver = None, mc_id = 3\<rparr>"]]
  show ?thesis
    by simp
qed

section \<open>Packets on a byte stream\<close>



section \<open>Serial lines\<close>

text \<open>
  C15: The DMA transmitter. In every interleaving of a writing thread (with its two critical sections and the
  copy between them), the DMA controller and the completion interrupt, and whatever the wrap-around
  of the counters, the line carries a prefix of the bytes written, and all that is published when
  \<open>flush\<close> finds the ring empty. Every step of the driver or the hardware reduces the work left, one
  is possible until everything is sent, so the driver comes to rest with everything on the line.
\<close>

theorem pico_transmits:
  assumes "tx_reachable s"
  shows "prefix (ts_wire s) (ts_written s)
    \<and> (flush_done (ts_dma s) \<and> \<not> ud_closed (ts_dma s) \<longrightarrow> ts_wire s @ unpublished (ts_writer s) = ts_written s)
    \<and> (\<forall>s'. tx_progress s s' \<longrightarrow> tx_work s' < tx_work s)
    \<and> (ts_wire s \<noteq> ts_written s \<longrightarrow> (\<exists>s'. tx_progress s s'))
    \<and> (\<exists>s'. tx_progress\<^sup>*\<^sup>* s s' \<and> ts_wire s' = ts_written s)"
proof -
  obtain h t where inv: "dma_tx_inv s h t"
    using tx_reachable_inv [OF assms] by blast
  have drains: "\<exists>s'. tx_progress\<^sup>*\<^sup>* s s' \<and> ts_wire s' = ts_written s"
    using inv by (intro tx_drains) blast
  show ?thesis
    using dma_tx_inv_wire [OF inv] dma_tx_inv_flush [OF inv] tx_work_decreases [OF _ inv] tx_can_progress [OF inv] drains
    by (intro conjI allI impI) (auto simp: tx_progress_def)
qed

theorem pico_transmits_witness:
  "\<exists>s'. tx_progress\<^sup>*\<^sup>* ((tx_start demo_dma)\<lparr>ts_writer := W_loop [1, 2, 3], ts_written := [1, 2, 3]\<rparr>) s' \<and> ts_wire s' = [1, 2, 3]"
  using pico_transmits [OF demo_call_reachable [of "[1, 2, 3]"]] by simp

text \<open>
  C16: Packets through the DMA driver: when the bytes written to it are the frames of a list of packets, what a
  receiver at the other end of the line decodes, however it is cut into reads, is a prefix of that
  list in every reachable state, and the whole list once the line has carried everything.
\<close>

theorem dma_packets:
  assumes "packet_coding L F" "\<forall>p \<in> set ps. length p \<le> 250" "length (ps_buf s0) = 256"
    "send_packets L F s0 ps = Some (s1, ts_written s)" "tx_reachable s"
    "recv_ok r" "pending_of r = Partial []" "concat reads = ts_wire s"
  shows "\<exists>r' qs. receive_reads L F r reads = (r', qs) \<and> prefix qs ps \<and> (ts_wire s = ts_written s \<longrightarrow> qs = ps)"
proof -
  obtain h t where inv: "dma_tx_inv s h t"
    using tx_reachable_inv [OF assms(5)] by blast
  have "prefix (concat reads) (ts_written s)"
    using dma_tx_inv_wire [OF inv] assms(8) by simp
  from packet_coding.wire_packets [OF assms(1-4,6,7) this] show ?thesis
    using assms(8) by simp
qed

theorem dma_packets_witness:
  "\<exists>s r'. tx_reachable s \<and> receive_reads be_lib cobs_frame (PacketReceiverOverStream_new []) [ts_wire s] = (r', [[1, 2, 0], [3]])"
proof -
  let ?s0 = "PacketSenderOverStream_new []" and ?ps = "[[1, 2, 0], [3]] :: byte list list"
  have s0: "length (ps_buf ?s0) = 256" "\<forall>p \<in> set ?ps. length p \<le> 250"
    by (simp_all add: PacketSenderOverStream_new_def)
  obtain s1 bs where bs: "send_packets be_lib cobs_frame ?s0 ?ps = Some (s1, bs)"
    using cobs.send_packets_received [OF s0(2,1)] by blast
  obtain s where s: "tx_progress\<^sup>*\<^sup>* ((tx_start demo_dma)\<lparr>ts_writer := W_loop bs, ts_written := bs\<rparr>) s" "ts_wire s = bs"
    using tx_drains [OF tx_reachable_inv [OF demo_call_reachable [of bs]]] by auto
  then have reach: "tx_reachable s" "ts_written s = bs"
    using tx_reachable_progress [OF demo_call_reachable s(1)] by simp_all
  have r: "recv_ok (PacketReceiverOverStream_new [])" "pending_of (PacketReceiverOverStream_new []) = Partial []"
    using demo_serial_ok(1,2) by (simp_all add: demo_serial_def)
  have "send_packets be_lib cobs_frame ?s0 ?ps = Some (s1, ts_written s)"
    using bs reach(2) by simp
  from dma_packets [OF cobs.packet_coding_axioms s0(2,1) this reach(1) r, of "[ts_wire s]"]
  obtain r' where "receive_reads be_lib cobs_frame (PacketReceiverOverStream_new []) [ts_wire s] = (r', ?ps)"
    using s(2) reach(2) by auto
  then show ?thesis
    using reach(1) by blast
qed

text \<open>
  C17: The DMA receiver. In every interleaving of arrivals and passes of the receive loop in which the ring does
  not overrun, across the wrap-around of the counters and the renewals of the transfer count, the
  channel has been given exactly the packets contained in the bytes read, which are the first bytes
  that arrived, in order. A pass after an overrun counts it and goes on with the oldest byte that
  is still in the ring.
\<close>

theorem pico_receives:
  assumes "packet_coding L F" "UartDma_new uart rx_buffer instances core uninitialized = Some (d0, instances', effects0)"
    "recv_ok (sl_receiver sl0)" "(rx_step L F rx_buffer)\<^sup>*\<^sup>* (rx_start d0 sl0) s"
  shows "(\<exists>q ps effects. ref_run L F (pending_of (sl_receiver sl0)) (take (rs_read s) (rs_arrived s)) = (q, ps)
      \<and> process_packets L (sl_channel sl0) ps = Some (sl_channel (rs_link s), effects)
      \<and> ud_rx_consumed (rs_dma s) = of_nat (rs_read s) \<and> rs_read s \<le> length (rs_arrived s) \<and> ud_overruns (rs_dma s) = 0)
    \<and> (\<forall>g1 g2 b1 n1 b2 ring rsr. dma_counts rx_buffer (rs_base s) g1 b1 n1 \<and> dma_counts rx_buffer b1 g2 b2 (length (rs_arrived s))
        \<and> rx_ring_ok ring (rs_arrived s) \<and> rs_read s < n1 \<and> n1 \<le> length (rs_arrived s)
        \<and> kRingSize < length (rs_arrived s) - rs_read s \<and> length (rs_arrived s) - rs_read s < 4294967296 \<longrightarrow>
        (\<exists>effects. UartDma_receive_pass L F (rs_dma s) (rs_link s) rx_buffer g1 g2 ring rsr = do {
          (sl, out, n) \<leftarrow> LinkStreamTransport_tryReceive L F (rs_link s) (take 256 (drop (length (rs_arrived s) - kRingSize) (rs_arrived s)));
          Some ((rs_dma s)\<lparr>ud_rx_base := of_nat b2, ud_overruns := 1,
            ud_rx_consumed := of_nat (length (rs_arrived s) - kRingSize + 256),
            ud_receive_errors := ud_receive_errors (rs_dma s) + (if rsr \<noteq> 0 then 1 else 0)\<rparr>, sl, effects, Some (out, n))
        }))"
proof -
  have inv: "rx_inv L F sl0 s"
    by (rule rx_inv_reachable [OF assms(2,4)])
  note i = inv [unfolded rx_inv_def]
  have "\<exists>effects. UartDma_receive_pass L F (rs_dma s) (rs_link s) rx_buffer g1 g2 ring rsr = do {
      (sl, out, n) \<leftarrow> LinkStreamTransport_tryReceive L F (rs_link s) (take 256 (drop (length (rs_arrived s) - kRingSize) (rs_arrived s)));
      Some ((rs_dma s)\<lparr>ud_rx_base := of_nat b2, ud_overruns := 1,
        ud_rx_consumed := of_nat (length (rs_arrived s) - kRingSize + 256),
        ud_receive_errors := ud_receive_errors (rs_dma s) + (if rsr \<noteq> 0 then 1 else 0)\<rparr>, sl, effects, Some (out, n))
    }"
    if h: "dma_counts rx_buffer (rs_base s) g1 b1 n1" "dma_counts rx_buffer b1 g2 b2 (length (rs_arrived s))"
      "rx_ring_ok ring (rs_arrived s)" "rs_read s < n1" "n1 \<le> length (rs_arrived s)"
      "kRingSize < length (rs_arrived s) - rs_read s" "length (rs_arrived s) - rs_read s < 4294967296" for g1 g2 b1 n1 b2 ring rsr
  proof -
    have start: "rx_from (rs_read s) (length (rs_arrived s)) = length (rs_arrived s) - kRingSize"
      "min 256 (length (rs_arrived s) - (length (rs_arrived s) - kRingSize)) = 256" "n1 \<noteq> rs_read s" "rs_read s \<le> n1"
      using h(4,6) by (simp_all add: rx_from_def kRingSize_def)
    show ?thesis
      using receive_pass_eq [OF i [THEN conjunct1] h(1-3) i [THEN conjunct2, THEN conjunct1] start(4) h(5,7), of L F "rs_link s" rsr] i
      unfolding if_not_P [OF start(3)] if_P [OF h(6)] start(1,2) by simp
  qed
  then show ?thesis
    using packet_coding.rx_inv_packets [OF assms(1) inv assms(3)] i by blast
qed

theorem pico_receives_witness:
  "\<exists>s q ps effects. (rx_step be_lib cobs_frame 0x20000000)\<^sup>*\<^sup>* (rx_start demo_dma demo_serial) s \<and> rs_read s = 1
    \<and> ref_run be_lib cobs_frame (Partial []) [5] = (q, ps)
    \<and> process_packets be_lib demo_a ps = Some (sl_channel (rs_link s), effects) \<and> ud_rx_consumed (rs_dma s) = 1"
proof -
  obtain s where s: "(rx_step be_lib cobs_frame 0x20000000)\<^sup>*\<^sup>* (rx_start demo_dma demo_serial) s" "rs_read s = 1" "rs_arrived s = [5]"
    using demo_rx_reachable by blast
  from pico_receives [OF cobs.packet_coding_axioms demo_dma_new demo_serial_ok(1) s(1), THEN conjunct1]
  obtain q ps effects where "ref_run be_lib cobs_frame (pending_of (sl_receiver demo_serial)) (take (rs_read s) (rs_arrived s)) = (q, ps)"
    "process_packets be_lib (sl_channel demo_serial) ps = Some (sl_channel (rs_link s), effects)" "ud_rx_consumed (rs_dma s) = of_nat (rs_read s)"
    by (elim exE conjE) (rule that)
  then show ?thesis
    using s by (intro exI [of _ s] exI [of _ q] exI [of _ ps] exI [of _ effects]) (simp add: demo_serial_ok(2), simp add: demo_serial_def)
qed

text \<open>
  C18: The receive callback of the ESP32 ends after at most as many reads as bytes were available at its entry,
  whatever arrives meanwhile; it stops when it has read those bytes, or when a read gives nothing,
  and takes at most 255 more. The channel gets the packets of the bytes read, in order, and stays
  well formed unless one of them is the packet that fails an assertion.
\<close>

theorem serial_receives:
  assumes "packet_coding L F" "recv_ok (sl_receiver sl)" "ch_ok (sl_channel sl)" "0 < available" "\<forall>i. length (tryRead i) \<le> 256"
  shows "\<exists>n r ps. n \<le> nat available
    \<and> ref_run L F (pending_of (sl_receiver sl)) (concat (map tryRead [0..<n])) = (pending_of r, ps)
    \<and> (available \<le> int (total_read tryRead n) \<or> 0 < n \<and> tryRead (n - 1) = [])
    \<and> int (total_read tryRead n) < available + 256
    \<and> (if packets_abort L (sl_channel sl) ps then receiveAvailable L F tryRead available sl = None
       else \<exists>ch effects. process_packets L (sl_channel sl) ps = Some (ch, effects) \<and> ch_ok ch
         \<and> receiveAvailable L F tryRead available sl = Some (\<lparr>sl_receiver = r, sl_channel = ch\<rparr>, effects))"
proof -
  obtain n where n: "drain_stops tryRead (nat available) n"
    and eq: "receiveAvailable L F tryRead available sl = serial_reads L F sl (map tryRead [0..<n])"
    using receiveAvailable_drains [OF assms(4)] by blast
  obtain r ps where rr: "receive_reads L F (sl_receiver sl) (map tryRead [0..<n]) = (r, ps)"
    by (metis surj_pair)
  have "roo_lib L"
    using assms(1) by (simp add: packet_coding_def)
  from process_packets_total [OF this assms(3), of ps]
  have res: "if packets_abort L (sl_channel sl) ps then receiveAvailable L F tryRead available sl = None
       else \<exists>ch effects. process_packets L (sl_channel sl) ps = Some (ch, effects) \<and> ch_ok ch
         \<and> receiveAvailable L F tryRead available sl = Some (\<lparr>sl_receiver = r, sl_channel = ch\<rparr>, effects)"
    unfolding eq serial_reads_eq [OF rr] by (auto split: if_splits)
  have "total_read tryRead n < nat available + 256"
  proof (cases n)
    case (Suc j)
    then have "total_read tryRead j < nat available" "length (tryRead j) \<le> 256"
      using n assms(5) by (auto simp: drain_stops_def)
    then show ?thesis
      unfolding Suc total_read_simps by linarith
  qed simp
  then have bound: "int (total_read tryRead n) < available + 256"
    using assms(4) by linarith
  have "n \<le> nat available" "available \<le> int (total_read tryRead n) \<or> 0 < n \<and> tryRead (n - 1) = []"
    using n assms(4) by (auto simp: drain_stops_def)
  then show ?thesis
    using packet_coding.receive_reads_refines [OF assms(1,2) rr] res bound by blast
qed

theorem serial_receives_witness:
  "\<exists>n r ps. n \<le> 1 \<and> ref_run be_lib cobs_frame (Partial []) (concat (map (\<lambda>i. if i = 0 then [5] else []) [0..<n])) = (pending_of r, ps)
    \<and> (1 \<le> int (total_read (\<lambda>i. if i = 0 then [5] else []) n) \<or> 0 < n \<and> (if n - 1 = 0 then [5] else []) = ([] :: byte list))"
proof -
  let ?f = "\<lambda>i :: nat. if i = 0 then [5] else [] :: byte list"
  have "\<forall>i. length (?f i) \<le> 256" "(0 :: int) < 1"
    by simp_all
  from serial_receives [OF cobs.packet_coding_axioms demo_serial_ok(1,3) this(2,1)]
  obtain n r ps where "n \<le> nat 1" "ref_run be_lib cobs_frame (pending_of (sl_receiver demo_serial)) (concat (map ?f [0..<n])) = (pending_of r, ps)"
    "1 \<le> int (total_read ?f n) \<or> 0 < n \<and> ?f (n - 1) = []"
    by (elim exE conjE) (rule that)
  then show ?thesis
    unfolding demo_serial_ok(2) by (intro exI [of _ n] exI [of _ r] exI [of _ ps] conjI) simp_all
qed

section \<open>Links\<close>

text \<open>
  C19: The life of a link. Connecting (with any draws of the random generator) gives a link that is
  connecting, on which waiting for the connection blocks, and makes every link of an earlier
  connection broken. Disconnecting gives an idle link, and a second disconnect does nothing;
  copies that are left of it are broken. A link that was moved from is the null link, and reading
  from or writing to a null link does not touch the channel.
\<close>

theorem link_lifecycle:
  assumes "ch_ok ch" "d \<noteq> 0"
  shows "(\<exists>ch' effects. LinkTransport_connectAsync L ch f (replicate k 0 @ d # seq # draws) = Some (ch', Link_new d, effects)
      \<and> ch_ok ch' \<and> Link_status ch' (Link_new d) = Link_kConnecting \<and> Link_awaitConnected_pass ch' (Link_new d) = Blocked
      \<and> (\<forall>l. ln_channel l \<and> ln_my_stream_id l \<noteq> 0 \<and> ln_my_stream_id l \<noteq> d \<longrightarrow> Link_status ch' l = Link_kBroken))
    \<and> (\<forall>l. ln_channel l \<and> ln_my_stream_id l = ch_my_stream_id ch \<and> ch_my_stream_id ch \<noteq> 0 \<longrightarrow>
        (\<exists>ch' l' effects. Link_disconnect L ch l = Some (ch', l', effects) \<and> ch_ok ch' \<and> Link_status ch' l' = Link_kIdle
          \<and> Link_status ch' l = Link_kBroken \<and> Link_disconnect L ch' l' = Some (ch', l', [])))
    \<and> (\<forall>l m. Link_move l = (l, Link_null) \<and> Link_assign m l = (l, Link_null))
    \<and> (\<forall>n buf. LinkInputStream_read L ch (ln_in Link_null) n = Some (ch, ln_in Link_null, Returned [])
        \<and> LinkOutputStream_write L ch (ln_out Link_null) buf = Some (ch, ln_out Link_null, Returned 0)
        \<and> Link_disconnect L ch Link_null = Some (ch, Link_null, []) \<and> Link_status ch Link_null = Link_kIdle)"
proof -
  have null: "li_status (ln_in Link_null) \<noteq> io_kOk" "lo_status (ln_out Link_null) \<noteq> io_kOk"
    "Link_disconnect L ch Link_null = Some (ch, Link_null, [])" "Link_status ch Link_null = Link_kIdle"
    by (simp_all add: Link_null_def LinkInputStream_null_def LinkOutputStream_null_def Link_disconnect_def Link_status_def)
  show ?thesis
    using connectAsync_link [OF assms, of L f k seq draws] disconnect_link [OF assms(1), of _ L]
      in_closed(1) [OF null(1)] out_closed(1) [OF null(2)] null(3,4)
    by (intro conjI allI impI) (blast | simp add: Link_move_eq Link_assign_eq)+
qed

theorem link_lifecycle_witness:
  "\<exists>ch' effects. LinkTransport_connectAsync be_lib demo_a None [0, 9, 5] = Some (ch', Link_new 9, effects)
    \<and> Link_status ch' (Link_new 9) = Link_kConnecting \<and> Link_status ch' (Link_new 7) = Link_kBroken"
proof -
  from link_lifecycle [OF demo_ch_ok(2), of 9 be_lib None 1 5 "[]", THEN conjunct1]
  obtain ch' effects where "LinkTransport_connectAsync be_lib demo_a None [0, 9, 5] = Some (ch', Link_new 9, effects)"
    "Link_status ch' (Link_new 9) = Link_kConnecting"
    "\<forall>l. ln_channel l \<and> ln_my_stream_id l \<noteq> 0 \<and> ln_my_stream_id l \<noteq> 9 \<longrightarrow> Link_status ch' l = Link_kBroken"
    by auto
  moreover have "ln_channel (Link_new 7)" "ln_my_stream_id (Link_new 7) = 7"
    by (simp_all add: Link_new_def)
  ultimately show ?thesis
    by auto
qed

end
